(* ===== verification/Prelude.thy ===== *)
theory Prelude
  imports Main "HOL-Library.While_Combinator"
begin

text \<open>
  Shared vocabulary of the development.  Python exceptions are the values of
  \<open>pyexn\<close>, a computation that may raise is a sum \<open>pyexn + 'a\<close> (type \<open>res\<close>) and
  \<open>bnd\<close> sequences two of them, so that every \<open>raise\<close> of the source is a branch of
  the model.  A recursion over DWARF data (which may be cyclic) takes a fuel
  argument; running out of fuel is the exception \<open>NonTermination\<close>, and the locale
  \<open>fuelled\<close> states once what every such function promises: a result, once reached,
  does not depend on the fuel.  The rest is text: decimal numbers, joining, padding.
\<close>

section \<open>Results\<close>

datatype pyexn =
    PyException string
  | AttributeError
  | TypeError
  | AssertionError
  | NonTermination

type_synonym 'a res = "pyexn + 'a"

definition bnd :: "'a res \<Rightarrow> ('a \<Rightarrow> 'b res) \<Rightarrow> 'b res" where
  "bnd r f = (case r of Inl e \<Rightarrow> Inl e | Inr x \<Rightarrow> f x)"

named_theorems res_simps \<open>evaluation of sequenced results\<close>

lemma bnd_Inl [simp, res_simps]: "bnd (Inl e) f = Inl e"
  by (simp add: bnd_def)

lemma bnd_Inr [simp, res_simps]: "bnd (Inr x) f = f x"
  by (simp add: bnd_def)

lemma bnd_eq_Inr: "bnd r f = Inr y \<longleftrightarrow> (\<exists>x. r = Inr x \<and> f x = Inr y)"
  by (cases r) auto

lemma bnd_split: "P (bnd r f) \<longleftrightarrow> (\<forall>e. r = Inl e \<longrightarrow> P (Inl e)) \<and> (\<forall>x. r = Inr x \<longrightarrow> P (f x))"
  by (cases r) auto

lemma bnd_assoc: "bnd (bnd r f) g = bnd r (\<lambda>x. bnd (f x) g)"
  by (cases r) auto

lemma bnd_cong [fundef_cong]:
  "r = r' \<Longrightarrow> (\<And>x. r' = Inr x \<Longrightarrow> f x = f' x) \<Longrightarrow> bnd r f = bnd r' f'"
  by (cases r') auto

text \<open>\<open>need\<close> is the use of an attribute that must not be \<open>None\<close>: the exception is the
  one Python raises for the operation applied to \<open>None\<close>.\<close>

definition need :: "pyexn \<Rightarrow> 'a option \<Rightarrow> 'a res" where
  "need e x = (case x of None \<Rightarrow> Inl e | Some y \<Rightarrow> Inr y)"

lemma need_simps [simp, res_simps]: "need e None = Inl e" "need e (Some x) = Inr x"
  by (simp_all add: need_def)

lemma need_eq_Inr: "need e x = Inr y \<longleftrightarrow> x = Some y"
  by (cases x) simp_all

text \<open>The elements of a list one after the other, for their results or for their effects; the first
  that raises ends it.\<close>

fun map_res :: "('a \<Rightarrow> 'b res) \<Rightarrow> 'a list \<Rightarrow> 'b list res" where
  "map_res f [] = Inr []"
| "map_res f (x # xs) = bnd (f x) (\<lambda>y. bnd (map_res f xs) (\<lambda>ys. Inr (y # ys)))"

fun in_turn :: "('a \<Rightarrow> 's \<Rightarrow> 's res) \<Rightarrow> 'a list \<Rightarrow> 's \<Rightarrow> 's res" where
  "in_turn f [] s = Inr s"
| "in_turn f (x # xs) s = bnd (f x s) (in_turn f xs)"

lemma map_res_length: "map_res f xs = Inr ys \<Longrightarrow> length ys = length xs"
  by (induction xs arbitrary: ys) (auto simp: bnd_eq_Inr)

lemma in_turn_append: "in_turn f (xs @ ys) s = bnd (in_turn f xs s) (in_turn f ys)"
  by (induction xs arbitrary: s) (simp_all add: bnd_def split: sum.split)

section \<open>Fuel\<close>

text \<open>
  A fuelled function either runs out (\<open>NonTermination\<close>) or gives the answer it gives
  for every larger fuel.  Clients only need the two derived facts.
\<close>

locale fuelled =
  fixes run :: "nat \<Rightarrow> 'a \<Rightarrow> 'b res"
  assumes run_Suc: "run n x \<noteq> Inl NonTermination \<Longrightarrow> run (Suc n) x = run n x"
begin

lemma run_mono: "run n x \<noteq> Inl NonTermination \<Longrightarrow> n \<le> m \<Longrightarrow> run m x = run n x"
proof (induction m)
  case 0
  then show ?case by simp
next
  case (Suc m)
  show ?case
  proof (cases "n = Suc m")
    case True
    then show ?thesis by simp
  next
    case False
    with Suc have "run m x = run n x" by simp
    with Suc.prems(1) show ?thesis by (metis run_Suc)
  qed
qed

lemma run_determ:
  assumes "run n x \<noteq> Inl NonTermination" and "run m x \<noteq> Inl NonTermination"
  shows "run n x = run m x"
  using assms run_mono [of n x m] run_mono [of m x n] by (metis nat_le_linear)

end

section \<open>Loops\<close>

text \<open>A \<open>while\<close> loop of the source that may run forever: \<open>NonTermination\<close> if it does.\<close>

definition run_while :: "('s \<Rightarrow> bool) \<Rightarrow> ('s \<Rightarrow> 's) \<Rightarrow> 's \<Rightarrow> 's res" where
  "run_while b c s = (case while_option b c s of None \<Rightarrow> Inl NonTermination | Some r \<Rightarrow> Inr r)"

lemma run_while_unfold: "run_while b c s = (if b s then run_while b c (c s) else Inr s)"
  by (subst (1 2) run_while_def) (simp add: while_option_unfold [of b c s])

lemma run_while_Inr_iff:
  "run_while b c s = Inr r \<longleftrightarrow> (\<exists>k. r = (c ^^ k) s \<and> \<not> b r \<and> (\<forall>j<k. b ((c ^^ j) s)))"
proof
  assume "run_while b c s = Inr r"
  then have w: "while_option b c s = Some r" by (simp add: run_while_def split: option.splits)
  then obtain k where "r = (c ^^ k) s" "k = (LEAST k. \<not> b ((c ^^ k) s))"
    by (auto simp: while_option_def split: if_splits)
  with while_option_stop [OF w] show "\<exists>k. r = (c ^^ k) s \<and> \<not> b r \<and> (\<forall>j<k. b ((c ^^ j) s))"
    by (intro exI [of _ k]) (auto dest: not_less_Least)
next
  assume "\<exists>k. r = (c ^^ k) s \<and> \<not> b r \<and> (\<forall>j<k. b ((c ^^ j) s))"
  then obtain k where "r = (c ^^ k) s" "\<not> b r" "\<forall>j<k. b ((c ^^ j) s)" by blast
  then show "run_while b c s = Inr r"
  proof (induction k arbitrary: s)
    case 0
    then show ?case by (simp add: run_while_unfold [of b c s])
  next
    case (Suc k)
    have "b ((c ^^ j) (c s))" if "j < k" for j
      using Suc.prems(3) that by (metis Suc_less_eq comp_apply funpow_Suc_right)
    then have "run_while b c (c s) = Inr r"
      using Suc.prems(1,2) by (intro Suc.IH) (simp_all add: funpow_Suc_right del: funpow.simps)
    moreover have "b s" using Suc.prems(3) by force
    ultimately show ?case by (simp add: run_while_unfold [of b c s])
  qed
qed

lemma run_while_Inl: "run_while b c s = Inl e \<Longrightarrow> e = NonTermination"
  by (auto simp: run_while_def split: option.splits)

lemma run_while_NonTermination:
  "run_while b c s = Inl NonTermination \<longleftrightarrow> (\<forall>k. b ((c ^^ k) s))"
proof
  assume *: "run_while b c s = Inl NonTermination"
  show "\<forall>k. b ((c ^^ k) s)"
  proof (rule ccontr)
    assume "\<not> (\<forall>k. b ((c ^^ k) s))"
    then obtain m where "\<not> b ((c ^^ m) s)" "\<forall>j<m. b ((c ^^ j) s)"
      using exists_least_iff [of "\<lambda>k. \<not> b ((c ^^ k) s)"] by blast
    then have "run_while b c s = Inr ((c ^^ m) s)" unfolding run_while_Inr_iff by blast
    with * show False by simp
  qed
next
  assume *: "\<forall>k. b ((c ^^ k) s)"
  show "run_while b c s = Inl NonTermination"
  proof (cases "run_while b c s")
    case (Inl e)
    then show ?thesis using run_while_Inl [of b c s e] by simp
  next
    case (Inr r)
    with * show ?thesis unfolding run_while_Inr_iff by blast
  qed
qed

lemma run_while_stop: "run_while b c s = Inr r \<Longrightarrow> \<not> b r"
  by (auto simp: run_while_Inr_iff)

lemma run_while_inv:
  "run_while b c s = Inr r \<Longrightarrow> P s \<Longrightarrow> (\<And>s. P s \<Longrightarrow> b s \<Longrightarrow> P (c s)) \<Longrightarrow> P r"
  by (auto simp: run_while_def split: option.splits intro: while_option_rule [of P b c s r])

lemma run_while_measure:
  assumes "P s" and "\<And>s. P s \<Longrightarrow> b s \<Longrightarrow> P (c s) \<and> (f (c s) :: nat) < f s"
  shows "\<exists>r. run_while b c s = Inr r"
  using measure_while_option_Some [of P b c f s] assms by (auto simp: run_while_def)

section \<open>Text\<close>

definition digit_char :: "nat \<Rightarrow> char" where
  "digit_char d = (''0123456789'' ! d)"

fun show_nat :: "nat \<Rightarrow> string" where
  "show_nat n = (if n < 10 then [digit_char n] else show_nat (n div 10) @ [digit_char (n mod 10)])"

declare show_nat.simps [simp del]

text \<open>Python's \<open>str\<close> of an integer, as \<open>%d\<close> and f-strings render it.\<close>

definition show_int :: "int \<Rightarrow> string" where
  "show_int i = (if i < 0 then ''-'' @ show_nat (nat (- i)) else show_nat (nat i))"

text \<open>\<open>sep.join(parts)\<close>\<close>

fun join :: "string \<Rightarrow> string list \<Rightarrow> string" where
  "join sep [] = []"
| "join sep [x] = x"
| "join sep (x # y # ys) = x @ sep @ join sep (y # ys)"

section \<open>Lists\<close>

lemma foldl_invariant:
  "P s \<Longrightarrow> (\<And>s x. P s \<Longrightarrow> x \<in> set xs \<Longrightarrow> P (f s x)) \<Longrightarrow> P (foldl f s xs)"
  by (induction xs arbitrary: s) auto

lemma prod_list_rev [simp]: "prod_list (rev xs) = prod_list (xs :: int list)"
  by (induction xs) (simp_all add: algebra_simps)

lemma foldl_times_prod_list: "foldl (*) (a :: int) xs = a * prod_list xs"
  by (induction xs arbitrary: a) (simp_all add: algebra_simps)

end
