(* ===== verification/PyIdent.thy ===== *)
theory PyIdent
  imports Prelude
begin

text \<open>
  Identifiers (\<open>CTypeGen/__init__.py\<close>): \<open>asPythonId\<close> turns a name of the debug data
  (a C++ name such as \<open>std::vector<int>\<close>) into a Python identifier, and \<open>pad\<close> the
  indentation of emitted code.  The decoder \<open>dec_id\<close> is not part of the program: it
  is the abstract inverse against which the encoding is shown lossless.
\<close>

section \<open>The encoding\<close>

text \<open>\<open>keyword.iskeyword\<close> of the Python 3 standard library.\<close>

definition kwlist :: "string list" where
  "kwlist = [''False'', ''None'', ''True'', ''and'', ''as'', ''assert'', ''async'', ''await'',
     ''break'', ''class'', ''continue'', ''def'', ''del'', ''elif'', ''else'', ''except'',
     ''finally'', ''for'', ''from'', ''global'', ''if'', ''import'', ''in'', ''is'', ''lambda'',
     ''nonlocal'', ''not'', ''or'', ''pass'', ''raise'', ''return'', ''try'', ''while'', ''with'',
     ''yield'']"

definition iskeyword :: "string \<Rightarrow> bool" where
  "iskeyword s = List.member kwlist s"

definition repls :: "(char \<times> string) list" where
  "repls = [
     (CHR '':'', ''_cn''),
     (CHR ''<'', ''_lt''),
     (CHR ''>'', ''_gt''),
     (CHR ''('', ''_lp''),
     (CHR '')'', ''_rp''),
     (CHR ''-'', ''_dash''),
     (CHR ''='', ''_eq''),
     (CHR ''*'', ''_ptr''),
     (CHR '' '', ''_sp''),
     (CHR '','', ''_comma''),
     (CHR ''&'', ''_amp''),
     (CHR ''['', ''_lbrack''),
     (CHR '']'', ''_rbrack''),
     (CHR 0x27, ''_quot'')]"

text \<open>The loop over the characters, with its flag \<open>prevWasEscaped\<close>.\<close>

fun enc_chars :: "bool \<Rightarrow> string \<Rightarrow> string" where
  "enc_chars prevWasEscaped [] = []"
| "enc_chars prevWasEscaped (c # cs) =
     (case map_of repls c of
        Some r \<Rightarrow> r @ enc_chars True cs
      | None \<Rightarrow> (if prevWasEscaped then ''_'' else []) @ c # enc_chars False cs)"

definition asPythonId_str :: "string \<Rightarrow> string" where
  "asPythonId_str s =
     (let out = enc_chars False s in if iskeyword out then out @ ''_'' else out)"

definition asPythonId :: "string option \<Rightarrow> string option" where
  "asPythonId s = map_option asPythonId_str s"

definition pad :: "nat \<Rightarrow> string" where
  "pad indent = replicate indent (CHR '' '')"


section \<open>What the output looks like\<close>

definition special :: "char \<Rightarrow> bool" where
  "special c = (map_of repls c \<noteq> None)"

definition letters :: string where
  "letters = ''_abcdefghijklmnopqrstuvwxyzABCDEFGHIJKLMNOPQRSTUVWXYZ''"

definition digits :: string where
  "digits = ''0123456789''"

definition ident_start :: "char \<Rightarrow> bool" where
  "ident_start c = List.member letters c"

definition ident_char :: "char \<Rightarrow> bool" where
  "ident_char c = (List.member letters c \<or> List.member digits c)"

text \<open>An ASCII string that Python's grammar accepts as a name.\<close>

definition is_identifier :: "string \<Rightarrow> bool" where
  "is_identifier s = (s \<noteq> [] \<and> ident_start (hd s) \<and> list_all ident_char s \<and> \<not> iskeyword s)"

lemma repls_words:
  "list_all (\<lambda>(c, r). hd r = CHR ''_'' \<and> r \<noteq> [] \<and> tl r \<noteq> [] \<and> list_all ident_char (tl r)
     \<and> \<not> List.member (tl r) (CHR ''_'')) repls"
  by code_simp

lemma repls_code:
  assumes "map_of repls c = Some r"
  shows "\<exists>p. r = CHR ''_'' # p \<and> p \<noteq> [] \<and> list_all ident_char p \<and> CHR ''_'' \<notin> set p"
proof -
  from assms have "(c, r) \<in> set repls" by (rule map_of_SomeD)
  with repls_words have "hd r = CHR ''_''" "r \<noteq> []" "tl r \<noteq> []" "list_all ident_char (tl r)"
    "CHR ''_'' \<notin> set (tl r)"
    unfolding list_all_iff by auto
  then show ?thesis by (intro exI [of _ "tl r"]) (cases r, auto)
qed

lemma ident_chars_plain: "list_all (\<lambda>c. \<not> special c) (letters @ digits)"
  by code_simp

lemma ident_not_special: "ident_char c \<Longrightarrow> \<not> special c"
  using ident_chars_plain by (auto simp: ident_char_def list_all_iff)

lemma ident_underscore [simp]: "ident_start CHR ''_''" "ident_char CHR ''_''"
  by (simp_all add: ident_start_def ident_char_def letters_def)

lemma underscore_plain [simp]: "map_of repls (CHR ''_'') = None"
  by (simp add: repls_def)

lemma enc_chars_no_special: "c \<in> set (enc_chars b s) \<Longrightarrow> \<not> special c"
proof (induction s arbitrary: b)
  case (Cons d ds)
  show ?case
  proof (cases "map_of repls d")
    case None
    with Cons show ?thesis
      by (cases b) (auto simp: special_def)
  next
    case (Some r)
    then obtain p where p: "r = CHR ''_'' # p" "list_all ident_char p"
      using repls_code by blast
    have "\<not> special c" if "c \<in> set r"
      using that p ident_not_special by (auto simp: list_all_iff special_def)
    with Some Cons show ?thesis by auto
  qed
qed simp

lemma enc_chars_plain: "\<forall>c \<in> set s. \<not> special c \<Longrightarrow> enc_chars False s = s"
  by (induction s) (auto simp: special_def)

lemma keyword_no_underscore: "iskeyword s \<Longrightarrow> CHR ''_'' \<notin> set s \<and> s \<noteq> []"
  by (auto simp: iskeyword_def kwlist_def)

lemma keyword_underscore: "\<not> iskeyword (s @ ''_'')"
  using keyword_no_underscore by fastforce

lemma asPythonId_not_keyword: "\<not> iskeyword (asPythonId_str s)"
  by (simp add: asPythonId_str_def Let_def keyword_underscore)

lemma asPythonId_no_special: "c \<in> set (asPythonId_str s) \<Longrightarrow> \<not> special c"
  by (auto simp: asPythonId_str_def Let_def special_def split: if_splits
      dest: enc_chars_no_special)

text \<open>Encoding a name that is already a Python identifier changes nothing, so encoding
  twice is encoding once.\<close>

lemma asPythonId_id: "\<forall>c \<in> set s. \<not> special c \<Longrightarrow> \<not> iskeyword s \<Longrightarrow> asPythonId_str s = s"
  by (simp add: asPythonId_str_def enc_chars_plain)

lemma asPythonId_twice: "asPythonId_str (asPythonId_str s) = asPythonId_str s"
  by (rule asPythonId_id) (auto simp: asPythonId_not_keyword dest: asPythonId_no_special)

lemma asPythonId_idem: "asPythonId (asPythonId s) = asPythonId s"
  by (cases s) (simp_all add: asPythonId_def asPythonId_twice)

lemma enc_chars_ident:
  "list_all (\<lambda>c. ident_char c \<or> special c) s \<Longrightarrow> list_all ident_char (enc_chars b s)"
proof (induction s arbitrary: b)
  case (Cons d ds)
  show ?case
  proof (cases "map_of repls d")
    case None
    with Cons show ?thesis by (auto simp: special_def)
  next
    case (Some r)
    with Cons repls_code [OF Some] show ?thesis by auto
  qed
qed simp

lemma enc_chars_start:
  assumes "s \<noteq> []" and "ident_start (hd s) \<or> special (hd s)"
  shows "enc_chars False s \<noteq> [] \<and> ident_start (hd (enc_chars False s))"
proof (cases s)
  case (Cons c cs)
  show ?thesis
  proof (cases "map_of repls c")
    case None
    with Cons assms show ?thesis by (simp add: special_def)
  next
    case (Some r)
    then obtain p where "r = CHR ''_'' # p" using repls_code by blast
    with Cons Some show ?thesis by simp
  qed
qed (use assms in simp)

section \<open>The encoding is lossless\<close>

text \<open>A name is a sequence of plain runs and replaced characters.\<close>

datatype piece = Plain string | Esc char

fun toks :: "string \<Rightarrow> piece list" where
  "toks [] = []"
| "toks (c # cs) =
     (if special c then Esc c # toks cs
      else (case toks cs of Plain p # ts \<Rightarrow> Plain (c # p) # ts | ts \<Rightarrow> Plain [c] # ts))"

fun piece_src :: "piece \<Rightarrow> string" where
  "piece_src (Plain p) = p"
| "piece_src (Esc c) = [c]"

fun piece_word :: "piece \<Rightarrow> string" where
  "piece_word (Plain p) = p"
| "piece_word (Esc c) = tl (the (map_of repls c))"

definition code_words :: "string list" where
  "code_words = map (tl \<circ> snd) repls"

text \<open>The names the encoding can be undone on: no underscore, and no plain run behind a
  replaced character that reads like one of the replacement words.\<close>

definition decodable :: "string \<Rightarrow> bool" where
  "decodable s = (CHR ''_'' \<notin> set s \<and>
     list_all (\<lambda>t. case t of Plain p \<Rightarrow> p \<notin> set code_words | Esc c \<Rightarrow> True) (tl (toks s)))"

fun split_us :: "string \<Rightarrow> string list" where
  "split_us [] = [[]]"
| "split_us (c # cs) =
     (if c = CHR ''_'' then [] # split_us cs
      else (case split_us cs of [] \<Rightarrow> [[c]] | q # qs \<Rightarrow> (c # q) # qs))"

definition decode_word :: "string \<Rightarrow> string" where
  "decode_word w = (case map_of (map (\<lambda>(c, r). (tl r, c)) repls) w of Some c \<Rightarrow> [c] | None \<Rightarrow> w)"

definition dec_id :: "string \<Rightarrow> string" where
  "dec_id s = hd (split_us s) @ concat (map decode_word (tl (split_us s)))"

lemma toks_src: "concat (map piece_src (toks s)) = s"
  by (induction s) (auto split: list.splits piece.splits)

lemma piece_src_nonempty: "Plain p \<in> set (toks s) \<Longrightarrow> p \<noteq> [] \<and> set p \<subseteq> set s"
  by (induction s arbitrary: p) (fastforce split: list.splits piece.splits if_splits)+

lemma toks_Esc: "Esc c \<in> set (toks s) \<Longrightarrow> special c"
  by (induction s) (auto split: list.splits piece.splits if_splits)

lemma special_code:
  assumes "special c"
  obtains p where "map_of repls c = Some (CHR ''_'' # p)" "p \<noteq> []" "CHR ''_'' \<notin> set p"
  using assms repls_code unfolding special_def by fastforce

definition us_pieces :: "piece list \<Rightarrow> string" where
  "us_pieces ts = concat (map (\<lambda>t. CHR ''_'' # piece_word t) ts)"

text \<open>The loop emits the first plain run as it is and every other piece behind an
  underscore.\<close>

lemma enc_chars_toks:
  "enc_chars True s = us_pieces (toks s) \<and>
   enc_chars False s = (case toks s of Plain p # ts \<Rightarrow> p @ us_pieces ts | ts \<Rightarrow> us_pieces ts)"
proof (induction s)
  case (Cons c cs)
  show ?case
  proof (cases "special c")
    case True
    then obtain p where "map_of repls c = Some (CHR ''_'' # p)" by (rule special_code)
    with True Cons show ?thesis by (simp add: us_pieces_def)
  next
    case False
    with Cons show ?thesis
      by (auto simp: us_pieces_def special_def split: list.splits piece.splits)
  qed
qed (simp add: us_pieces_def)

lemma split_us_append: "CHR ''_'' \<notin> set p \<Longrightarrow> split_us (p @ CHR ''_'' # q) = p # split_us q"
  by (induction p) auto

lemma split_us_plain: "CHR ''_'' \<notin> set p \<Longrightarrow> split_us p = [p]"
  by (induction p) auto

lemma split_us_pieces:
  "CHR ''_'' \<notin> set p \<Longrightarrow> list_all (\<lambda>t. CHR ''_'' \<notin> set (piece_word t)) ts \<Longrightarrow>
   split_us (p @ us_pieces ts) = p # map piece_word ts"
proof (induction ts arbitrary: p)
  case (Cons t ts)
  then show ?case
    using split_us_append [of p "piece_word t @ us_pieces ts"] by (simp add: us_pieces_def)
qed (simp add: us_pieces_def split_us_plain)

lemma decode_code: "map_of repls c = Some r \<Longrightarrow> decode_word (tl r) = [c]"
  by (auto simp: repls_def decode_word_def split: if_splits)

lemma decode_plain: "p \<notin> set code_words \<Longrightarrow> decode_word p = p"
proof -
  assume p: "p \<notin> set code_words"
  have "map_of (map (\<lambda>(c, r). (tl r, c)) repls) p = None"
    using p by (force simp: code_words_def map_of_eq_None_iff)
  then show ?thesis by (simp add: decode_word_def)
qed

lemma decode_piece:
  assumes "special c" shows "decode_word (piece_word (Esc c)) = [c]"
  using assms special_code [OF assms] decode_code by (metis option.sel piece_word.simps(2))

lemma decode_pieces:
  assumes "list_all (\<lambda>t. case t of Plain p \<Rightarrow> p \<notin> set code_words | Esc c \<Rightarrow> special c) ts"
  shows "concat (map (decode_word \<circ> piece_word) ts) = concat (map piece_src ts)"
  using assms
proof (induction ts)
  case (Cons t ts)
  then show ?case
    by (cases t) (auto simp: decode_plain decode_piece simp del: piece_word.simps(2))
qed simp


text \<open>The final underscore behind a keyword reads back as an empty piece.\<close>

lemma dec_id_enc:
  assumes "decodable s"
  shows "dec_id (enc_chars False s) = s" and "dec_id (enc_chars False s @ ''_'') = s"
proof -
  obtain p ts where pts: "enc_chars False s = p @ us_pieces ts" "s = p @ concat (map piece_src ts)"
    "CHR ''_'' \<notin> set p" "set ts \<subseteq> set (toks s)"
    "list_all (\<lambda>t. case t of Plain p \<Rightarrow> p \<notin> set code_words | Esc c \<Rightarrow> True) ts"
  proof (cases "\<exists>p ts. toks s = Plain p # ts")
    case True
    then obtain p ts where t: "toks s = Plain p # ts" by blast
    show thesis
    proof (rule that [of p ts])
      show "enc_chars False s = p @ us_pieces ts" using t by (simp add: enc_chars_toks)
      show "s = p @ concat (map piece_src ts)" using toks_src [of s] t by simp
      show "CHR ''_'' \<notin> set p" using piece_src_nonempty [of p s] t assms by (auto simp: decodable_def)
    qed (use t assms in \<open>auto simp: decodable_def\<close>)
  next
    case False
    have "list_all (\<lambda>t. case t of Plain p \<Rightarrow> p \<notin> set code_words | Esc c \<Rightarrow> True) (toks s)"
      using False assms by (cases "toks s") (auto simp: decodable_def split: piece.splits)
    moreover have "enc_chars False s = us_pieces (toks s)"
      using False by (simp add: enc_chars_toks split: list.splits piece.splits)
    ultimately show thesis
      using that [of "[]" "toks s"] toks_src [of s] by simp
  qed
  have us: "list_all (\<lambda>t. CHR ''_'' \<notin> set (piece_word t)) ts"
    unfolding list_all_iff
  proof
    fix t assume t: "t \<in> set ts"
    show "CHR ''_'' \<notin> set (piece_word t)"
    proof (cases t)
      case (Plain q)
      with t pts(4) piece_src_nonempty [of q s] assms show ?thesis by (auto simp: decodable_def)
    next
      case (Esc c)
      with t pts(4) have "special c" using toks_Esc by blast
      then obtain q where "map_of repls c = Some (CHR ''_'' # q)" "CHR ''_'' \<notin> set q"
        by (rule special_code)
      with Esc show ?thesis by simp
    qed
  qed
  have pieces: "concat (map (decode_word \<circ> piece_word) ts) = concat (map piece_src ts)"
    by (rule decode_pieces) (use pts(4,5) toks_Esc in \<open>auto simp: list_all_iff split: piece.splits\<close>)
  have "split_us (p @ us_pieces ts) = p # map piece_word ts"
    using pts(3) us by (rule split_us_pieces)
  then show "dec_id (enc_chars False s) = s"
    using pts(1,2) pieces by (simp add: dec_id_def)
  have "split_us (p @ us_pieces (ts @ [Plain []])) = p # map piece_word (ts @ [Plain []])"
    by (rule split_us_pieces) (use pts(3) us in auto)
  moreover have "us_pieces (ts @ [Plain []]) = us_pieces ts @ ''_''" by (simp add: us_pieces_def)
  moreover have "decode_word [] = []" by code_simp
  ultimately show "dec_id (enc_chars False s @ ''_'') = s"
    using pts(1,2) pieces by (simp add: dec_id_def)
qed

section \<open>Properties\<close>



text \<open>C13: no information is lost on names without underscores whose plain runs are not
  themselves replacement words: the decoder gives the name back, so two such names never get
  the same Python identifier.\<close>

theorem asPythonId_roundtrip:
  assumes "decodable s"
  shows "dec_id (asPythonId_str s) = s"
  using dec_id_enc [OF assms] by (simp add: asPythonId_str_def Let_def)

theorem asPythonId_roundtrip_witness:
  "decodable ''Outer::Inner<int>'' \<and>
   dec_id (asPythonId_str ''Outer::Inner<int>'') = ''Outer::Inner<int>''"
proof -
  have d: "decodable ''Outer::Inner<int>''" by code_simp
  show ?thesis using d asPythonId_roundtrip [OF d] by simp
qed

lemma asPythonId_inj_on: "inj_on asPythonId_str {s. decodable s}"
  by (rule inj_on_inverseI [of _ dec_id])
    (use dec_id_enc in \<open>simp add: asPythonId_str_def Let_def\<close>)

text \<open>Both restrictions are needed: with an underscore or a replacement word in the name, two
  names can meet.\<close>

lemma asPythonId_meet:
  "asPythonId_str ''A::B'' = asPythonId_str ''A_cn_cn_B''"
  "asPythonId_str ''A<cn'' = asPythonId_str ''A<:''"
  by code_simp+

end
