(* ===== verification/Dies.thy ===== *)
theory Dies
  imports PyIdent
begin

text \<open>
  The debug data as the Python code sees it.  A DIE (an entry of the DWARF tree,
  \<open>libCTypeGen.DwarfEntry\<close>) is a record of the attributes and methods the code reads; a
  DIE that refers to another (\<open>DW_AT_type\<close>, its children) holds its number, and \<open>dwarf\<close>
  maps numbers to DIEs, because the reference graph has cycles (a structure that points to
  itself).  The functions on DIEs alone are here: \<open>flatName\<close>, \<open>deref\<close>, \<open>isVoid\<close>,
  \<open>getArrayDimensions\<close>, \<open>die_size\<close> and \<open>die_bit_offset\<close> of \<open>CTypeGen/__init__.py\<close>.
  Following \<open>DW_AT_type\<close> may run in a circle: \<open>deref\<close> is a loop that may not end and
  \<open>die_size\<close> takes fuel; both are shown to return when the references are well founded.
\<close>

section \<open>Tags and entries\<close>

text \<open>The DWARF tag numbers (\<open>libCTypeGen.tags\<close>); their order is used for sorting.\<close>

type_synonym dwtag = nat

abbreviation (input) DW_TAG_array_type :: dwtag where "DW_TAG_array_type \<equiv> 0x01"
abbreviation (input) DW_TAG_class_type :: dwtag where "DW_TAG_class_type \<equiv> 0x02"
abbreviation (input) DW_TAG_enumeration_type :: dwtag where "DW_TAG_enumeration_type \<equiv> 0x04"
abbreviation (input) DW_TAG_formal_parameter :: dwtag where "DW_TAG_formal_parameter \<equiv> 0x05"
abbreviation (input) DW_TAG_imported_declaration :: dwtag where "DW_TAG_imported_declaration \<equiv> 0x08"
abbreviation (input) DW_TAG_member :: dwtag where "DW_TAG_member \<equiv> 0x0d"
abbreviation (input) DW_TAG_pointer_type :: dwtag where "DW_TAG_pointer_type \<equiv> 0x0f"
abbreviation (input) DW_TAG_reference_type :: dwtag where "DW_TAG_reference_type \<equiv> 0x10"
abbreviation (input) DW_TAG_compile_unit :: dwtag where "DW_TAG_compile_unit \<equiv> 0x11"
abbreviation (input) DW_TAG_structure_type :: dwtag where "DW_TAG_structure_type \<equiv> 0x13"
abbreviation (input) DW_TAG_subroutine_type :: dwtag where "DW_TAG_subroutine_type \<equiv> 0x15"
abbreviation (input) DW_TAG_typedef :: dwtag where "DW_TAG_typedef \<equiv> 0x16"
abbreviation (input) DW_TAG_union_type :: dwtag where "DW_TAG_union_type \<equiv> 0x17"
abbreviation (input) DW_TAG_inheritance :: dwtag where "DW_TAG_inheritance \<equiv> 0x1c"
abbreviation (input) DW_TAG_ptr_to_member_type :: dwtag where "DW_TAG_ptr_to_member_type \<equiv> 0x1f"
abbreviation (input) DW_TAG_subrange_type :: dwtag where "DW_TAG_subrange_type \<equiv> 0x21"
abbreviation (input) DW_TAG_base_type :: dwtag where "DW_TAG_base_type \<equiv> 0x24"
abbreviation (input) DW_TAG_const_type :: dwtag where "DW_TAG_const_type \<equiv> 0x26"
abbreviation (input) DW_TAG_enumerator :: dwtag where "DW_TAG_enumerator \<equiv> 0x28"
abbreviation (input) DW_TAG_subprogram :: dwtag where "DW_TAG_subprogram \<equiv> 0x2e"
abbreviation (input) DW_TAG_template_type_param :: dwtag where "DW_TAG_template_type_param \<equiv> 0x2f"
abbreviation (input) DW_TAG_template_value_param :: dwtag where "DW_TAG_template_value_param \<equiv> 0x30"
abbreviation (input) DW_TAG_variable :: dwtag where "DW_TAG_variable \<equiv> 0x34"
abbreviation (input) DW_TAG_volatile_type :: dwtag where "DW_TAG_volatile_type \<equiv> 0x35"
abbreviation (input) DW_TAG_restrict_type :: dwtag where "DW_TAG_restrict_type \<equiv> 0x37"
abbreviation (input) DW_TAG_namespace :: dwtag where "DW_TAG_namespace \<equiv> 0x39"
abbreviation (input) DW_TAG_unspecified_type :: dwtag where "DW_TAG_unspecified_type \<equiv> 0x3b"
abbreviation (input) DW_TAG_partial_unit :: dwtag where "DW_TAG_partial_unit \<equiv> 0x3c"
abbreviation (input) DW_TAG_rvalue_reference_type :: dwtag where "DW_TAG_rvalue_reference_type \<equiv> 0x42"
abbreviation (input) DW_TAG_GNU_template_parameter_pack :: dwtag
  where "DW_TAG_GNU_template_parameter_pack \<equiv> 0x4107"

text \<open>
  \<open>tag()\<close>, \<open>fullname()\<close>, \<open>name()\<close>, iteration over the children, then the attributes.
  The two flags are only ever tested for truth, so an absent flag is \<open>False\<close>.
\<close>

record die =
  dtag :: dwtag
  fullname :: "string list"
  dname :: string
  children :: "nat list"
  DW_AT_name :: "string option"
  DW_AT_linkage_name :: "string option"
  DW_AT_producer :: "string option"
  DW_AT_type :: "nat option"
  DW_AT_byte_size :: "int option"
  DW_AT_bit_size :: "int option"
  DW_AT_bit_offset :: "int option"
  DW_AT_data_bit_offset :: "int option"
  DW_AT_data_member_location :: "int option"
  DW_AT_count :: "int option"
  DW_AT_upper_bound :: "int option"
  DW_AT_const_value :: "int option"
  DW_AT_encoding :: "int option"
  DW_AT_low_pc :: "int option"
  DW_AT_declaration :: bool
  DW_AT_external :: bool

type_synonym dwarf = "nat \<Rightarrow> die"

text \<open>An entry with a tag and a name and nothing else, to build examples from.\<close>

definition mk_die :: "dwtag \<Rightarrow> string list \<Rightarrow> die" where
  "mk_die t nm = \<lparr>dtag = t, fullname = nm, dname = last ([] # nm), children = [],
     DW_AT_name = (if nm = [] then None else Some (last nm)), DW_AT_linkage_name = None,
     DW_AT_producer = None, DW_AT_type = None, DW_AT_byte_size = None, DW_AT_bit_size = None,
     DW_AT_bit_offset = None, DW_AT_data_bit_offset = None, DW_AT_data_member_location = None,
     DW_AT_count = None, DW_AT_upper_bound = None, DW_AT_const_value = None,
     DW_AT_encoding = None, DW_AT_low_pc = None, DW_AT_declaration = False,
     DW_AT_external = False\<rparr>"

section \<open>Names\<close>

definition tagPrefixes :: "dwtag \<Rightarrow> string option" where
  "tagPrefixes t =
     (if t = DW_TAG_structure_type then Some ''struct_''
      else if t = DW_TAG_union_type then Some ''union_''
      else if t = DW_TAG_enumeration_type then Some ''enum_''
      else None)"

definition flatName :: "die \<Rightarrow> bool \<Rightarrow> string" where
  "flatName d withTag =
     (let tagPrefix = (if withTag then (case tagPrefixes (dtag d) of Some p \<Rightarrow> p | None \<Rightarrow> [])
                       else [])
      in tagPrefix @ join ''::'' (fullname d))"

section \<open>Qualifiers and typedefs\<close>

definition qualifiers :: "dwtag list" where
  "qualifiers = [DW_TAG_const_type, DW_TAG_volatile_type, DW_TAG_typedef, DW_TAG_restrict_type]"

definition is_qualified :: "dwarf \<Rightarrow> nat option \<Rightarrow> bool" where
  "is_qualified dw d = (case d of None \<Rightarrow> False | Some i \<Rightarrow> List.member qualifiers (dtag (dw i)))"

definition next_type :: "dwarf \<Rightarrow> nat option \<Rightarrow> nat option" where
  "next_type dw d = (case d of None \<Rightarrow> None | Some i \<Rightarrow> DW_AT_type (dw i))"

definition deref :: "dwarf \<Rightarrow> nat option \<Rightarrow> nat option res" where
  "deref dw d = run_while (is_qualified dw) (next_type dw) d"

definition isVoid :: "dwarf \<Rightarrow> nat option \<Rightarrow> bool res" where
  "isVoid dw d = bnd (deref dw d) (\<lambda>r. Inr (r = None))"

section \<open>Sizes\<close>

text \<open>\<open>for child in reversed( list( die ) )\<close>\<close>

fun subrange_dims :: "dwarf \<Rightarrow> nat list \<Rightarrow> int list" where
  "subrange_dims dw [] = []"
| "subrange_dims dw (child # cs) =
     (if dtag (dw child) = DW_TAG_subrange_type then
        (case DW_AT_count (dw child) of
           Some n \<Rightarrow> n
         | None \<Rightarrow> (case DW_AT_upper_bound (dw child) of Some u \<Rightarrow> u + 1 | None \<Rightarrow> 0))
        # subrange_dims dw cs
      else subrange_dims dw cs)"

definition getArrayDimensions :: "dwarf \<Rightarrow> nat \<Rightarrow> int list" where
  "getArrayDimensions dw d = subrange_dims dw (rev (children (dw d)))"

text \<open>\<open>psz\<close> is \<open>ctypes.sizeof( ctypes.c_void_p )\<close>.\<close>

fun die_size :: "nat \<Rightarrow> int \<Rightarrow> dwarf \<Rightarrow> nat option \<Rightarrow> int res" where
  "die_size 0 psz dw d = Inl NonTermination"
| "die_size (Suc n) psz dw None = Inr 0"
| "die_size (Suc n) psz dw (Some d) =
     (case DW_AT_byte_size (dw d) of
        Some b \<Rightarrow> Inr b
      | None \<Rightarrow>
          if dtag (dw d) = DW_TAG_pointer_type then Inr psz
          else bnd (die_size n psz dw (DW_AT_type (dw d))) (\<lambda>baseSize.
            if dtag (dw d) = DW_TAG_array_type
            then Inr (foldl (*) baseSize (getArrayDimensions dw d))
            else Inr baseSize))"

definition die_bit_offset :: "nat \<Rightarrow> int \<Rightarrow> dwarf \<Rightarrow> nat \<Rightarrow> int option res" where
  "die_bit_offset n psz dw d =
     (case DW_AT_data_bit_offset (dw d) of
        Some b \<Rightarrow> Inr (Some b)
      | None \<Rightarrow>
          (case DW_AT_bit_offset (dw d) of
             None \<Rightarrow> Inr None
           | Some bo \<Rightarrow>
               bnd (die_size n psz dw (Some d)) (\<lambda>size.
               bnd (need TypeError (DW_AT_data_member_location (dw d))) (\<lambda>loc.
               bnd (need TypeError (DW_AT_bit_size (dw d))) (\<lambda>bits.
               Inr (Some (loc * 8 + size * 8 - bits - bo)))))))"

section \<open>Lemmas\<close>

lemma deref_Inr:
  "deref dw d = Inr r \<Longrightarrow> \<not> is_qualified dw r \<and> (\<exists>k. r = (next_type dw ^^ k) d)"
  unfolding deref_def run_while_Inr_iff by blast

lemma deref_plain: "\<not> is_qualified dw d \<Longrightarrow> deref dw d = Inr d"
  by (simp add: deref_def run_while_unfold)

lemma deref_step: "is_qualified dw d \<Longrightarrow> deref dw d = deref dw (next_type dw d)"
  by (simp add: deref_def run_while_unfold [of "is_qualified dw" "next_type dw" d])

lemma isVoid_step: "is_qualified dw d \<Longrightarrow> isVoid dw d = isVoid dw (next_type dw d)"
  by (simp add: isVoid_def deref_step)

text \<open>Well-founded references: a rank that drops along every \<open>DW_AT_type\<close> the two functions
  follow.\<close>

definition qual_rank :: "dwarf \<Rightarrow> (nat \<Rightarrow> nat) \<Rightarrow> bool" where
  "qual_rank dw rk = (\<forall>i t. is_qualified dw (Some i) \<longrightarrow> DW_AT_type (dw i) = Some t \<longrightarrow> rk t < rk i)"

definition size_rank :: "dwarf \<Rightarrow> (nat \<Rightarrow> nat) \<Rightarrow> bool" where
  "size_rank dw rk = (\<forall>i t. DW_AT_byte_size (dw i) = None \<longrightarrow> dtag (dw i) \<noteq> DW_TAG_pointer_type
     \<longrightarrow> DW_AT_type (dw i) = Some t \<longrightarrow> rk t < rk i)"

lemma deref_terminates:
  assumes "qual_rank dw rk"
  shows "\<exists>r. deref dw d = Inr r"
  unfolding deref_def
proof (rule run_while_measure [where P = "\<lambda>_. True" and f = "\<lambda>d. case d of None \<Rightarrow> 0 | Some i \<Rightarrow> Suc (rk i)"])
  fix s assume "is_qualified dw s"
  with assms show "True \<and> (case next_type dw s of None \<Rightarrow> 0 | Some i \<Rightarrow> Suc (rk i))
      < (case s of None \<Rightarrow> 0 | Some i \<Rightarrow> Suc (rk i))"
    by (cases s) (auto simp: is_qualified_def next_type_def qual_rank_def split: option.splits)
qed simp

lemma die_size_Suc:
  "die_size n psz dw d \<noteq> Inl NonTermination \<Longrightarrow> die_size (Suc n) psz dw d = die_size n psz dw d"
proof (induction n psz dw d rule: die_size.induct)
  case (3 n psz dw d)
  then show ?case
    by (subst die_size.simps) (auto split: option.splits if_splits sum.splits simp: bnd_def)
qed auto

interpretation size_fuel: fuelled "\<lambda>n d. die_size n psz dw d" for psz dw
  by unfold_locales (rule die_size_Suc)

lemma die_size_terminates:
  "size_rank dw rk \<Longrightarrow> rk d + 2 \<le> n \<Longrightarrow> \<exists>z. die_size n psz dw (Some d) = Inr z"
proof (induction n arbitrary: d)
  case (Suc n)
  then obtain m where n: "n = Suc m" by (cases n) auto
  show ?case
  proof (cases "DW_AT_type (dw d)")
    case None
    with n show ?thesis by (auto split: option.splits)
  next
    case (Some t)
    show ?thesis
    proof (cases "DW_AT_byte_size (dw d) = None \<and> dtag (dw d) \<noteq> DW_TAG_pointer_type")
      case True
      with Suc.prems(1) Some have "rk t < rk d" unfolding size_rank_def by blast
      with Suc.prems(2) have "rk t + 2 \<le> n" by simp
      with Suc obtain z where "die_size n psz dw (Some t) = Inr z" by blast
      with True Some show ?thesis by simp
    next
      case False
      then show ?thesis by (auto split: option.splits)
    qed
  qed
qed simp

lemma subrange_dims_append: "subrange_dims dw (xs @ ys) = subrange_dims dw xs @ subrange_dims dw ys"
  by (induction xs) auto

lemma subrange_dims_rev: "subrange_dims dw (rev xs) = rev (subrange_dims dw xs)"
  by (induction xs) (auto simp: subrange_dims_append)

section \<open>Properties\<close>


text \<open>On well-founded references the size of an array without an explicit size is the size
  of its element type times the product of all its dimensions, whatever their order.\<close>

lemma die_size_array:
  assumes "size_rank dw rk" and "rk d < n"
    and "dtag (dw d) = DW_TAG_array_type" and "DW_AT_byte_size (dw d) = None"
    and "DW_AT_type (dw d) = Some t"
  shows "\<exists>z. die_size n psz dw (Some t) = Inr z
    \<and> die_size (Suc n) psz dw (Some d) = Inr (z * prod_list (subrange_dims dw (children (dw d))))"
proof -
  have "rk t < rk d" using assms by (auto simp: size_rank_def)
  then have "rk t + 2 \<le> n" using assms(2) by simp
  then obtain z where "die_size n psz dw (Some t) = Inr z"
    using die_size_terminates [OF assms(1)] by blast
  with assms show ?thesis
    by (simp add: getArrayDimensions_def subrange_dims_rev foldl_times_prod_list)
qed

text \<open>\<open>int a[17][13]\<close> with its two subranges, the first given by a count, the second by an upper
  bound.\<close>

definition ex_array :: dwarf where
  "ex_array = (\<lambda>_. mk_die 0 [])
     (0 := (mk_die DW_TAG_base_type [''int''])\<lparr>DW_AT_byte_size := Some 4\<rparr>,
      1 := (mk_die DW_TAG_array_type [])\<lparr>DW_AT_type := Some 0, children := [2, 3]\<rparr>,
      2 := (mk_die DW_TAG_subrange_type [])\<lparr>DW_AT_count := Some 17\<rparr>,
      3 := (mk_die DW_TAG_subrange_type [])\<lparr>DW_AT_upper_bound := Some 12\<rparr>)"

lemma ex_array_rank: "size_rank ex_array id"
  by (simp add: size_rank_def ex_array_def mk_die_def)

theorem die_size_array_witness: "die_size 3 8 ex_array (Some 1) = Inr 884"
proof -
  have "\<exists>z. die_size 2 8 ex_array (Some 0) = Inr z \<and>
      die_size (Suc 2) 8 ex_array (Some 1)
        = Inr (z * prod_list (subrange_dims ex_array (children (ex_array 1))))"
    by (rule die_size_array [OF ex_array_rank]) (simp_all add: ex_array_def mk_die_def)
  moreover have "die_size 2 8 ex_array (Some 0) = Inr 4"
    by (simp add: ex_array_def mk_die_def numeral_2_eq_2)
  moreover have "subrange_dims ex_array (children (ex_array 1)) = [17, 13]"
    by (simp add: ex_array_def mk_die_def)
  ultimately show ?thesis by (simp add: numeral_3_eq_3 numeral_2_eq_2 del: die_size.simps)
qed

text \<open>A bit field described the DWARF 2 way (its distance from the most significant bit of
  its storage unit) lies inside that unit when the distance and the width fit, and its
  computed offset is the one counted from the least significant bit.\<close>

lemma die_bit_offset_in_unit:
  assumes "DW_AT_data_bit_offset (dw d) = None" and "DW_AT_bit_offset (dw d) = Some bo"
    and "DW_AT_bit_size (dw d) = Some bits" and "DW_AT_data_member_location (dw d) = Some loc"
    and "die_size n psz dw (Some d) = Inr z"
    and "0 \<le> bo" and "0 \<le> bits" and "bo + bits \<le> 8 * z"
  shows "\<exists>off. die_bit_offset n psz dw d = Inr (Some off) \<and> 8 * loc \<le> off
    \<and> off + bits + bo = 8 * (loc + z)"
  using assms by (simp add: die_bit_offset_def)

end
