(* ===== verification/BaseTypes.thy ===== *)
theory BaseTypes
  imports Dies
begin

text \<open>
  Primitive types (\<open>CTypeGen/__init__.py\<close>): the tables \<open>_baseTypes\<close> (by C name) and
  \<open>_baseTypeEncoding\<close> (by DWARF encoding and size), the alignment looked up in them and
  the \<open>ctypes\<close> expression of a primitive type.  \<open>psz\<close> is the size of a pointer on the
  machine that runs the generator, which decides between the 32 and the 64 bit column.
\<close>

section \<open>Tables\<close>

definition align3264 :: "int \<Rightarrow> int option \<Rightarrow> int option \<Rightarrow> int option" where
  "align3264 psz a32 a64 = (if psz = 4 then a32 else a64)"

abbreviation (input) DW_ATE_boolean :: int where "DW_ATE_boolean \<equiv> 0x02"
abbreviation (input) DW_ATE_complex_float :: int where "DW_ATE_complex_float \<equiv> 0x03"
abbreviation (input) DW_ATE_float :: int where "DW_ATE_float \<equiv> 0x04"
abbreviation (input) DW_ATE_signed :: int where "DW_ATE_signed \<equiv> 0x05"
abbreviation (input) DW_ATE_signed_char :: int where "DW_ATE_signed_char \<equiv> 0x06"
abbreviation (input) DW_ATE_unsigned :: int where "DW_ATE_unsigned \<equiv> 0x07"
abbreviation (input) DW_ATE_unsigned_char :: int where "DW_ATE_unsigned_char \<equiv> 0x08"
abbreviation (input) DW_ATE_decimal_float :: int where "DW_ATE_decimal_float \<equiv> 0x0f"

definition baseTypeEncoding :: "int \<Rightarrow> ((int \<times> int) \<times> (string \<times> int option)) list" where
  "baseTypeEncoding psz = [
     ((DW_ATE_boolean, 1), (''c_bool'', align3264 psz (Some 1) (Some 1))),
     ((DW_ATE_complex_float, 32), (''(c_longdouble * 2)'', align3264 psz (Some 16) (Some 16))),
     ((DW_ATE_complex_float, 24), (''(c_longdouble * 2)'', align3264 psz (Some 4) None)),
     ((DW_ATE_complex_float, 16), (''(c_longdouble)'', align3264 psz (Some 8) (Some 8))),
     ((DW_ATE_complex_float, 8), (''c_double'', align3264 psz (Some 4) (Some 4))),
     ((DW_ATE_float, 4), (''c_float'', align3264 psz (Some 4) (Some 4))),
     ((DW_ATE_float, 8), (''c_double'', align3264 psz (Some 8) (Some 8))),
     ((DW_ATE_float, 12), (''c_longdouble'', align3264 psz (Some 4) None)),
     ((DW_ATE_float, 16), (''c_longdouble'', align3264 psz (Some 16) (Some 16))),
     ((DW_ATE_signed, 1), (''c_char'', align3264 psz (Some 1) (Some 1))),
     ((DW_ATE_signed, 2), (''c_short'', align3264 psz (Some 2) (Some 2))),
     ((DW_ATE_signed, 4), (''c_int'', align3264 psz (Some 4) (Some 4))),
     ((DW_ATE_signed, 8), (''c_longlong'', align3264 psz (Some 8) (Some 8))),
     ((DW_ATE_signed, 16), (''(c_longlong * 2)'', align3264 psz None (Some 16))),
     ((DW_ATE_signed_char, 1), (''c_char'', align3264 psz (Some 1) (Some 1))),
     ((DW_ATE_unsigned, 1), (''c_uchar'', align3264 psz (Some 1) (Some 1))),
     ((DW_ATE_unsigned, 2), (''c_ushort'', align3264 psz (Some 2) (Some 2))),
     ((DW_ATE_unsigned, 4), (''c_uint'', align3264 psz (Some 4) (Some 4))),
     ((DW_ATE_unsigned, 8), (''c_ulonglong'', align3264 psz (Some 8) (Some 8))),
     ((DW_ATE_unsigned, 16), (''(c_ulonglong * 2)'', align3264 psz None (Some 16))),
     ((DW_ATE_unsigned_char, 1), (''c_uchar'', align3264 psz (Some 1) (Some 1))),
     ((DW_ATE_decimal_float, 4), (''c_int'', align3264 psz (Some 4) (Some 4))),
     ((DW_ATE_decimal_float, 8), (''c_longlong'', align3264 psz (Some 8) (Some 8))),
     ((DW_ATE_decimal_float, 16), (''(c_longlong * 2)'', align3264 psz (Some 16) (Some 16)))]"

definition baseTypes :: "int \<Rightarrow> (string \<times> (string \<times> int option)) list" where
  "baseTypes psz = [
     (''long long unsigned int'', (''c_ulonglong'', align3264 psz (Some 4) (Some 8))),
     (''unsigned long long'', (''c_ulonglong'', align3264 psz (Some 4) (Some 8))),
     (''long long int'', (''c_longlong'', align3264 psz (Some 4) (Some 8))),
     (''long long'', (''c_longlong'', align3264 psz (Some 4) (Some 8))),
     (''long unsigned int'', (''c_ulong'', align3264 psz (Some 4) (Some 8))),
     (''unsigned long'', (''c_ulong'', align3264 psz (Some 4) (Some 8))),
     (''sizetype'', (''c_ulong'', align3264 psz (Some 4) (Some 8))),
     (''short unsigned int'', (''c_ushort'', align3264 psz (Some 2) (Some 2))),
     (''unsigned short'', (''c_ushort'', align3264 psz (Some 2) (Some 2))),
     (''unsigned int'', (''c_uint'', align3264 psz (Some 4) (Some 4))),
     (''unsigned char'', (''c_ubyte'', align3264 psz (Some 1) (Some 1))),
     (''char16_t'', (''c_short'', align3264 psz (Some 2) (Some 2))),
     (''signed char'', (''c_byte'', align3264 psz (Some 1) (Some 1))),
     (''char'', (''c_char'', align3264 psz (Some 1) (Some 1))),
     (''long int'', (''c_long'', align3264 psz (Some 4) (Some 8))),
     (''long'', (''c_long'', align3264 psz (Some 4) (Some 8))),
     (''int'', (''c_int'', align3264 psz (Some 4) (Some 4))),
     (''short int'', (''c_short'', align3264 psz (Some 2) (Some 2))),
     (''short'', (''c_short'', align3264 psz (Some 2) (Some 2))),
     (''__ARRAY_SIZE_TYPE__'', (''c_ulong'', align3264 psz (Some 4) (Some 8))),
     (''float'', (''c_float'', align3264 psz (Some 4) (Some 4))),
     (''_Bool'', (''c_bool'', align3264 psz (Some 1) (Some 1))),
     (''bool'', (''c_bool'', align3264 psz (Some 1) (Some 1))),
     (''double'', (''c_double'', align3264 psz (Some 4) (Some 8))),
     (''long double'', (''c_longdouble'', align3264 psz (Some 4) (Some 16))),
     (''_Float128'', (''c_longdouble'', align3264 psz (Some 16) (Some 16))),
     (''__float128'', (''c_longdouble'', align3264 psz (Some 16) (Some 16))),
     (''__int128'', (''(c_longlong * 2)'', align3264 psz None (Some 16))),
     (''__int128 unsigned'', (''(c_ulonglong * 2)'', align3264 psz None (Some 16))),
     (''wchar_t'', (''c_wchar'', align3264 psz (Some 4) (Some 4))),
     (''char32_t'', (''c_int'', align3264 psz (Some 4) (Some 4)))]"

section \<open>Lookups\<close>

text \<open>\<open>{key}\<close> in the messages: a Python tuple of two integers or \<open>None\<close>.\<close>

definition show_key :: "int \<Rightarrow> int option \<Rightarrow> string" where
  "show_key e b = ''('' @ show_int e @ '', ''
     @ (case b of None \<Rightarrow> ''None'' | Some z \<Rightarrow> show_int z) @ '')''"

text \<open>The loop skips entries without an encoding; running into \<open>None\<close> raises.\<close>

definition no_encoding :: "dwarf \<Rightarrow> nat option \<Rightarrow> bool" where
  "no_encoding dw d = (case d of None \<Rightarrow> False | Some i \<Rightarrow> DW_AT_encoding (dw i) = None)"

definition alignmentFromEncoding :: "int \<Rightarrow> dwarf \<Rightarrow> nat \<Rightarrow> int res" where
  "alignmentFromEncoding psz dw d =
     bnd (run_while (no_encoding dw) (next_type dw) (Some d)) (\<lambda>die.
     bnd (need AttributeError die) (\<lambda>i.
     bnd (need AttributeError (DW_AT_encoding (dw i))) (\<lambda>encoding.
     let byteSize = DW_AT_byte_size (dw i);
         msg = ''no python ctype for primitive C type with (encoding, size): ''
               @ show_key encoding byteSize
     in case (case byteSize of None \<Rightarrow> None
              | Some b \<Rightarrow> map_of (baseTypeEncoding psz) (encoding, b)) of
          None \<Rightarrow> Inl (PyException msg)
        | Some (_, align) \<Rightarrow> need (PyException (msg @ '' on this architecture'')) align)))"

definition baseTypeAlignment :: "int \<Rightarrow> dwarf \<Rightarrow> nat \<Rightarrow> int res" where
  "baseTypeAlignment psz dw d =
     (case (case DW_AT_name (dw d) of None \<Rightarrow> None | Some nm \<Rightarrow> map_of (baseTypes psz) nm) of
        None \<Rightarrow> alignmentFromEncoding psz dw d
      | Some (_, align) \<Rightarrow>
          need (PyException (''no python ctype for primitive C type ''
            @ (case DW_AT_name (dw d) of None \<Rightarrow> [] | Some nm \<Rightarrow> nm)
            @ '' on this architecture'')) align)"

text \<open>\<open>PrimitiveType.ctype\<close>\<close>

definition prim_ctype :: "int \<Rightarrow> dwarf \<Rightarrow> nat \<Rightarrow> string" where
  "prim_ctype psz dw d =
     (case (case DW_AT_name (dw d) of None \<Rightarrow> None | Some nm \<Rightarrow> map_of (baseTypes psz) nm) of
        None \<Rightarrow> ''(c_byte * '' @ (case DW_AT_byte_size (dw d) of None \<Rightarrow> ''None''
                                   | Some b \<Rightarrow> show_int b) @ '')''
      | Some (ctype, _) \<Rightarrow> ctype)"

section \<open>Lemmas\<close>

definition alignments :: "int list" where
  "alignments = [1, 2, 4, 8, 16]"

lemma align_cases: "align3264 psz a b = a \<or> align3264 psz a b = b"
  by (simp add: align3264_def)

text \<open>Both tables hold alignments from \<open>alignments\<close> only, on either kind of machine.\<close>

definition row_ok :: "string \<times> int option \<Rightarrow> bool" where
  "row_ok r = (case snd r of None \<Rightarrow> True | Some a \<Rightarrow> List.member alignments a)"

lemma row_ok_align [simp]: "row_ok (c, align3264 psz a b) = (if psz = 4 then row_ok (c, a) else row_ok (c, b))"
  by (simp add: align3264_def)

lemma tables_ok:
  "list_all (row_ok \<circ> snd) (baseTypeEncoding psz)" "list_all (row_ok \<circ> snd) (baseTypes psz)"
  by (simp_all add: baseTypeEncoding_def baseTypes_def, simp_all add: row_ok_def alignments_def)

lemma row_align: "list_all (row_ok \<circ> snd) tab \<Longrightarrow> map_of tab k = Some (c, Some a) \<Longrightarrow> a \<in> set alignments"
  by (drule map_of_SomeD) (auto simp: list_all_iff row_ok_def)

lemma alignmentFromEncoding_ok: "alignmentFromEncoding psz dw d = Inr a \<Longrightarrow> a \<in> set alignments"
  unfolding alignmentFromEncoding_def
  by (clarsimp simp: bnd_eq_Inr need_eq_Inr Let_def split: option.splits)
    (auto simp: need_eq_Inr intro: row_align [OF tables_ok(1)])

lemma baseTypeAlignment_ok: "baseTypeAlignment psz dw d = Inr a \<Longrightarrow> a \<in> set alignments"
  unfolding baseTypeAlignment_def
  by (auto simp: need_eq_Inr split: option.splits
      intro: alignmentFromEncoding_ok row_align [OF tables_ok(2)])

lemma alignments_div: "a \<in> set alignments \<Longrightarrow> b \<in> set alignments \<Longrightarrow> b < a \<Longrightarrow> a mod b = 0"
  by (auto simp: alignments_def)

end
