(* ===== verification/Layout.thy ===== *)
theory Layout
  imports BaseTypes
begin

text \<open>
  The field table of a structure or union: the loop of \<open>MemberType.define\<close>
  (\<open>CTypeGen/__init__.py\<close>) that turns the members of a DWARF structure into the rows of
  \<open>_fields_\<close>, with padding for unnamed bit fields, the decision whether the type is packed
  and the trailing padding, and the offset table of \<open>StructType.define\<close>.  What one iteration
  asks of the type of its member (\<open>tyinfo\<close>) is an argument here; the theory \<open>Define\<close>
  computes it.
\<close>

section \<open>Members\<close>

text \<open>\<open>class Member\<close>; \<open>m_name\<close> is \<open>_name\<close>, and membership in \<open>anonMembers\<close> of the owning
  type is the flag \<open>m_anon\<close>.\<close>

record member =
  m_die :: nat
  m_name :: "string option"
  ctypeOverride :: "string option"
  allowUnalignedPtr :: bool
  pre_pads :: "int list"
  m_anon :: bool

definition mk_member :: "nat \<Rightarrow> member" where
  "mk_member d = \<lparr>m_die = d, m_name = None, ctypeOverride = None, allowUnalignedPtr = False,
     pre_pads = [], m_anon = False\<rparr>"

definition member_name :: "dwarf \<Rightarrow> member \<Rightarrow> string option" where
  "member_name dw m =
     (case m_name m of
        Some nm \<Rightarrow> if nm \<noteq> [] then Some nm else DW_AT_name (dw (m_die m))
      | None \<Rightarrow> DW_AT_name (dw (m_die m)))"

definition member_pyName :: "dwarf \<Rightarrow> member \<Rightarrow> string option" where
  "member_pyName dw m = asPythonId (member_name dw m)"

definition bit_size :: "dwarf \<Rightarrow> member \<Rightarrow> int option" where
  "bit_size dw m =
     (if ctypeOverride m \<noteq> None then None else DW_AT_bit_size (dw (m_die m)))"

definition setCType :: "string \<Rightarrow> member \<Rightarrow> member" where
  "setCType ct m = m\<lparr>ctypeOverride := Some ct, pre_pads := []\<rparr>"

text \<open>How an f-string or \<open>%s\<close> renders a name that may be \<open>None\<close>.\<close>

definition str_of :: "string option \<Rightarrow> string" where
  "str_of s = (case s of None \<Rightarrow> ''None'' | Some t \<Rightarrow> t)"

section \<open>Rows and loop state\<close>

text \<open>A row \<open>( "name", type )\<close> or \<open>( "name", type, bits )\<close> of \<open>_fields_pre\<close>.\<close>

datatype row = Row (row_name: string) (row_type: string) (row_bits: "int option")

record layout =
  expected_bit_offset :: int
  expected_end :: int
  salign :: int
  packed :: bool
  packComment :: string
  rows :: "row list"

record tyinfo =
  t_defined :: bool
  t_align :: int
  t_ctype :: string
  t_name :: string

text \<open>The facts about the structure the loop reads: its tag is a union's, the size in its
  definition and in its own entry (they differ if the entry is a declaration), its name.\<close>

record owner =
  o_union :: bool
  o_size :: "int option"
  o_die_size :: "int option"
  o_name :: string

section \<open>Bit fields\<close>

type_synonym bitstate = "int \<times> int \<times> int list \<times> row list"

text \<open>One turn of the \<open>while off >= expected_end\<close> loop.\<close>

fun bit_turn :: "string \<Rightarrow> string \<Rightarrow> int \<Rightarrow> int \<Rightarrow> bitstate \<Rightarrow> bitstate" where
  "bit_turn py typstr bits dsize (ebo, ee, pads, rs) =
     (let (pads, rs) =
        (if bits \<le> ee - ebo
         then (pads @ [ee - ebo],
               rs @ [Row (py @ ''_prepad_'' @ show_int ee) typstr (Some (ee - ebo))])
         else (pads, rs))
      in (ee, ee + dsize * 8, pads, rs))"

definition bit_loop :: "string \<Rightarrow> string \<Rightarrow> int \<Rightarrow> int \<Rightarrow> int \<Rightarrow> bitstate \<Rightarrow> bitstate res" where
  "bit_loop py typstr off bits dsize =
     run_while (\<lambda>(ebo, ee, pads, rs). ee \<le> off) (bit_turn py typstr bits dsize)"

text \<open>The whole branch for a bit field: move to the data object, fill the gap, emit.\<close>

definition bit_field :: "string \<Rightarrow> string \<Rightarrow> int \<Rightarrow> int \<Rightarrow> int \<Rightarrow> bitstate \<Rightarrow> bitstate res" where
  "bit_field py typstr off bits dsize s =
     bnd (bit_loop py typstr off bits dsize s) (\<lambda>(ebo, ee, pads, rs).
     let diff = off - ebo;
         (pads, rs) =
           (if diff \<noteq> 0
            then (pads @ [diff], rs @ [Row (py @ ''_prepad_'' @ show_int ee) typstr (Some diff)])
            else (pads, rs))
     in Inr (off + bits, ee, pads, rs @ [Row py typstr (Some bits)]))"

section \<open>One member\<close>

text \<open>The type expression and alignment of a member, with the stand-in for a type that has no
  definition; \<open>nextLoc\<close> is the location of the following member, if there is one.  The third
  component is the warning.\<close>

definition field_type ::
  "dwarf \<Rightarrow> owner \<Rightarrow> member \<Rightarrow> tyinfo \<Rightarrow> int option option \<Rightarrow> (int \<times> string \<times> string list) res"
where
  "field_type dw ow m ti nextLoc =
     (if \<not> t_defined ti then
        let fieldOffset = DW_AT_data_member_location (dw (m_die m));
            base = (case fieldOffset of None \<Rightarrow> 0 | Some z \<Rightarrow> z)
        in bnd (case nextLoc of
                  Some nextOffset \<Rightarrow> need TypeError nextOffset
                | None \<Rightarrow> need TypeError (o_die_size ow)) (\<lambda>upper.
           Inr (1, ''c_char * '' @ show_int (upper - base),
             [''padded '' @ o_name ow @ '':'' @ str_of (member_name dw m)
              @ '' (no definition for '' @ t_name ti @ '')'']))
      else Inr (t_align ti, (case ctypeOverride m of Some c \<Rightarrow> c | None \<Rightarrow> t_ctype ti), []))"

definition raise_alignment :: "int \<Rightarrow> layout \<Rightarrow> layout res" where
  "raise_alignment fieldAlignment st =
     (if salign st < fieldAlignment then
        if fieldAlignment mod salign st = 0
        then Inr (st\<lparr>salign := fieldAlignment\<rparr>) else Inl AssertionError
      else Inr st)"

definition place_field ::
  "nat \<Rightarrow> int \<Rightarrow> dwarf \<Rightarrow> owner \<Rightarrow> member \<Rightarrow> string \<Rightarrow> layout \<Rightarrow> (member \<times> layout) res"
where
  "place_field n psz dw ow m typstr st =
     (let d = m_die m; py = str_of (member_pyName dw m) in
      bnd (die_bit_offset n psz dw d) (\<lambda>off.
      case (off, ctypeOverride m) of
        (Some off, None) \<Rightarrow>
          bnd (need TypeError (DW_AT_bit_size (dw d))) (\<lambda>bits.
          bnd (if expected_end st \<le> off then die_size n psz dw (Some d) else Inr 0) (\<lambda>dsize.
          bnd (bit_field py typstr off bits dsize
                 (expected_bit_offset st, expected_end st, pre_pads m, rows st))
            (\<lambda>(ebo, ee, pads, rs).
          Inr (m\<lparr>pre_pads := pads\<rparr>,
               st\<lparr>expected_bit_offset := ebo, expected_end := ee, rows := rs\<rparr>))))
      | _ \<Rightarrow>
          let st = st\<lparr>rows := rows st @ [Row (str_of (member_name dw m)) typstr None]\<rparr>;
              byteoff = (case DW_AT_data_member_location (dw d) of None \<Rightarrow> 0 | Some z \<Rightarrow> z)
          in if o_union ow then Inr (m, st)
             else bnd (die_size n psz dw (Some d)) (\<lambda>dsize.
               Inr (m, st\<lparr>expected_bit_offset := (byteoff + dsize) * 8,
                          expected_end := (byteoff + dsize) * 8\<rparr>))))"

definition check_packed :: "dwarf \<Rightarrow> member \<Rightarrow> int \<Rightarrow> layout \<Rightarrow> layout" where
  "check_packed dw m fieldAlignment st =
     (case DW_AT_data_member_location (dw (m_die m)) of
        None \<Rightarrow> st
      | Some fieldOffset \<Rightarrow>
          if fieldAlignment \<noteq> 0 \<and> \<not> packed st \<and> fieldOffset mod fieldAlignment \<noteq> 0
          then st\<lparr>packed := True,
             packComment := ''field '' @ str_of (member_name dw m) @ '', required alignment ''
               @ show_int fieldAlignment @ '', offset '' @ show_int fieldOffset\<rparr>
          else st)"

text \<open>One iteration of the loop over the members, for a member that is not an empty base.\<close>

definition field_step ::
  "nat \<Rightarrow> int \<Rightarrow> dwarf \<Rightarrow> owner \<Rightarrow> member \<Rightarrow> tyinfo \<Rightarrow> int option option \<Rightarrow> layout
   \<Rightarrow> (member \<times> layout \<times> string list) res"
where
  "field_step n psz dw ow m ti nextLoc st =
     bnd (field_type dw ow m ti nextLoc) (\<lambda>(fieldAlignment, typstr, warns).
     bnd (raise_alignment fieldAlignment st) (\<lambda>st.
     bnd (place_field n psz dw ow m typstr st) (\<lambda>(m, st).
     Inr (m, check_packed dw m fieldAlignment st, warns))))"

section \<open>After the loop\<close>

definition round_up :: "int \<Rightarrow> int \<Rightarrow> int" where
  "round_up a x = (let residue = x mod a in if residue \<noteq> 0 then x + (a - residue) else x)"

definition trailing_pad :: "owner \<Rightarrow> nat \<Rightarrow> nat \<Rightarrow> layout \<Rightarrow> layout res" where
  "trailing_pad ow nmembers superCount st =
     (let e = round_up (salign st) (expected_end st div 8) in
      if o_union ow then Inr (st\<lparr>expected_end := e\<rparr>)
      else bnd (need TypeError (o_size ow)) (\<lambda>actual_size.
        if e < actual_size \<and> nmembers \<noteq> superCount
        then Inr (st\<lparr>expected_end := e, rows := rows st
               @ [Row ''__trailing_pad'' (''(c_char * '' @ show_int (actual_size - e) @ '')'') None]\<rparr>)
        else Inr (st\<lparr>expected_end := e\<rparr>)))"

definition finish_packed :: "owner \<Rightarrow> layout \<Rightarrow> layout" where
  "finish_packed ow st =
     (let st = (case o_size ow of
          None \<Rightarrow> st
        | Some sz \<Rightarrow>
            if \<not> packed st \<and> sz mod salign st \<noteq> 0
            then st\<lparr>packed := True, packComment := ''total size '' @ show_int sz
                   @ '', field alignment requirement '' @ show_int (salign st)\<rparr>
            else st)
      in if packed st then st\<lparr>salign := 1\<rparr> else st)"

text \<open>The offset table of a structure: \<open>None\<close> for a member that shares its location with its
  predecessor or whose type was overridden, -1 for every padding row.\<close>

fun offset_table :: "dwarf \<Rightarrow> int option \<Rightarrow> member list \<Rightarrow> int option list" where
  "offset_table dw lastOffset [] = []"
| "offset_table dw lastOffset (m # ms) =
     (let memberOffset = DW_AT_data_member_location (dw (m_die m));
          fresh = (memberOffset \<noteq> lastOffset \<and> ctypeOverride m = None)
      in map (\<lambda>_. Some (- 1)) (pre_pads m)
         @ [if fresh then memberOffset else None]
         @ offset_table dw (if fresh then memberOffset else lastOffset) ms)"

definition ctypegen_offsets :: "dwarf \<Rightarrow> member list \<Rightarrow> int option list" where
  "ctypegen_offsets dw ms = offset_table dw (Some (- 1)) ms"

section \<open>The whole table\<close>

text \<open>The loop over the members, each with what is known of its type and whether it is an empty
  base (which is skipped).\<close>

definition next_loc :: "dwarf \<Rightarrow> (member \<times> 'a) list \<Rightarrow> int option option" where
  "next_loc dw rest = (case rest of [] \<Rightarrow> None
     | (m, _) # _ \<Rightarrow> Some (DW_AT_data_member_location (dw (m_die m))))"

fun run_fields ::
  "nat \<Rightarrow> int \<Rightarrow> dwarf \<Rightarrow> owner \<Rightarrow> (member \<times> tyinfo \<times> bool) list \<Rightarrow> layout
   \<Rightarrow> (member list \<times> layout \<times> string list) res"
where
  "run_fields n psz dw ow [] st = Inr ([], st, [])"
| "run_fields n psz dw ow ((m, ti, eb) # rest) st =
     (if eb then
        bnd (run_fields n psz dw ow rest st) (\<lambda>(ms, st, ws). Inr (m # ms, st, ws))
      else
        bnd (field_step n psz dw ow m ti (next_loc dw rest) st) (\<lambda>(m, st, w).
        bnd (run_fields n psz dw ow rest st) (\<lambda>(ms, st, ws). Inr (m # ms, st, w @ ws))))"

definition layout0 :: "bool \<Rightarrow> layout" where
  "layout0 pack = \<lparr>expected_bit_offset = 0, expected_end = 0, salign = 1, packed = pack,
     packComment = ''explicitly requested by type hint'', rows = []\<rparr>"

definition layout_table ::
  "nat \<Rightarrow> int \<Rightarrow> dwarf \<Rightarrow> owner \<Rightarrow> nat \<Rightarrow> (member \<times> tyinfo \<times> bool) list \<Rightarrow> bool
   \<Rightarrow> (member list \<times> layout \<times> string list) res"
where
  "layout_table n psz dw ow superCount fs pack =
     bnd (run_fields n psz dw ow fs (layout0 pack)) (\<lambda>(ms, st, ws).
     bnd (trailing_pad ow (length fs) superCount st) (\<lambda>st.
     Inr (ms, finish_packed ow st, ws)))"

section \<open>Lemmas\<close>

lemma round_up_ge: "0 < a \<Longrightarrow> x \<le> round_up a x"
  by (simp add: round_up_def Let_def) (simp add: add_increasing2 order_less_imp_le)

lemma round_up_dvd: "0 < a \<Longrightarrow> a dvd round_up a x"
  by (auto simp: round_up_def Let_def mod_0_imp_dvd)
    (metis dvd_refl minus_mod_eq_mult_div dvd_triv_left add.commute add_diff_eq dvd_add)

lemma round_up_less: "0 < a \<Longrightarrow> round_up a x < x + a"
  by (auto simp: round_up_def Let_def intro: order_neq_le_trans)

lemma round_up_fix: "a dvd x \<Longrightarrow> round_up a x = x"
  by (simp add: round_up_def)

text \<open>Every alignment a structure can reach is in \<open>alignments\<close>, so the assertion of the loop
  never fails.\<close>

lemma raise_alignment_ok:
  assumes "a \<in> set alignments" and "salign st \<in> set alignments"
  shows "\<exists>st'. raise_alignment a st = Inr st' \<and> salign st' = max (salign st) a
    \<and> st' = st\<lparr>salign := max (salign st) a\<rparr>"
  using assms alignments_div [OF assms] by (auto simp: raise_alignment_def max_def)

end
