(* ===== verification/CtypesModel.thy ===== *)
theory CtypesModel
  imports Layout
begin

text \<open>
  How \<open>ctypes\<close> (the Python standard library, on a little-endian machine with the GCC bit
  field rules) lays out the \<open>_fields_\<close> of a \<open>Structure\<close>: the consumer of the generated
  rows.  It is not code of the repository; it is here because \<open>CTypeGenRun\<close> compares its
  answers with the DWARF data, and because the rows are right exactly when this layout
  agrees with the debug data.  \<open>tsize\<close> and \<open>talign\<close> (\<open>ctypes.sizeof\<close> and
  \<open>ctypes.alignment\<close> of an evaluated type expression) are parameters.
\<close>

section \<open>The layout algorithm\<close>

text \<open>A placed field: its byte offset, and for a bit field the position of its first bit in the
  storage unit at that offset.\<close>

record cfield =
  cf_name :: string
  cf_offset :: int
  cf_bitpos :: int

text \<open>Bytes used so far, position in and width of the open bit field unit (0 if none is open),
  and the largest alignment.\<close>

record cstate =
  c_end :: int
  c_bitofs :: int
  c_unit :: int
  c_align :: int

definition cstate0 :: cstate where
  "cstate0 = \<lparr>c_end = 0, c_bitofs = 0, c_unit = 0, c_align = 1\<rparr>"

definition eff_align :: "int option \<Rightarrow> int \<Rightarrow> int" where
  "eff_align pack a = (case pack of None \<Rightarrow> a | Some p \<Rightarrow> min p a)"

definition c_place :: "(string \<Rightarrow> int) \<Rightarrow> (string \<Rightarrow> int) \<Rightarrow> int option \<Rightarrow> row \<Rightarrow> cstate \<Rightarrow> (cfield \<times> cstate) res"
where
  "c_place tsize talign pack r s =
     (let z = tsize (row_type r);
          a = eff_align pack (talign (row_type r));
          start = (if a \<noteq> 0 then round_up a (c_end s) else c_end s)
      in case row_bits r of
        None \<Rightarrow>
          Inr (\<lparr>cf_name = row_name r, cf_offset = start, cf_bitpos = 0\<rparr>,
               \<lparr>c_end = start + z, c_bitofs = 0, c_unit = 0, c_align = max (c_align s) a\<rparr>)
      | Some bits \<Rightarrow>
          if bits \<le> 0 \<or> z * 8 < bits
          then Inl (PyException ''number of bits invalid for bit field'')
          else if c_unit s \<noteq> 0 \<and> z * 8 \<le> c_unit s \<and> c_bitofs s + bits \<le> c_unit s then
            Inr (\<lparr>cf_name = row_name r, cf_offset = c_end s - z, cf_bitpos = c_bitofs s\<rparr>,
                 s\<lparr>c_bitofs := c_bitofs s + bits\<rparr>)
          else if c_unit s \<noteq> 0 \<and> c_unit s \<le> z * 8 \<and> c_bitofs s + bits \<le> z * 8 then
            Inr (\<lparr>cf_name = row_name r, cf_offset = c_end s - c_unit s div 8, cf_bitpos = c_bitofs s\<rparr>,
                 s\<lparr>c_end := c_end s + (z - c_unit s div 8), c_unit := z * 8,
                   c_bitofs := c_bitofs s + bits\<rparr>)
          else
            Inr (\<lparr>cf_name = row_name r, cf_offset = start, cf_bitpos = 0\<rparr>,
                 \<lparr>c_end = start + z, c_bitofs = bits, c_unit = z * 8, c_align = max (c_align s) a\<rparr>))"

fun c_place_all :: "(string \<Rightarrow> int) \<Rightarrow> (string \<Rightarrow> int) \<Rightarrow> int option \<Rightarrow> row list \<Rightarrow> cstate \<Rightarrow> (cfield list \<times> cstate) res"
where
  "c_place_all tsize talign pack [] s = Inr ([], s)"
| "c_place_all tsize talign pack (r # rs) s =
     bnd (c_place tsize talign pack r s) (\<lambda>(f, s).
     bnd (c_place_all tsize talign pack rs s) (\<lambda>(fs, s). Inr (f # fs, s)))"

definition struct_sizeof :: "cstate \<Rightarrow> int" where
  "struct_sizeof s = round_up (c_align s) (c_end s)"

definition c_struct :: "(string \<Rightarrow> int) \<Rightarrow> (string \<Rightarrow> int) \<Rightarrow> int option \<Rightarrow> row list \<Rightarrow> (cfield list \<times> int \<times> int) res"
where
  "c_struct tsize talign pack rs =
     bnd (c_place_all tsize talign pack rs cstate0) (\<lambda>(fs, s). Inr (fs, struct_sizeof s, c_align s))"

lemma c_place_all_append:
  "c_place_all ts ta p (xs @ ys) s =
     bnd (c_place_all ts ta p xs s) (\<lambda>(fs, s).
     bnd (c_place_all ts ta p ys s) (\<lambda>(gs, s). Inr (fs @ gs, s)))"
proof (induction xs arbitrary: s)
  case Nil
  then show ?case by (cases "c_place_all ts ta p ys s") auto
next
  case (Cons r rs)
  then show ?case
    by (cases "c_place ts ta p r s")
      (auto simp: bnd_assoc bnd_def split: sum.splits)
qed

end
