(* ===== verification/BitFields.thy ===== *)
theory BitFields
  imports CtypesModel
begin

text \<open>
  Bit fields.  \<open>bit_field\<close> (the bit field branch of \<open>MemberType.define\<close>) emits padding rows
  so that \<open>ctypes\<close> puts the named row at the bit offset in the debug data.  Shown here: the
  loop ends; the rows do land at that offset whenever no unnamed field is hidden behind a
  unit the named field would not have fitted in; and a structure where they do not.
\<close>

section \<open>The cursor\<close>

text \<open>The state of \<open>ctypes\<close> after rows of one type of \<open>z\<close> bytes (alignment \<open>a\<close>), seen as the
  next free bit and the end of the open unit.\<close>

definition cursor :: "int \<Rightarrow> int \<Rightarrow> cstate \<Rightarrow> int \<Rightarrow> int \<Rightarrow> bool" where
  "cursor z a s c e = (0 < z \<and> 0 < a \<and> a dvd z \<and> a dvd c_end s \<and> e = 8 * c_end s \<and>
     (c_unit s = 0 \<and> c = e \<or>
      c_unit s = 8 * z \<and> 0 \<le> c_bitofs s \<and> c_bitofs s \<le> 8 * z \<and> c = 8 * (c_end s - z) + c_bitofs s))"

text \<open>The generator may already look at the next unit where \<open>ctypes\<close> has just filled one.\<close>

definition at_cursor :: "int \<Rightarrow> int \<Rightarrow> cstate \<Rightarrow> int \<Rightarrow> int \<Rightarrow> bool" where
  "at_cursor z a s c e = (cursor z a s c e \<or> cursor z a s c c \<and> e = c + 8 * z)"

definition cf_bit :: "cfield \<Rightarrow> int" where
  "cf_bit f = 8 * cf_offset f + cf_bitpos f"

lemma place_in_unit:
  assumes "cursor z a s c e" and "0 < d" and "c + d \<le> e" and "ts t = z"
  shows "\<exists>f s'. c_place ts ta p (Row nm t (Some d)) s = Inr (f, s') \<and> cf_bit f = c
    \<and> cf_name f = nm \<and> cursor z a s' (c + d) e"
  using assms by (auto simp: cursor_def c_place_def Let_def cf_bit_def algebra_simps)

lemma place_new_unit:
  assumes "cursor z a s c e" and "0 < d" and "d \<le> 8 * z" and "e < c + d" and "ts t = z"
    and "eff_align p (ta t) = a"
  shows "\<exists>f s'. c_place ts ta p (Row nm t (Some d)) s = Inr (f, s') \<and> cf_bit f = e
    \<and> cf_name f = nm \<and> cursor z a s' (e + d) (e + 8 * z)"
  using assms by (auto simp: cursor_def c_place_def Let_def cf_bit_def algebra_simps round_up_fix)

lemma place_at_cursor:
  assumes "at_cursor z a s c e" and "0 < d" and "c + d \<le> e" and "ts t = z" and "eff_align p (ta t) = a"
  shows "\<exists>f s'. c_place ts ta p (Row nm t (Some d)) s = Inr (f, s') \<and> cf_bit f = c
    \<and> cf_name f = nm \<and> cursor z a s' (c + d) e"
  using assms place_in_unit [of z a s c e d ts t ta p nm] place_new_unit [of z a s c c d ts t p ta nm]
  by (auto simp: at_cursor_def)

section \<open>The loop\<close>

lemma bit_loop_returns:
  assumes "0 < dsize"
  shows "\<exists>r. bit_loop py t off bits dsize s = Inr r"
  unfolding bit_loop_def
  by (rule run_while_measure [where P = "\<lambda>_. True" and f = "\<lambda>(ebo, ee, pads, rs). nat (off + 1 - ee)"])
    (use assms in \<open>auto simp: Let_def\<close>)

text \<open>What the turns keep: nothing happened yet, or the emitted rows bring \<open>ctypes\<close> to the
  generator's position, or nothing was emitted because the field did not fit in what was left
  of the first unit.\<close>

definition synced ::
  "(string \<Rightarrow> int) \<Rightarrow> (string \<Rightarrow> int) \<Rightarrow> int option \<Rightarrow> int \<Rightarrow> int \<Rightarrow> cstate \<Rightarrow> row list \<Rightarrow> bitstate \<Rightarrow> bool"
where
  "synced ts ta p z a s rs0 st = (case st of (ebo, ee, pads, rs) \<Rightarrow>
     \<exists>new fs s'. rs = rs0 @ new \<and> c_place_all ts ta p new s = Inr (fs, s') \<and> at_cursor z a s' ebo ee)"

definition loop_inv ::
  "(string \<Rightarrow> int) \<Rightarrow> (string \<Rightarrow> int) \<Rightarrow> int option \<Rightarrow> int \<Rightarrow> int \<Rightarrow> cstate \<Rightarrow> row list \<Rightarrow> int \<Rightarrow> int
   \<Rightarrow> int \<Rightarrow> int \<Rightarrow> bitstate \<Rightarrow> bool"
where
  "loop_inv ts ta p z a s rs0 ebo0 ee0 off bits st = (case st of (ebo, ee, pads, rs) \<Rightarrow>
     ebo \<le> off \<and> 8 * z dvd ee - ee0 \<and> ee0 \<le> ee \<and>
     (ebo = ebo0 \<and> ee = ee0 \<and> rs = rs0
      \<or> synced ts ta p z a s rs0 st \<and> ee = ebo + 8 * z \<and> ee0 < ee
      \<or> rs = rs0 \<and> ebo = ee0 \<and> ee = ee0 + 8 * z \<and> ee0 - ebo0 < bits))"

lemma synced_start: "cursor z a s c e \<Longrightarrow> synced ts ta p z a s rs0 (c, e, pads, rs0)"
  by (force simp: synced_def at_cursor_def)

text \<open>Emitting one more row of \<open>d\<close> bits from a synchronised state.\<close>

lemma synced_emit:
  assumes "synced ts ta p z a s rs0 (c, e, pads, rs)" and "0 < d" and "c + d \<le> e"
    and "ts t = z" and "eff_align p (ta t) = a"
  shows "\<exists>new fs f s'. rs @ [Row nm t (Some d)] = rs0 @ new
    \<and> c_place_all ts ta p new s = Inr (fs @ [f], s') \<and> cf_bit f = c \<and> cf_name f = nm
    \<and> cursor z a s' (c + d) e"
proof -
  from assms(1) obtain new fs s1 where 1: "rs = rs0 @ new" "c_place_all ts ta p new s = Inr (fs, s1)"
    "at_cursor z a s1 c e" by (auto simp: synced_def)
  obtain f s2 where 2: "c_place ts ta p (Row nm t (Some d)) s1 = Inr (f, s2)" "cf_bit f = c"
    "cf_name f = nm" "cursor z a s2 (c + d) e"
    using place_at_cursor [OF 1(3) assms(2,3), of ts t p ta nm] assms(4,5) by blast
  have "c_place_all ts ta p (new @ [Row nm t (Some d)]) s = Inr (fs @ [f], s2)"
    using 1 2 by (simp add: c_place_all_append)
  with 1 2 show ?thesis by (intro exI [of _ "new @ [Row nm t (Some d)]"]) auto
qed

lemma cursor_end: "cursor z a s e e \<Longrightarrow> at_cursor z a s e (e + 8 * z)"
  by (simp add: at_cursor_def)

lemma loop_inv_turn:
  assumes inv: "loop_inv ts ta p z a s rs0 ebo0 ee0 off bits (ebo, ee, pads, rs)"
    and c0: "cursor z a s ebo0 ee0" and bits: "0 < bits" "bits \<le> 8 * z" and off: "ee \<le> off"
    and ty: "ts t = z" "eff_align p (ta t) = a"
  shows "loop_inv ts ta p z a s rs0 ebo0 ee0 off bits (bit_turn py t bits z (ebo, ee, pads, rs))"
proof -
  have z: "0 < z" using c0 by (simp add: cursor_def)
  let ?nm = "py @ ''_prepad_'' @ show_int ee"
  have dvd: "8 * z dvd ee + z * 8 - ee0" "ee0 \<le> ee"
  proof -
    have "8 * z dvd ee - ee0 + 8 * z" using inv by (simp add: loop_inv_def)
    then show "8 * z dvd ee + z * 8 - ee0" by (simp add: algebra_simps)
    show "ee0 \<le> ee" using inv by (simp add: loop_inv_def)
  qed
  have emit: ?thesis if sy: "synced ts ta p z a s rs0 (ebo, ee, pads, rs)" and fit: "bits \<le> ee - ebo"
  proof -
    obtain new fs f s' where "rs @ [Row ?nm t (Some (ee - ebo))] = rs0 @ new"
      "c_place_all ts ta p new s = Inr (fs @ [f], s')" "cursor z a s' ee ee"
      using synced_emit [OF sy, of "ee - ebo" t ?nm] fit bits ty by auto
    then have "synced ts ta p z a s rs0
        (ee, ee + 8 * z, pads @ [ee - ebo], rs @ [Row ?nm t (Some (ee - ebo))])"
      unfolding synced_def by (auto dest: cursor_end)
    with fit dvd off z show ?thesis by (auto simp: loop_inv_def Let_def algebra_simps)
  qed
  consider (start) "ebo = ebo0" "ee = ee0" "rs = rs0"
    | (sync) "synced ts ta p z a s rs0 (ebo, ee, pads, rs)" "ee = ebo + 8 * z"
    | (lag) "rs = rs0" "ebo = ee0" "ee = ee0 + 8 * z" "ee0 - ebo0 < bits"
    using inv by (auto simp: loop_inv_def)
  then show ?thesis
  proof cases
    case start
    show ?thesis
    proof (cases "bits \<le> ee - ebo")
      case True
      with start synced_start [OF c0] show ?thesis by (intro emit) auto
    next
      case False
      with start off z show ?thesis by (simp add: loop_inv_def Let_def)
    qed
  next
    case sync
    with bits show ?thesis by (intro emit) auto
  next
    case lag
    obtain f s' where "c_place ts ta p (Row ?nm t (Some (8 * z))) s = Inr (f, s')"
      "cursor z a s' ee ee"
      using place_new_unit [OF c0, of "8 * z" ts t p ta ?nm] lag(3,4) bits ty z by auto
    then have "c_place_all ts ta p [Row ?nm t (Some (8 * z))] s = Inr ([f], s')"
      "at_cursor z a s' ee (ee + 8 * z)"
      using cursor_end by simp_all
    then have "synced ts ta p z a s rs0 (ee, ee + 8 * z, pads @ [8 * z], rs0 @ [Row ?nm t (Some (8 * z))])"
      unfolding synced_def by blast
    with lag bits dvd off z show ?thesis by (auto simp: loop_inv_def Let_def algebra_simps)
  qed
qed

section \<open>The whole branch\<close>

text \<open>The unit the field ends up in holds it entirely.\<close>

definition fits :: "int \<Rightarrow> int \<Rightarrow> int \<Rightarrow> int \<Rightarrow> bool" where
  "fits z ee off bits =
     (if off < ee then off + bits \<le> ee else (off - ee) mod (8 * z) + bits \<le> 8 * z)"

text \<open>The case the generator gets wrong: the field opens the next unit behind an unnamed field
  that would still fit in the current one, while the field itself would not.\<close>

definition hidden_gap :: "int \<Rightarrow> int \<Rightarrow> int \<Rightarrow> int \<Rightarrow> bool" where
  "hidden_gap ebo ee off bits = (ee < off \<and> off - ee \<le> ee - ebo \<and> ee - ebo < bits)"

lemma fits_end:
  assumes "fits z ee0 off bits" and "0 < z" and "8 * z dvd ee - ee0" and "ee0 \<le> ee"
    and "off < ee" and "ee - 8 * z \<le> off \<or> ee = ee0"
  shows "off + bits \<le> ee"
proof (cases "ee = ee0")
  case True
  with assms show ?thesis by (simp add: fits_def)
next
  case False
  with assms obtain k where k: "ee = ee0 + 8 * z * k" by (metis dvdE add.commute diff_add_cancel)
  with False assms(2,4) have "1 \<le> k"
    by (smt (verit, ccfv_SIG) mult_nonneg_nonpos mult_eq_0_iff)
  then have "ee0 + 8 * z \<le> ee" using k assms(2) by (simp add: mult.commute)
  then have ge: "ee0 \<le> off" using assms(6) False by linarith
  have "off - ee0 = (off - (ee - 8 * z)) + 8 * z * (k - 1)" using k by (simp add: algebra_simps)
  then have "(off - ee0) mod (8 * z) = (off - (ee - 8 * z)) mod (8 * z)" by (metis mod_mult_self2)
  also have "\<dots> = off - (ee - 8 * z)"
    using assms(2,5,6) False by (intro mod_pos_pos_trivial) auto
  finally have "(off - ee0) mod (8 * z) = off - (ee - 8 * z)" .
  with ge assms(1) show ?thesis by (simp add: fits_def)
qed

lemma bit_loop_inv:
  assumes c0: "cursor z a s ebo ee" and bits: "0 < bits" "bits \<le> 8 * z" and off: "ebo \<le> off"
    and ty: "ts t = z" "eff_align p (ta t) = a"
  shows "\<exists>ebo' ee' pads' rs'. bit_loop py t off bits z (ebo, ee, pads, rs) = Inr (ebo', ee', pads', rs')
    \<and> off < ee' \<and> loop_inv ts ta p z a s rs ebo ee off bits (ebo', ee', pads', rs')"
proof -
  have "0 < z" using c0 by (simp add: cursor_def)
  then obtain r where r: "bit_loop py t off bits z (ebo, ee, pads, rs) = Inr r"
    using bit_loop_returns by blast
  have "loop_inv ts ta p z a s rs ebo ee off bits r"
  proof (rule run_while_inv [OF r [unfolded bit_loop_def]])
    show "loop_inv ts ta p z a s rs ebo ee off bits (ebo, ee, pads, rs)"
      using off by (simp add: loop_inv_def)
  next
    fix st :: bitstate
    assume "loop_inv ts ta p z a s rs ebo ee off bits st" and "(\<lambda>(ebo, ee, pads, rs). ee \<le> off) st"
    then show "loop_inv ts ta p z a s rs ebo ee off bits (bit_turn py t bits z st)"
      using loop_inv_turn [of ts ta p z a s rs ebo ee off bits _ _ _ _ t py] c0 bits ty
      by (cases st) (simp only: prod.case)
  qed
  then show ?thesis using r run_while_stop [OF r [unfolded bit_loop_def]] by (cases r) auto
qed

text \<open>What follows the loop, as a function of the loop's result.\<close>

definition after_loop :: "string \<Rightarrow> string \<Rightarrow> int \<Rightarrow> int \<Rightarrow> bitstate \<Rightarrow> bitstate" where
  "after_loop py t off bits st = (case st of (ebo, ee, pads, rs) \<Rightarrow>
     let diff = off - ebo
     in (off + bits, ee, (if diff \<noteq> 0 then pads @ [diff] else pads),
         (if diff \<noteq> 0 then rs @ [Row (py @ ''_prepad_'' @ show_int ee) t (Some diff)] else rs)
         @ [Row py t (Some bits)]))"

lemma bit_field_after_loop:
  "bit_field py t off bits z s = bnd (bit_loop py t off bits z s) (\<lambda>st. Inr (after_loop py t off bits st))"
  by (auto simp: bit_field_def after_loop_def Let_def bnd_def split: sum.splits)

definition placed ::
  "(string \<Rightarrow> int) \<Rightarrow> (string \<Rightarrow> int) \<Rightarrow> int option \<Rightarrow> int \<Rightarrow> int \<Rightarrow> cstate \<Rightarrow> row list \<Rightarrow> string \<Rightarrow> int
   \<Rightarrow> int \<Rightarrow> bitstate \<Rightarrow> bool"
where
  "placed ts ta p z a s rs0 py off bits st = (case st of (ebo, ee, pads, rs) \<Rightarrow>
     ebo = off + bits \<and> (\<exists>new fs f s'. rs = rs0 @ new \<and> c_place_all ts ta p new s = Inr (fs @ [f], s')
       \<and> cf_name f = py \<and> cf_bit f = off \<and> cursor z a s' (off + bits) ee))"

lemma placed_synced:
  assumes "synced ts ta p z a s rs0 (off, ee, pads, rs)" and "0 < bits" and "off + bits \<le> ee"
    and "ts t = z" and "eff_align p (ta t) = a"
  shows "placed ts ta p z a s rs0 py off bits (off + bits, ee, pads', rs @ [Row py t (Some bits)])"
  using synced_emit [OF assms, of py] by (auto simp: placed_def)

text \<open>A synchronised position: the gap, if any, is filled, then the field follows.\<close>

lemma after_loop_synced:
  assumes sy: "synced ts ta p z a s rs0 (ebo, ee, pads, rs)" and "ebo \<le> off" and "0 < bits"
    and "off + bits \<le> ee" and ty: "ts t = z" "eff_align p (ta t) = a"
  shows "placed ts ta p z a s rs0 py off bits (after_loop py t off bits (ebo, ee, pads, rs))"
proof (cases "off = ebo")
  case True
  with assms placed_synced [of ts ta p z a s rs0 off ee pads rs bits t py] show ?thesis
    by (simp add: after_loop_def Let_def)
next
  case False
  let ?r = "Row (py @ ''_prepad_'' @ show_int ee) t (Some (off - ebo))"
  obtain new fs f s' where "rs @ [?r] = rs0 @ new" "c_place_all ts ta p new s = Inr (fs @ [f], s')"
    "cursor z a s' off ee"
    using synced_emit [OF sy, of "off - ebo" t "py @ ''_prepad_'' @ show_int ee"] False assms by auto
  then have "synced ts ta p z a s rs0 (off, ee, pads @ [off - ebo], rs @ [?r])"
    by (auto simp: synced_def at_cursor_def)
  from placed_synced [OF this assms(3,4) ty] False show ?thesis
    by (simp add: after_loop_def Let_def)
qed

text \<open>Nothing emitted yet for a field that opens the next unit.\<close>

lemma after_loop_lag:
  assumes c0: "cursor z a s ebo ee" and "ee - ebo < bits" and "bits \<le> 8 * z" and "0 < bits"
    and "ee \<le> off" and "off + bits \<le> ee + 8 * z" and gap: "\<not> hidden_gap ebo ee off bits"
    and ty: "ts t = z" "eff_align p (ta t) = a"
  shows "placed ts ta p z a s rs py off bits (after_loop py t off bits (ee, ee + 8 * z, pads, rs))"
proof (cases "off = ee")
  case True
  obtain f s' where "c_place ts ta p (Row py t (Some bits)) s = Inr (f, s')" "cf_bit f = off"
    "cf_name f = py" "cursor z a s' (off + bits) (ee + 8 * z)"
    using place_new_unit [OF c0 assms(4,3), of ts t p ta py] assms True by auto
  then have "c_place_all ts ta p [Row py t (Some bits)] s = Inr ([] @ [f], s')"
    "cf_bit f = off" "cf_name f = py" "cursor z a s' (off + bits) (ee + 8 * z)" by simp_all
  with True show ?thesis unfolding placed_def after_loop_def Let_def by auto
next
  case False
  let ?d = "off - ee" and ?r = "Row (py @ ''_prepad_'' @ show_int (ee + 8 * z)) t (Some (off - ee))"
  have d: "0 < ?d" "?d \<le> 8 * z" "ee < ebo + ?d"
    using False assms by (auto simp: hidden_gap_def)
  obtain f s' where "c_place ts ta p ?r s = Inr (f, s')" "cursor z a s' off (ee + 8 * z)"
    using place_new_unit [OF c0 d(1,2), of ts t p ta "py @ ''_prepad_'' @ show_int (ee + 8 * z)"] d(3) ty
    by auto
  then have "c_place_all ts ta p [?r] s = Inr ([f], s')" "at_cursor z a s' off (ee + 8 * z)"
    by (simp_all add: at_cursor_def)
  then have "synced ts ta p z a s rs (off, ee + 8 * z, pads @ [?d], rs @ [?r])"
    by (auto simp: synced_def)
  from placed_synced [OF this assms(4,6) ty] False show ?thesis
    by (simp add: after_loop_def Let_def)
qed

text \<open>Where the unit ends that holds the field.\<close>

definition unit_end :: "int \<Rightarrow> int \<Rightarrow> int \<Rightarrow> int" where
  "unit_end z e off = (if off < e then e else e + 8 * z * ((off - e) div (8 * z) + 1))"

lemma unit_end_unique:
  assumes z: "0 < z" and d: "8 * z dvd e' - e" and "e \<le> e'" and "off < e'" and "e' = e \<or> e' - 8 * z \<le> off"
  shows "e' = unit_end z e off"
proof -
  from d obtain k where k: "e' = e + 8 * z * k" by (metis dvdE add.commute diff_add_cancel)
  show ?thesis
  proof (cases "off < e")
    case True
    have "\<not> 0 < k"
    proof
      assume "0 < k"
      then have "8 * z \<le> 8 * z * k" using z by simp
      with k True assms(5) \<open>0 < k\<close> z show False by auto
    qed
    moreover have "0 \<le> k" using k assms(3) z by (simp add: zero_le_mult_iff)
    ultimately show ?thesis using True k by (simp add: unit_end_def)
  next
    case False
    with assms(4,5) have "e' - 8 * z \<le> off" by auto
    have "(off - e) div (8 * z) = k - 1"
      by (rule int_div_pos_eq [where r = "off - e - 8 * z * (k - 1)"])
        (use False k assms(4) \<open>e' - 8 * z \<le> off\<close> z in \<open>auto simp: algebra_simps\<close>)
    with False k show ?thesis by (simp add: unit_end_def)
  qed
qed

text \<open>The bit field branch returns, and if the field fits in the unit the debug data puts it
  in and there is no hidden gap, then \<open>ctypes\<close>, fed the emitted rows, places the field at
  exactly the bit offset of the debug data, and is left where the generator expects the next
  field.\<close>

lemma bit_field_placed:
  assumes c0: "cursor z a s ebo ee" and bits: "0 < bits" "bits \<le> 8 * z" and off: "ebo \<le> off"
    and fits: "fits z ee off bits" and gap: "\<not> hidden_gap ebo ee off bits"
    and ty: "ts t = z" "eff_align p (ta t) = a"
  shows "\<exists>pads' new fs f s'.
    bit_field py t off bits z (ebo, ee, pads, rs) = Inr (off + bits, unit_end z ee off, pads', rs @ new)
    \<and> c_place_all ts ta p new s = Inr (fs @ [f], s')
    \<and> cf_name f = py \<and> cf_bit f = off \<and> cursor z a s' (off + bits) (unit_end z ee off)"
proof -
  have z: "0 < z" using c0 by (simp add: cursor_def)
  obtain ebo1 ee1 pads1 rs1 where
    r: "bit_loop py t off bits z (ebo, ee, pads, rs) = Inr (ebo1, ee1, pads1, rs1)"
    and stop: "off < ee1" and inv: "loop_inv ts ta p z a s rs ebo ee off bits (ebo1, ee1, pads1, rs1)"
    using bit_loop_inv [OF c0 bits off, of ts t p ta py pads rs] ty by blast
  have room: "off + bits \<le> ee1"
    by (rule fits_end [OF fits z]) (use inv stop in \<open>auto simp: loop_inv_def\<close>)
  have "ebo1 \<le> off" using inv by (simp add: loop_inv_def)
  have ue: "ee1 = unit_end z ee off"
    by (rule unit_end_unique [OF z]) (use inv stop in \<open>auto simp: loop_inv_def\<close>)
  consider "synced ts ta p z a s rs (ebo1, ee1, pads1, rs1)"
    | (lag) "rs1 = rs" "ebo1 = ee" "ee1 = ee + 8 * z" "ee - ebo < bits"
    using inv synced_start [OF c0] by (auto simp: loop_inv_def)
  then have "placed ts ta p z a s rs py off bits (after_loop py t off bits (ebo1, ee1, pads1, rs1))"
  proof cases
    case 1
    then show ?thesis using \<open>ebo1 \<le> off\<close> bits(1) room ty by (rule after_loop_synced)
  next
    case lag
    then show ?thesis
      using after_loop_lag [OF c0 lag(4) bits(2,1), of off ts t p ta rs py pads1] \<open>ebo1 \<le> off\<close> room gap ty
      by simp
  qed
  with r show ?thesis unfolding ue by (auto simp: bit_field_after_loop placed_def after_loop_def Let_def split: prod.splits)
qed

section \<open>Properties\<close>


end
