(* ===== verification/LayoutCorrect.thy ===== *)
theory LayoutCorrect
  imports CtypesModel
begin

text \<open>
  The rows the generator emits make \<open>ctypes\<close> place every member where the debug data says
  it is.  The C side is the specification \<open>abi_offsets\<close>: members in order, each at the next
  multiple of its alignment (or directly behind its predecessor in a packed structure).
  \<open>plain_member\<close> says what the theorem asks of a member: an ordinary, fully defined field,
  whose \<open>ctypes\<close> type has the size and alignment that DWARF gives it.
\<close>

section \<open>The C layout\<close>

fun abi_offsets :: "bool \<Rightarrow> int \<Rightarrow> (int \<times> int) list \<Rightarrow> int list" where
  "abi_offsets pk e [] = []"
| "abi_offsets pk e ((z, a) # zs) =
     (let off = (if pk then e else round_up a e) in off # abi_offsets pk (off + z) zs)"

fun abi_end :: "bool \<Rightarrow> int \<Rightarrow> (int \<times> int) list \<Rightarrow> int" where
  "abi_end pk e [] = e"
| "abi_end pk e ((z, a) # zs) = abi_end pk ((if pk then e else round_up a e) + z) zs"

definition abi_align :: "int \<Rightarrow> (int \<times> int) list \<Rightarrow> int" where
  "abi_align a0 zs = foldl max a0 (map snd zs)"

lemma abi_align_Cons [simp]: "abi_align a0 ((z, a) # zs) = abi_align (max a0 a) zs"
  by (simp add: abi_align_def)

lemma abi_align_Nil [simp]: "abi_align a0 [] = a0"
  by (simp add: abi_align_def)

lemma abi_align_in: "a0 \<in> set alignments \<Longrightarrow> list_all (\<lambda>(z, a). a \<in> set alignments) zs \<Longrightarrow>
    abi_align a0 zs \<in> set alignments"
  by (induction zs arbitrary: a0) (auto simp: max_def)

lemma alignments_pos: "a \<in> set alignments \<Longrightarrow> 1 \<le> a"
  by (auto simp: alignments_def)

text \<open>A packed structure whose members all happen to be aligned is a natural one.\<close>

lemma abi_packed_aligned:
  "list_all (\<lambda>(z, a). a \<in> set alignments) zs \<Longrightarrow>
   list_all (\<lambda>(off, (z, a)). off mod a = 0) (zip (abi_offsets True e zs) zs) \<Longrightarrow>
   abi_offsets True e zs = abi_offsets False e zs \<and> abi_end True e zs = abi_end False e zs"
proof (induction zs arbitrary: e)
  case (Cons p zs)
  obtain z a where p: "p = (z, a)" by (cases p)
  with Cons.prems have "round_up a e = e" by (auto intro: round_up_fix simp: Let_def mod_0_imp_dvd)
  with Cons p show ?case by (simp add: Let_def)
qed simp

lemma abi_natural_aligned:
  "list_all (\<lambda>(z, a). a \<in> set alignments) zs \<Longrightarrow>
   list_all (\<lambda>(off, (z, a)). off mod a = 0) (zip (abi_offsets False e zs) zs)"
proof (induction zs arbitrary: e)
  case (Cons p zs)
  obtain z a where p: "p = (z, a)" by (cases p)
  with Cons have "0 < a" using alignments_pos [of a] by simp
  then have "round_up a e mod a = 0" using round_up_dvd by simp
  with Cons p show ?case by (simp add: Let_def)
qed simp

section \<open>Plain members\<close>

definition plain_member ::
  "nat \<Rightarrow> int \<Rightarrow> dwarf \<Rightarrow> (string \<Rightarrow> int) \<Rightarrow> (string \<Rightarrow> int) \<Rightarrow> member \<times> tyinfo \<times> bool \<Rightarrow> bool"
where
  "plain_member n psz dw tsize talign f = (case f of (m, ti, eb) \<Rightarrow>
     \<not> eb \<and> t_defined ti \<and> ctypeOverride m = None
     \<and> DW_AT_data_bit_offset (dw (m_die m)) = None \<and> DW_AT_bit_offset (dw (m_die m)) = None
     \<and> DW_AT_data_member_location (dw (m_die m)) \<noteq> None
     \<and> die_size n psz dw (Some (m_die m)) = Inr (tsize (t_ctype ti))
     \<and> t_align ti = talign (t_ctype ti) \<and> List.member alignments (t_align ti))"

definition f_loc :: "dwarf \<Rightarrow> member \<times> tyinfo \<times> bool \<Rightarrow> int" where
  "f_loc dw f = (case DW_AT_data_member_location (dw (m_die (fst f))) of None \<Rightarrow> 0 | Some z \<Rightarrow> z)"

definition f_za :: "(string \<Rightarrow> int) \<Rightarrow> member \<times> tyinfo \<times> bool \<Rightarrow> int \<times> int" where
  "f_za tsize f = (tsize (t_ctype (fst (snd f))), t_align (fst (snd f)))"

definition f_row :: "dwarf \<Rightarrow> member \<times> tyinfo \<times> bool \<Rightarrow> row" where
  "f_row dw f = Row (str_of (member_name dw (fst f))) (t_ctype (fst (snd f))) None"

lemma f_za_simp [simp]: "f_za ts (m, ti, eb) = (ts (t_ctype ti), t_align ti)"
  by (simp add: f_za_def)

lemma f_za_alignments:
  "list_all (plain_member n psz dw ts ta) fs \<Longrightarrow> list_all (\<lambda>(z, a). a \<in> set alignments) (map (f_za ts) fs)"
  by (induction fs) (auto simp: plain_member_def split: prod.splits)

text \<open>One iteration on a plain member.\<close>

lemma field_step_plain:
  assumes "plain_member n psz dw ts ta (m, ti, eb)" and "salign st \<in> set alignments"
    and "\<not> o_union ow"
  shows "\<exists>st'. field_step n psz dw ow m ti nl st = Inr (m, st', [])
    \<and> salign st' = max (salign st) (t_align ti)
    \<and> expected_end st' = 8 * (f_loc dw (m, ti, eb) + ts (t_ctype ti))
    \<and> rows st' = rows st @ [f_row dw (m, ti, eb)]
    \<and> (packed st' \<longleftrightarrow> packed st \<or> f_loc dw (m, ti, eb) mod t_align ti \<noteq> 0)"
proof -
  have "t_align ti \<in> set alignments" using assms(1) by (auto simp: plain_member_def)
  from raise_alignment_ok [OF this assms(2)] assms alignments_pos [OF this]
  show ?thesis
    by (auto simp: plain_member_def field_step_def field_type_def place_field_def die_bit_offset_def
        check_packed_def f_loc_def f_row_def Let_def)
qed

lemma run_fields_plain:
  assumes "list_all (plain_member n psz dw ts ta) fs" and "salign st \<in> set alignments"
    and "\<not> o_union ow"
  shows "\<exists>st'. run_fields n psz dw ow fs st = Inr (map fst fs, st', [])
    \<and> salign st' = abi_align (salign st) (map (f_za ts) fs)
    \<and> (fs \<noteq> [] \<longrightarrow> expected_end st' = 8 * (f_loc dw (last fs) + fst (f_za ts (last fs))))
    \<and> rows st' = rows st @ map (f_row dw) fs
    \<and> (packed st' \<longleftrightarrow> packed st \<or> (\<exists>f \<in> set fs. f_loc dw f mod snd (f_za ts f) \<noteq> 0))"
  using assms
proof (induction fs arbitrary: st)
  case (Cons f fs)
  obtain m ti eb where f: "f = (m, ti, eb)" by (cases f)
  from Cons.prems f have pm: "plain_member n psz dw ts ta (m, ti, eb)" and eb: "\<not> eb"
    by (auto simp: plain_member_def)
  obtain st1 where st1: "field_step n psz dw ow m ti (next_loc dw fs) st = Inr (m, st1, [])"
    "salign st1 = max (salign st) (t_align ti)"
    "expected_end st1 = 8 * (f_loc dw (m, ti, eb) + ts (t_ctype ti))"
    "rows st1 = rows st @ [f_row dw (m, ti, eb)]"
    "packed st1 \<longleftrightarrow> packed st \<or> f_loc dw (m, ti, eb) mod t_align ti \<noteq> 0"
    using field_step_plain [OF pm Cons.prems(2,3)] by blast
  have "salign st1 \<in> set alignments"
    using st1(2) Cons.prems(2) pm by (auto simp: plain_member_def max_def)
  with Cons obtain st2 where st2: "run_fields n psz dw ow fs st1 = Inr (map fst fs, st2, [])"
    "salign st2 = abi_align (salign st1) (map (f_za ts) fs)"
    "fs \<noteq> [] \<longrightarrow> expected_end st2 = 8 * (f_loc dw (last fs) + fst (f_za ts (last fs)))"
    "rows st2 = rows st1 @ map (f_row dw) fs"
    "packed st2 \<longleftrightarrow> packed st1 \<or> (\<exists>f \<in> set fs. f_loc dw f mod snd (f_za ts f) \<noteq> 0)"
    by force
  have "fs = [] \<Longrightarrow> st2 = st1" using st2(1) by simp
  with st1 st2 f eb show ?case by (cases "fs = []") auto
qed (simp add: abi_align_def)

section \<open>What ctypes makes of the rows\<close>

lemma c_place_all_plain:
  assumes "list_all (plain_member n psz dw ts ta) fs" and "1 \<le> c_align s"
  shows "\<exists>cfs s'. c_place_all ts ta (if pk then Some 1 else None) (map (f_row dw) fs) s = Inr (cfs, s')
    \<and> map cf_offset cfs = abi_offsets pk (c_end s) (map (f_za ts) fs)
    \<and> c_end s' = abi_end pk (c_end s) (map (f_za ts) fs)
    \<and> c_align s' = (if pk then c_align s else abi_align (c_align s) (map (f_za ts) fs))
    \<and> map cf_name cfs = map (row_name \<circ> f_row dw) fs"
  using assms
proof (induction fs arbitrary: s)
  case (Cons f fs)
  obtain m ti eb where f: "f = (m, ti, eb)" by (cases f)
  let ?z = "ts (t_ctype ti)" and ?a = "t_align ti"
  let ?off = "if pk then c_end s else round_up ?a (c_end s)"
  have a: "ta (t_ctype ti) = ?a" "1 \<le> ?a"
    using Cons.prems(1) f alignments_pos by (auto simp: plain_member_def)
  let ?s1 = "\<lparr>c_end = ?off + ?z, c_bitofs = 0, c_unit = 0,
              c_align = (if pk then c_align s else max (c_align s) ?a)\<rparr>"
  have step: "c_place ts ta (if pk then Some 1 else None) (f_row dw f) s =
      Inr (\<lparr>cf_name = row_name (f_row dw f), cf_offset = ?off, cf_bitpos = 0\<rparr>, ?s1)"
    using a Cons.prems(2) by (auto simp: c_place_def f f_row_def eff_align_def Let_def round_up_fix max_def min_def)
  have al: "1 \<le> c_align ?s1" using Cons.prems(2) by (simp add: le_max_iff_disj)
  from Cons.IH [OF _ al] Cons.prems obtain cfs s' where
    "c_place_all ts ta (if pk then Some 1 else None) (map (f_row dw) fs) ?s1 = Inr (cfs, s')"
    "map cf_offset cfs = abi_offsets pk (?off + ?z) (map (f_za ts) fs)"
    "c_end s' = abi_end pk (?off + ?z) (map (f_za ts) fs)"
    "c_align s' = (if pk then c_align ?s1 else abi_align (c_align ?s1) (map (f_za ts) fs))"
    "map cf_name cfs = map (row_name \<circ> f_row dw) fs"
    by auto
  with step show ?case by (auto simp: f Let_def)
qed simp

section \<open>Agreement\<close>

lemma abi_end_last: "zs \<noteq> [] \<Longrightarrow> abi_end pk e zs = last (abi_offsets pk e zs) + fst (last zs)"
proof (induction zs arbitrary: e)
  case (Cons p zs)
  obtain z a where "p = (z, a)" by (cases p)
  moreover have "abi_offsets pk e' zs \<noteq> []" if "zs \<noteq> []" for e'
    using that by (cases zs) (auto simp: Let_def)
  ultimately show ?case using Cons by (cases "zs = []") (auto simp: Let_def)
qed simp

lemma abi_end_mono: "list_all (\<lambda>(z, a). 0 \<le> z \<and> 0 < a) zs \<Longrightarrow> e \<le> abi_end pk e zs"
proof (induction zs arbitrary: e)
  case (Cons p zs)
  obtain z a where p: "p = (z, a)" by (cases p)
  with Cons.prems have "e \<le> (if pk then e else round_up a e) + z"
    using round_up_ge [of a e] by auto
  also have "\<dots> \<le> abi_end pk ((if pk then e else round_up a e) + z) zs" using Cons p by auto
  finally show ?case by (simp add: p)
qed simp

lemma round_up_add: "a dvd k \<Longrightarrow> round_up a (x + k) = round_up a x + k"
proof -
  assume "a dvd k"
  then have "(x + k) mod a = x mod a" by (metis add.right_neutral dvd_eq_mod_eq_0 mod_add_right_eq)
  then show ?thesis by (simp add: round_up_def Let_def)
qed

lemma aligned_rows:
  assumes "map (f_loc dw) fs = offs" and "list_all (\<lambda>(off, (z, a)). off mod a = 0) (zip offs (map (f_za ts) fs))"
  shows "\<not> (\<exists>f \<in> set fs. f_loc dw f mod snd (f_za ts f) \<noteq> 0)"
proof -
  have "list_all (\<lambda>f. f_loc dw f mod snd (f_za ts f) = 0) fs"
    using assms(2) unfolding assms(1) [symmetric]
    by (induction fs) (auto simp: f_za_def)
  then show ?thesis by (auto simp: list_all_iff)
qed

definition pad_type :: "(string \<Rightarrow> int) \<Rightarrow> (string \<Rightarrow> int) \<Rightarrow> int \<Rightarrow> bool" where
  "pad_type tsize talign k = (tsize (''(c_char * '' @ show_int k @ '')'') = k
     \<and> talign (''(c_char * '' @ show_int k @ '')'') = 1)"

text \<open>What the generator decides for a structure of plain members: the rows, packing, the
  alignment.\<close>

lemma layout_table_plain:
  fixes fs ts dw and pk :: bool
  defines "zas \<equiv> map (f_za ts) fs"
  defines "A \<equiv> abi_align 1 zas"
  defines "bad \<equiv> (\<exists>f \<in> set fs. f_loc dw f mod snd (f_za ts f) \<noteq> 0)"
  defines "e \<equiv> abi_end pk 0 zas"
  assumes fs: "fs \<noteq> []" "list_all (plain_member n psz dw ts ta) fs"
    and ow: "\<not> o_union ow" "o_size ow = Some sz"
    and locs: "map (f_loc dw) fs = abi_offsets pk 0 zas"
  shows "\<exists>st. layout_table n psz dw ow sc fs False = Inr (map fst fs, st, [])
    \<and> (packed st \<longleftrightarrow> bad \<or> sz mod A \<noteq> 0)
    \<and> salign st = (if packed st then 1 else A)
    \<and> rows st = map (f_row dw) fs
        @ (if round_up A e < sz \<and> length fs \<noteq> sc
           then [Row ''__trailing_pad'' (''(c_char * '' @ show_int (sz - round_up A e) @ '')'') None]
           else [])"
proof -
  obtain st1 where st1: "run_fields n psz dw ow fs (layout0 False) = Inr (map fst fs, st1, [])"
    "salign st1 = A" "expected_end st1 = 8 * (f_loc dw (last fs) + fst (f_za ts (last fs)))"
    "rows st1 = map (f_row dw) fs" "packed st1 \<longleftrightarrow> bad"
    using run_fields_plain [OF fs(2) _ ow(1), of "layout0 False"] fs(1)
    by (auto simp: layout0_def alignments_def zas_def A_def bad_def)
  have "f_loc dw (last fs) = last (abi_offsets pk 0 zas)"
    using locs fs(1) by (metis last_map)
  moreover have "fst (f_za ts (last fs)) = fst (last zas)"
    using fs(1) by (simp add: zas_def last_map)
  ultimately have "expected_end st1 div 8 = e"
    using st1(3) abi_end_last [of zas pk 0] fs(1) by (simp add: e_def zas_def)
  with st1 ow show ?thesis
    by (auto simp: layout_table_def trailing_pad_def finish_packed_def Let_def)
qed

lemma layout_agrees':
  assumes fs: "fs \<noteq> []" "list_all (plain_member n psz dw ts ta) fs"
    and ow: "\<not> o_union ow" "o_size ow = Some sz"
    and locs: "map (f_loc dw) fs = abi_offsets pk 0 (map (f_za ts) fs)"
    and pk: "pk \<Longrightarrow> sz = abi_end True 0 (map (f_za ts) fs)"
    and nat: "\<not> pk \<Longrightarrow> abi_align 1 (map (f_za ts) fs) dvd sz
      \<and> abi_end False 0 (map (f_za ts) fs) \<le> sz
      \<and> (length fs = sc \<longrightarrow> sz = round_up (abi_align 1 (map (f_za ts) fs)) (abi_end False 0 (map (f_za ts) fs)))"
    and pads: "pad_type ts ta
      (sz - round_up (abi_align 1 (map (f_za ts) fs)) (abi_end False 0 (map (f_za ts) fs)))"
  shows "\<exists>st cfs. layout_table n psz dw ow sc fs False = Inr (map fst fs, st, [])
    \<and> c_struct ts ta (if packed st then Some 1 else None) (rows st) = Inr (cfs, sz, salign st)
    \<and> take (length fs) (map cf_offset cfs) = map (f_loc dw) fs"
proof -
  let ?zas = "map (f_za ts) fs"
  let ?A = "abi_align 1 ?zas"
  note als = f_za_alignments [OF fs(2)]
  have A: "1 \<le> ?A" "?A \<in> set alignments"
    using abi_align_in [OF _ als, of 1] alignments_pos by (auto simp: alignments_def)
  obtain st where st: "layout_table n psz dw ow sc fs False = Inr (map fst fs, st, [])"
    "packed st \<longleftrightarrow> (\<exists>f \<in> set fs. f_loc dw f mod snd (f_za ts f) \<noteq> 0) \<or> sz mod ?A \<noteq> 0"
    "salign st = (if packed st then 1 else ?A)"
    "rows st = map (f_row dw) fs
        @ (if round_up ?A (abi_end pk 0 ?zas) < sz \<and> length fs \<noteq> sc
           then [Row ''__trailing_pad'' (''(c_char * '' @ show_int (sz - round_up ?A (abi_end pk 0 ?zas)) @ '')'') None]
           else [])"
    using layout_table_plain [OF fs ow locs] by blast
  have len: "length (abi_offsets pk' e ?zas) = length fs" for pk' e
    by (induction fs arbitrary: e) (auto simp: Let_def f_za_def)
  show ?thesis
  proof (cases "packed st")
    case True
    have pk': pk
    proof (rule ccontr)
      assume "\<not> pk"
      with True st(2) nat locs abi_natural_aligned [OF als] aligned_rows show False by auto
    qed
    with pk round_up_ge [of ?A sz] A(1) st(4) have rows: "rows st = map (f_row dw) fs" by simp
    obtain cfs s' where c: "c_place_all ts ta (Some 1) (map (f_row dw) fs) cstate0 = Inr (cfs, s')"
      "map cf_offset cfs = abi_offsets True 0 ?zas" "c_end s' = sz" "c_align s' = 1"
      using c_place_all_plain [OF fs(2), of cstate0 True] pk pk' by (auto simp: cstate0_def)
    have "c_struct ts ta (Some 1) (rows st) = Inr (cfs, sz, 1)"
      using c rows by (simp add: c_struct_def struct_sizeof_def round_up_fix)
    with st(1,3) True locs c(2) pk' len show ?thesis by auto
  next
    case False
    with st(2) have al: "\<not> (\<exists>f \<in> set fs. f_loc dw f mod snd (f_za ts f) \<noteq> 0)" and dvd: "?A dvd sz"
      by auto
    have nat': "map (f_loc dw) fs = abi_offsets False 0 ?zas" "abi_end pk 0 ?zas = abi_end False 0 ?zas"
    proof -
      have "abi_offsets pk 0 ?zas = abi_offsets False 0 ?zas \<and> abi_end pk 0 ?zas = abi_end False 0 ?zas"
      proof (cases pk)
        case True
        have "list_all (\<lambda>(off, (z, a)). off mod a = 0) (zip (map (f_loc dw) fs) ?zas)"
          using al by (induction fs) (auto simp: f_za_def)
        with True locs abi_packed_aligned [OF als, of 0] show ?thesis by simp
      qed simp
      with locs show "map (f_loc dw) fs = abi_offsets False 0 ?zas"
        "abi_end pk 0 ?zas = abi_end False 0 ?zas" by simp_all
    qed
    let ?e = "abi_end False 0 ?zas"
    have ge: "round_up ?A ?e \<le> sz"
    proof (rule ccontr)
      assume "\<not> round_up ?A ?e \<le> sz"
      moreover have "?e \<le> sz" using pk nat nat'(2) by (cases pk) auto
      moreover have "?A dvd round_up ?A ?e - sz" using round_up_dvd [of ?A ?e] dvd A(1) by simp
      ultimately show False
        using round_up_less [of ?A ?e] A(1) zdvd_imp_le [of ?A "round_up ?A ?e - sz"] by auto
    qed
    have tail: "round_up ?A ?e = sz \<or> length fs \<noteq> sc"
      using pk nat nat'(2) dvd by (cases pk) (auto simp: round_up_fix)
    obtain cfs s' where c: "c_place_all ts ta None (map (f_row dw) fs) cstate0 = Inr (cfs, s')"
      "map cf_offset cfs = abi_offsets False 0 ?zas" "c_end s' = ?e" "c_align s' = ?A"
      using c_place_all_plain [OF fs(2), of cstate0 False] by (auto simp: cstate0_def)
    have "\<exists>cfs'. c_struct ts ta None (rows st) = Inr (cfs @ cfs', sz, ?A)"
    proof (cases "round_up ?A ?e < sz")
      case False
      with ge st(4) nat'(2) c show ?thesis
        by (intro exI [of _ "[]"]) (simp add: c_struct_def struct_sizeof_def)
    next
      case True
      let ?k = "sz - round_up ?A ?e"
      have "?A dvd ?k" using dvd round_up_dvd [of ?A ?e] A(1) by simp
      then have "round_up ?A (?e + ?k) = sz" by (simp add: round_up_add)
      with True tail st(4) nat'(2) c pads A(1) show ?thesis
        by (simp add: c_struct_def c_place_all_append c_place_def pad_type_def eff_align_def
            Let_def round_up_fix struct_sizeof_def max_def)
    qed
    with st(1,3) False nat' c(2) len show ?thesis by (auto simp: c_struct_def)
  qed
qed

text \<open>C1: for a structure of ordinary members that C laid out naturally (with any extra space at
  the end that keeps the alignment) or packed, the generated \<open>_fields_\<close> and \<open>_pack_\<close> make
  \<open>ctypes\<close> place every member at the offset in the debug data and give the structure the size
  in the debug data.\<close>

theorem layout_agrees:
  assumes fs: "fs \<noteq> []" "list_all (plain_member n psz dw ts ta) fs"
    and ow: "\<not> o_union ow" "o_size ow = Some sz"
    and locs: "map (f_loc dw) fs = abi_offsets pk 0 (map (f_za ts) fs)"
    and pk: "pk \<Longrightarrow> sz = abi_end True 0 (map (f_za ts) fs)"
    and nat: "\<not> pk \<Longrightarrow> abi_align 1 (map (f_za ts) fs) dvd sz
      \<and> abi_end False 0 (map (f_za ts) fs) \<le> sz
      \<and> (length fs = sc \<longrightarrow> sz = round_up (abi_align 1 (map (f_za ts) fs)) (abi_end False 0 (map (f_za ts) fs)))"
    and pads: "pad_type ts ta
      (sz - round_up (abi_align 1 (map (f_za ts) fs)) (abi_end False 0 (map (f_za ts) fs)))"
  shows "\<exists>st cfs. layout_table n psz dw ow sc fs False = Inr (map fst fs, st, [])
    \<and> c_struct ts ta (if packed st then Some 1 else None) (rows st) = Inr (cfs, sz, salign st)
    \<and> take (length fs) (map cf_offset cfs) = map (f_loc dw) fs"
  using layout_agrees' [OF assms] .

text \<open>\<open>struct { char c; int i; } __attribute__((aligned(16)))\<close>: the natural layout with eight
  bytes added at the end.\<close>

definition ex_struct :: dwarf where
  "ex_struct = (\<lambda>_. mk_die 0 [])
     (1 := (mk_die DW_TAG_member [''S'', ''c''])\<lparr>DW_AT_type := Some 3, DW_AT_data_member_location := Some 0\<rparr>,
      2 := (mk_die DW_TAG_member [''S'', ''i''])\<lparr>DW_AT_type := Some 4, DW_AT_data_member_location := Some 4\<rparr>,
      3 := (mk_die DW_TAG_base_type [''char''])\<lparr>DW_AT_byte_size := Some 1\<rparr>,
      4 := (mk_die DW_TAG_base_type [''int''])\<lparr>DW_AT_byte_size := Some 4\<rparr>)"

definition ex_fields :: "(member \<times> tyinfo \<times> bool) list" where
  "ex_fields =
     [(mk_member 1, \<lparr>t_defined = True, t_align = 1, t_ctype = ''c_char'', t_name = ''c_char''\<rparr>, False),
      (mk_member 2, \<lparr>t_defined = True, t_align = 4, t_ctype = ''c_int'', t_name = ''c_int''\<rparr>, False)]"

definition ex_tsize :: "string \<Rightarrow> int" where
  "ex_tsize s = (if s = ''c_char'' then 1 else if s = ''c_int'' then 4 else 8)"

definition ex_talign :: "string \<Rightarrow> int" where
  "ex_talign s = (if s = ''c_int'' then 4 else 1)"

theorem layout_agrees_witness:
  "\<exists>st cfs. layout_table 3 8 ex_struct \<lparr>o_union = False, o_size = Some 16, o_die_size = Some 16, o_name = ''S''\<rparr> 0
      ex_fields False = Inr (map fst ex_fields, st, [])
    \<and> c_struct ex_tsize ex_talign (if packed st then Some 1 else None) (rows st) = Inr (cfs, 16, salign st)
    \<and> take (length ex_fields) (map cf_offset cfs) = map (f_loc ex_struct) ex_fields"
proof (rule layout_agrees [where pk = False])
  show "list_all (plain_member 3 8 ex_struct ex_tsize ex_talign) ex_fields"
    by (simp add: ex_fields_def plain_member_def ex_struct_def mk_die_def mk_member_def ex_tsize_def
        ex_talign_def alignments_def numeral_3_eq_3)
  show "map (f_loc ex_struct) ex_fields = abi_offsets False 0 (map (f_za ex_tsize) ex_fields)"
    by (simp add: ex_fields_def f_loc_def ex_struct_def mk_die_def mk_member_def ex_tsize_def
        round_up_def)
  show "pad_type ex_tsize ex_talign (16 - round_up (abi_align 1 (map (f_za ex_tsize) ex_fields))
      (abi_end False 0 (map (f_za ex_tsize) ex_fields)))"
    by (simp add: ex_fields_def pad_type_def ex_tsize_def ex_talign_def round_up_def show_int_def
        show_nat.simps digit_char_def)
qed (simp_all add: ex_fields_def ex_tsize_def round_up_def)

end
