(* ===== verification/MixedLayout.thy ===== *)
theory MixedLayout
  imports BitFields LayoutCorrect "HOL-Library.Sublist"
begin

text \<open>
  Structures of ordinary members and bit fields.  The rows of the whole table, padding rows
  included, make \<open>ctypes\<close> place every member at its bit offset in the debug data.  The proof runs the
  generator and \<open>ctypes\<close> side by side: \<open>tracks\<close> relates the position of the generator (next free bit,
  end of the storage in use) to the state of \<open>ctypes\<close>.
\<close>

section \<open>The C layout\<close>

text \<open>Next free bit, end of the storage in use in bits, and the open storage unit of a run of bit
  fields (its size and alignment).\<close>

type_synonym position = "int \<times> int \<times> (int \<times> int) option"

definition f_bits :: "nat \<Rightarrow> int \<Rightarrow> dwarf \<Rightarrow> member \<times> tyinfo \<times> bool \<Rightarrow> (int \<times> int) option" where
  "f_bits n psz dw f =
     (case (die_bit_offset n psz dw (m_die (fst f)), DW_AT_bit_size (dw (m_die (fst f)))) of
        (Inr (Some off), Some bits) \<Rightarrow> Some (off, bits) | _ \<Rightarrow> None)"

text \<open>Where a member starts, in bits.\<close>

definition f_start :: "nat \<Rightarrow> int \<Rightarrow> dwarf \<Rightarrow> member \<times> tyinfo \<times> bool \<Rightarrow> int" where
  "f_start n psz dw f = (case f_bits n psz dw f of Some (off, _) \<Rightarrow> off | None \<Rightarrow> 8 * f_loc dw f)"

definition f_name :: "nat \<Rightarrow> int \<Rightarrow> dwarf \<Rightarrow> member \<times> tyinfo \<times> bool \<Rightarrow> string" where
  "f_name n psz dw f = str_of (if f_bits n psz dw f = None then member_name dw (fst f)
     else member_pyName dw (fst f))"

text \<open>The position behind a member, if it is where C puts it: an ordinary member at the next multiple
  of its alignment; a bit field in the open unit if it fits there, or in the next one, where a run of
  bit fields is of one type, starts where its type may start, and has no unnamed field that is hidden
  at the end of a unit.\<close>

definition mixed_step :: "nat \<Rightarrow> int \<Rightarrow> dwarf \<Rightarrow> (string \<Rightarrow> int) \<Rightarrow> member \<times> tyinfo \<times> bool \<Rightarrow> position \<Rightarrow> position option"
where
  "mixed_step n psz dw ts f p = (case (p, f_za ts f) of ((c, e, u), (z, a)) \<Rightarrow>
     case f_bits n psz dw f of
       None \<Rightarrow>
         if f_loc dw f = round_up a (e div 8) then Some (8 * (f_loc dw f + z), 8 * (f_loc dw f + z), None) else None
     | Some (off, bits) \<Rightarrow>
         if 0 < bits \<and> bits \<le> 8 * z \<and> 0 < z \<and> a dvd z \<and> a dvd e div 8 \<and> (u = None \<or> u = Some (z, a))
           \<and> c \<le> off \<and> fits z e off bits \<and> \<not> hidden_gap c e off bits
         then Some (off + bits, unit_end z e off, Some (z, a)) else None)"

fun mixed_run :: "nat \<Rightarrow> int \<Rightarrow> dwarf \<Rightarrow> (string \<Rightarrow> int) \<Rightarrow> (member \<times> tyinfo \<times> bool) list \<Rightarrow> position \<Rightarrow> position option"
where
  "mixed_run n psz dw ts [] p = Some p"
| "mixed_run n psz dw ts (f # fs) p =
     (case mixed_step n psz dw ts f p of None \<Rightarrow> None | Some p \<Rightarrow> mixed_run n psz dw ts fs p)"

text \<open>What is asked of a member: fully defined, its type as large and as aligned as the debug data
  says, its location if it has one a multiple of the alignment.\<close>

definition mixed_member ::
  "nat \<Rightarrow> int \<Rightarrow> dwarf \<Rightarrow> (string \<Rightarrow> int) \<Rightarrow> (string \<Rightarrow> int) \<Rightarrow> member \<times> tyinfo \<times> bool \<Rightarrow> bool"
where
  "mixed_member n psz dw ts ta f = (case f of (m, ti, eb) \<Rightarrow>
     \<not> eb \<and> t_defined ti \<and> ctypeOverride m = None
     \<and> die_size n psz dw (Some (m_die m)) = Inr (ts (t_ctype ti))
     \<and> t_align ti = ta (t_ctype ti) \<and> List.member alignments (t_align ti)
     \<and> (case DW_AT_data_member_location (dw (m_die m)) of None \<Rightarrow> True | Some l \<Rightarrow> l mod t_align ti = 0)
     \<and> (case die_bit_offset n psz dw (m_die m) of Inr None \<Rightarrow> DW_AT_data_member_location (dw (m_die m)) \<noteq> None
        | Inr (Some _) \<Rightarrow> DW_AT_bit_size (dw (m_die m)) \<noteq> None | Inl _ \<Rightarrow> False))"

section \<open>Side by side\<close>

definition tracks :: "position \<Rightarrow> layout \<Rightarrow> cstate \<Rightarrow> bool" where
  "tracks p st s = (case p of (c, e, u) \<Rightarrow>
     expected_bit_offset st = c \<and> expected_end st = e \<and> salign st = c_align s
     \<and> salign st \<in> set alignments \<and> \<not> packed st \<and> e = 8 * c_end s
     \<and> (case u of
          None \<Rightarrow> c_unit s = 0 \<and> c = e
        | Some (z, a) \<Rightarrow> cursor z a s c e \<and> c_unit s = 8 * z \<and> a \<le> c_align s))"

text \<open>The rows of one bit field are all of its type; they raise the alignment to that of the type.\<close>

definition bit_rows :: "string \<Rightarrow> row list \<Rightarrow> bool" where
  "bit_rows t rs = list_all (\<lambda>r. row_type r = t \<and> row_bits r \<noteq> None) rs"

lemma bit_field_rows:
  assumes "bit_field py t off bits z (ebo, ee, pads, rs) = Inr (ebo', ee', pads', rs @ new)"
  shows "bit_rows t new"
proof -
  from assms obtain st where l: "bit_loop py t off bits z (ebo, ee, pads, rs) = Inr st"
    and a: "after_loop py t off bits st = (ebo', ee', pads', rs @ new)"
    by (auto simp: bit_field_after_loop bnd_eq_Inr)
  let ?P = "\<lambda>st :: bitstate. case st of (_, _, _, rs') \<Rightarrow> \<exists>new. rs' = rs @ new \<and> bit_rows t new"
  have "?P st"
  proof (rule run_while_inv [OF l [unfolded bit_loop_def]])
    show "?P (ebo, ee, pads, rs)" by (simp add: bit_rows_def)
    show "?P (bit_turn py t bits z x)" if "?P x" for x
      using that by (cases x) (auto simp: Let_def bit_rows_def)
  qed
  with a show ?thesis by (cases st) (auto simp: after_loop_def Let_def bit_rows_def split: if_splits)
qed

lemma bit_rows_place:
  assumes "c_place_all ts ta p rs s = Inr (fs, s')" and "bit_rows t rs" and "rs \<noteq> []"
    and "0 < ts t" and "eff_align p (ta t) = a" and "c_unit s \<noteq> 0 \<Longrightarrow> a \<le> c_align s"
  shows "c_align s' = max (c_align s) a \<and> c_unit s' \<noteq> 0"
  using assms
proof (induction rs arbitrary: s fs)
  case (Cons r rs)
  then obtain f s1 fs1 where 1: "c_place ts ta p r s = Inr (f, s1)" "c_place_all ts ta p rs s1 = Inr (fs1, s')"
    by (auto simp: bnd_eq_Inr)
  have s1: "c_align s1 = max (c_align s) a \<and> c_unit s1 \<noteq> 0"
    using 1(1) Cons.prems by (auto simp: c_place_def bit_rows_def Let_def max_def split: if_splits)
  show ?case
  proof (cases "rs = []")
    case True
    with 1(2) s1 show ?thesis by simp
  next
    case False
    from Cons.IH [OF 1(2) _ False] Cons.prems s1 show ?thesis by (auto simp: bit_rows_def)
  qed
qed simp

text \<open>The size is only looked up when the field is in the next unit.\<close>

lemma bit_field_no_size: "off < ee \<Longrightarrow> bit_field py t off bits z' (ebo, ee, pads, rs) = bit_field py t off bits z (ebo, ee, pads, rs)"
  by (simp add: bit_field_def bit_loop_def run_while_unfold [of "\<lambda>(ebo, ee, pads, rs). ee \<le> off"])

lemma check_packed_aligned:
  "(case DW_AT_data_member_location (dw (m_die m)) of None \<Rightarrow> True | Some l \<Rightarrow> l mod a = 0) \<Longrightarrow>
   check_packed dw m a st = st"
  by (auto simp: check_packed_def split: option.splits)

lemma tracks_ordinary:
  assumes m: "mixed_member n psz dw ts ta (m, ti, eb)" and p: "mixed_step n psz dw ts (m, ti, eb) p = Some p'"
    and t: "tracks p st s" and ow: "\<not> o_union ow" and b: "f_bits n psz dw (m, ti, eb) = None"
  shows "\<exists>st' new cfs g s'. field_step n psz dw ow m ti nxt st = Inr (m, st', []) \<and> rows st' = rows st @ new
    \<and> c_place_all ts ta None new s = Inr (cfs @ [g], s')
    \<and> cf_name g = f_name n psz dw (m, ti, eb) \<and> cf_bit g = f_start n psz dw (m, ti, eb)
    \<and> tracks p' st' s' \<and> salign st' = max (salign st) (t_align ti)"
proof -
  let ?t = "t_ctype ti" and ?a = "t_align ti"
  obtain c e u where pos: "p = (c, e, u)" by (cases p)
  have off: "die_bit_offset n psz dw (m_die m) = Inr None"
    using m b by (auto simp: mixed_member_def f_bits_def split: sum.splits option.splits)
  have al: "?a \<in> set alignments" "1 \<le> ?a" "ta ?t = ?a"
    and d: "t_defined ti" "ctypeOverride m = None" "die_size n psz dw (Some (m_die m)) = Inr (ts ?t)"
    using m alignments_pos by (auto simp: mixed_member_def)
  have chk: "check_packed dw m' ?a x = x" if "m_die m' = m_die m" for x m'
    by (rule check_packed_aligned) (use m that in \<open>simp add: mixed_member_def split: option.splits\<close>)
  have e: "e div 8 = c_end s" "salign st = c_align s" "salign st \<in> set alignments" "\<not> packed st"
    using t by (auto simp: tracks_def pos)
  define l where "l = f_loc dw (m, ti, eb)"
  have loc: "DW_AT_data_member_location (dw (m_die m)) = Some l"
    using m off by (auto simp: mixed_member_def l_def f_loc_def split: option.splits)
  from p b have p': "p' = (8 * (l + ts ?t), 8 * (l + ts ?t), None)" and l: "l = round_up ?a (c_end s)"
    by (auto simp: mixed_step_def pos e l_def split: if_splits)
  obtain st1 where st1: "raise_alignment ?a st = Inr st1" "salign st1 = max (salign st) ?a"
    "st1 = st\<lparr>salign := max (salign st) ?a\<rparr>"
    using raise_alignment_ok [OF al(1) e(3)] by blast
  let ?r = "Row (str_of (member_name dw m)) ?t None"
  let ?st = "st1\<lparr>rows := rows st @ [?r], expected_bit_offset := (l + ts ?t) * 8, expected_end := (l + ts ?t) * 8\<rparr>"
  have step: "field_step n psz dw ow m ti nxt st = Inr (m, ?st, [])"
    using off st1 ow loc d
    by (simp add: field_step_def field_type_def place_field_def chk)
  let ?s = "\<lparr>c_end = l + ts ?t, c_bitofs = 0, c_unit = 0, c_align = max (c_align s) ?a\<rparr>"
  have place: "c_place_all ts ta None [?r] s
      = Inr ([] @ [\<lparr>cf_name = row_name ?r, cf_offset = l, cf_bitpos = 0\<rparr>], ?s)"
    using al l by (simp add: c_place_def eff_align_def Let_def)
  have "max (salign st) ?a \<in> set alignments" using al e by (auto simp: max_def)
  then have "tracks p' ?st ?s" using st1 e by (simp add: tracks_def p')
  with step place b st1 show ?thesis
    by (intro exI [of _ ?st] exI [of _ "[?r]"] exI [of _ "[]"] exI [of _ "\<lparr>cf_name = row_name ?r, cf_offset = l, cf_bitpos = 0\<rparr>"] exI [of _ ?s])
      (simp add: f_name_def f_start_def cf_bit_def l_def)
qed

lemma tracks_bits:
  assumes m: "mixed_member n psz dw ts ta (m, ti, eb)" and p: "mixed_step n psz dw ts (m, ti, eb) p = Some p'"
    and t: "tracks p st s" and b: "f_bits n psz dw (m, ti, eb) = Some (off, bits)"
  shows "\<exists>m' st' new cfs g s'. field_step n psz dw ow m ti nxt st = Inr (m', st', []) \<and> rows st' = rows st @ new
    \<and> c_place_all ts ta None new s = Inr (cfs @ [g], s')
    \<and> cf_name g = f_name n psz dw (m, ti, eb) \<and> cf_bit g = f_start n psz dw (m, ti, eb)
    \<and> tracks p' st' s' \<and> salign st' = max (salign st) (t_align ti)"
proof -
  let ?t = "t_ctype ti" and ?a = "t_align ti" and ?py = "str_of (member_pyName dw m)"
  let ?z = "ts ?t"
  obtain c e u where pos: "p = (c, e, u)" by (cases p)
  have off: "die_bit_offset n psz dw (m_die m) = Inr (Some off)" "DW_AT_bit_size (dw (m_die m)) = Some bits"
    using b by (auto simp: f_bits_def split: sum.splits option.splits)
  have al: "?a \<in> set alignments" "1 \<le> ?a" "ta ?t = ?a"
    and d: "t_defined ti" "ctypeOverride m = None" "die_size n psz dw (Some (m_die m)) = Inr (ts ?t)"
    using m alignments_pos by (auto simp: mixed_member_def)
  have chk: "check_packed dw m' ?a x = x" if "m_die m' = m_die m" for x m'
    by (rule check_packed_aligned) (use m that in \<open>simp add: mixed_member_def split: option.splits\<close>)
  have e: "e = 8 * c_end s" "expected_bit_offset st = c" "expected_end st = e" "salign st = c_align s"
    "salign st \<in> set alignments" "\<not> packed st"
    using t by (auto simp: tracks_def pos)
  from p b have q: "0 < bits" "bits \<le> 8 * ?z" "0 < ?z" "?a dvd ?z" "?a dvd c_end s" "u = None \<or> u = Some (?z, ?a)"
    "c \<le> off" "fits ?z e off bits" "\<not> hidden_gap c e off bits"
    and p': "p' = (off + bits, unit_end ?z e off, Some (?z, ?a))"
    by (auto simp: mixed_step_def pos e(1) split: if_splits)
  have cur: "cursor ?z ?a s c e" using t q(3-6) al(2) e(1) by (auto simp: tracks_def pos cursor_def)
  have unit: "c_unit s \<noteq> 0 \<Longrightarrow> ?a \<le> c_align s" using t q(6) by (auto simp: tracks_def pos)
  have ea: "eff_align None (ta ?t) = ?a" by (simp add: eff_align_def al(3))
  obtain pads' new cfs g s' where bf: "bit_field ?py ?t off bits ?z (c, e, pre_pads m, rows st)
        = Inr (off + bits, unit_end ?z e off, pads', rows st @ new)"
    and place: "c_place_all ts ta None new s = Inr (cfs @ [g], s')"
    and g: "cf_name g = ?py" "cf_bit g = off" and cur': "cursor ?z ?a s' (off + bits) (unit_end ?z e off)"
    using bit_field_placed [where ts = ts and ta = ta, OF cur q(1,2,7,8,9) refl ea] by blast
  have new: "new \<noteq> []" using place by auto
  have ca: "c_align s' = max (c_align s) ?a" "c_unit s' \<noteq> 0"
    using bit_rows_place [OF place bit_field_rows [OF bf] new q(3) ea unit] by simp_all
  obtain st1 where st1: "raise_alignment ?a st = Inr st1" "st1 = st\<lparr>salign := max (salign st) ?a\<rparr>"
    using raise_alignment_ok [OF al(1) e(5)] by blast
  let ?st = "st1\<lparr>expected_bit_offset := off + bits, expected_end := unit_end ?z e off, rows := rows st @ new\<rparr>"
  have "bit_field ?py ?t off bits (if e \<le> off then ?z else 0) (c, e, pre_pads m, rows st)
        = Inr (off + bits, unit_end ?z e off, pads', rows st @ new)"
    using bf bit_field_no_size [of off e ?py ?t bits 0 c "pre_pads m" "rows st" ?z] by simp
  then have step: "field_step n psz dw ow m ti nxt st = Inr (m\<lparr>pre_pads := pads'\<rparr>, ?st, [])"
    using off st1 e d
    by (cases "e \<le> off") (simp_all add: field_step_def field_type_def place_field_def chk)
  have "max (salign st) ?a \<in> set alignments" using al e by (auto simp: max_def)
  then have "tracks p' ?st s'" using st1 e ca cur' by (auto simp: tracks_def p' cursor_def)
  with step place g b st1 show ?thesis
    by (intro exI [of _ "m\<lparr>pre_pads := pads'\<rparr>"] exI [of _ ?st] exI [of _ new] exI [of _ cfs] exI [of _ g] exI [of _ s'])
      (simp add: f_name_def f_start_def)
qed

lemma tracks_step:
  assumes "mixed_member n psz dw ts ta f" and "mixed_step n psz dw ts f p = Some p'"
    and "tracks p st s" and "\<not> o_union ow"
  shows "\<exists>m' st' new cfs g s'. field_step n psz dw ow (fst f) (fst (snd f)) nxt st = Inr (m', st', []) \<and> rows st' = rows st @ new
    \<and> c_place_all ts ta None new s = Inr (cfs @ [g], s')
    \<and> cf_name g = f_name n psz dw f \<and> cf_bit g = f_start n psz dw f
    \<and> tracks p' st' s' \<and> salign st' = max (salign st) (snd (f_za ts f))"
proof -
  obtain m ti eb where f: "f = (m, ti, eb)" by (cases f)
  show ?thesis
  proof (cases "f_bits n psz dw f")
    case None
    from tracks_ordinary [OF assms [unfolded f] None [unfolded f]] show ?thesis
      unfolding f fst_conv snd_conv f_za_simp by blast
  next
    case (Some b)
    obtain off bits where "b = (off, bits)" by (cases b)
    with Some f have "f_bits n psz dw (m, ti, eb) = Some (off, bits)" by simp
    from tracks_bits [OF assms(1-3) [unfolded f] this] show ?thesis
      unfolding f fst_conv snd_conv f_za_simp by blast
  qed
qed

text \<open>A placed field is that of a member.\<close>

definition lands :: "nat \<Rightarrow> int \<Rightarrow> dwarf \<Rightarrow> cfield \<Rightarrow> member \<times> tyinfo \<times> bool \<Rightarrow> bool" where
  "lands n psz dw g f = (cf_name g = f_name n psz dw f \<and> cf_bit g = f_start n psz dw f)"

lemma run_fields_mixed:
  assumes "list_all (mixed_member n psz dw ts ta) fs" and "mixed_run n psz dw ts fs p = Some p'"
    and "tracks p st s" and "\<not> o_union ow"
  shows "\<exists>ms st' new cfs s' named. run_fields n psz dw ow fs st = Inr (ms, st', []) \<and> rows st' = rows st @ new
    \<and> c_place_all ts ta None new s = Inr (cfs, s')
    \<and> subseq named cfs \<and> list_all2 (lands n psz dw) named fs
    \<and> tracks p' st' s' \<and> salign st' = abi_align (salign st) (map (f_za ts) fs)"
  using assms
proof (induction fs arbitrary: p st s)
  case Nil
  then show ?case by (intro exI [of _ "[]"] exI) auto
next
  case (Cons f fs)
  obtain m ti eb where f: "f = (m, ti, eb)" by (cases f)
  from Cons.prems(2) obtain p1 where p1: "mixed_step n psz dw ts f p = Some p1" "mixed_run n psz dw ts fs p1 = Some p'"
    by (auto split: option.splits)
  have mf: "mixed_member n psz dw ts ta f" and eb: "\<not> eb" using Cons.prems(1) by (auto simp: f mixed_member_def)
  from tracks_step [OF mf p1(1) Cons.prems(3,4), of "next_loc dw fs"] obtain m' st1 new1 cfs1 g s1 where
    1: "field_step n psz dw ow m ti (next_loc dw fs) st = Inr (m', st1, [])" "rows st1 = rows st @ new1"
      "c_place_all ts ta None new1 s = Inr (cfs1 @ [g], s1)" "lands n psz dw g f"
      "tracks p1 st1 s1" "salign st1 = max (salign st) (snd (f_za ts f))"
    unfolding f fst_conv snd_conv lands_def by blast
  from Cons.IH [OF _ p1(2) 1(5) Cons.prems(4)] Cons.prems(1) obtain ms st' new cfs s' named where
    2: "run_fields n psz dw ow fs st1 = Inr (ms, st', [])" "rows st' = rows st1 @ new"
      "c_place_all ts ta None new s1 = Inr (cfs, s')" "subseq named cfs" "list_all2 (lands n psz dw) named fs"
      "tracks p' st' s'" "salign st' = abi_align (salign st1) (map (f_za ts) fs)"
    by auto
  have "run_fields n psz dw ow (f # fs) st = Inr (m' # ms, st', [])"
    using 1(1) 2(1) eb by (simp add: f)
  moreover have "c_place_all ts ta None (new1 @ new) s = Inr (cfs1 @ g # cfs, s')"
    using 1(3) 2(3) by (simp add: c_place_all_append)
  moreover have "subseq (g # named) (cfs1 @ g # cfs)"
    using 2(4) by (intro subseq_drop_many subseq_Cons2)
  moreover have "list_all2 (lands n psz dw) (g # named) (f # fs)" using 1(4) 2(5) by simp
  moreover have "salign st' = abi_align (salign st) (map (f_za ts) (f # fs))"
    using 1(6) 2(7) by (simp add: f)
  moreover have "rows st' = rows st @ (new1 @ new)" using 1(2) 2(2) by simp
  ultimately show ?case using 2(6) by blast
qed

section \<open>The end of a structure\<close>

lemma round_up_le: "1 \<le> a \<Longrightarrow> a dvd sz \<Longrightarrow> e \<le> sz \<Longrightarrow> round_up a e \<le> sz"
proof (rule ccontr)
  assume a: "1 \<le> a" "a dvd sz" "e \<le> sz" and "\<not> round_up a e \<le> sz"
  moreover have "a dvd round_up a e - sz" using round_up_dvd [of a e] a by simp
  ultimately show False
    using round_up_less [of a e] zdvd_imp_le [of a "round_up a e - sz"] by auto
qed

text \<open>The padding at the end fills the structure up to its size.\<close>

lemma struct_end:
  assumes place: "c_place_all ts ta None (rows st) cstate0 = Inr (cfs, s)"
    and st: "expected_end st div 8 = c_end s" "c_align s = a" "salign st = a" "\<not> packed st" and a: "1 \<le> a"
    and ow: "\<not> o_union ow" "o_size ow = Some sz"
    and sz: "a dvd sz" "c_end s \<le> sz" "k = sc \<Longrightarrow> sz = round_up a (c_end s)"
    and pads: "round_up a (c_end s) < sz \<Longrightarrow> pad_type ts ta (sz - round_up a (c_end s))"
  shows "\<exists>st' ds. trailing_pad ow k sc st = Inr st' \<and> finish_packed ow st' = st' \<and> \<not> packed st' \<and> salign st' = a
    \<and> c_struct ts ta None (rows st') = Inr (cfs @ ds, sz, a)"
proof -
  let ?e = "round_up a (c_end s)"
  have fin: "finish_packed ow x = x" if "salign x = a" "\<not> packed x" for x
    using ow(2) sz(1) that by (simp add: finish_packed_def)
  show ?thesis
  proof (cases "?e < sz \<and> k \<noteq> sc")
    case False
    then have "?e = sz" using round_up_le [OF a sz(1,2)] sz(3) by auto
    then have "trailing_pad ow k sc st = Inr (st\<lparr>expected_end := sz\<rparr>)"
      using ow st(1,3) by (simp add: trailing_pad_def Let_def)
    moreover have "c_struct ts ta None (rows st) = Inr (cfs, sz, a)"
      using place st(2) \<open>?e = sz\<close> by (simp add: c_struct_def struct_sizeof_def)
    ultimately show ?thesis using fin [of "st\<lparr>expected_end := sz\<rparr>"] st(3,4)
      by (intro exI [of _ "st\<lparr>expected_end := sz\<rparr>"] exI [of _ "[]"]) simp
  next
    case True
    let ?pad = "Row ''__trailing_pad'' (''(c_char * '' @ show_int (sz - ?e) @ '')'') None"
    let ?st = "st\<lparr>expected_end := ?e, rows := rows st @ [?pad]\<rparr>"
    have "a dvd sz - ?e" using sz(1) round_up_dvd [of a "c_end s"] a by simp
    then have "round_up a (c_end s + (sz - ?e)) = sz" by (simp add: round_up_add)
    then have "\<exists>g. c_struct ts ta None (rows st @ [?pad]) = Inr (cfs @ [g], sz, a)"
      using place st(2) a pads True by (simp add: c_struct_def c_place_all_append c_place_def pad_type_def eff_align_def
            Let_def round_up_fix struct_sizeof_def max_def)
    then obtain g where "c_struct ts ta None (rows st @ [?pad]) = Inr (cfs @ [g], sz, a)" ..
    moreover have "trailing_pad ow k sc st = Inr ?st" using True ow st(1,3) by (simp add: trailing_pad_def Let_def)
    ultimately show ?thesis using fin [of ?st] st(3,4) by (intro exI [of _ ?st] exI [of _ "[g]"]) simp
  qed
qed

section \<open>Properties\<close>


text \<open>\<open>struct S { uint32_t a:16; uint32_t :16; uint32_t :8; uint32_t b:16; char c; };\<close> the example in the
  comment of the source, with an ordinary member behind it.\<close>

definition ex_mixed :: dwarf where
  "ex_mixed = (\<lambda>_. mk_die 0 [])
     (1 := (mk_die DW_TAG_member [''S'', ''a''])\<lparr>DW_AT_type := Some 4, DW_AT_bit_size := Some 16, DW_AT_data_bit_offset := Some 0\<rparr>,
      2 := (mk_die DW_TAG_member [''S'', ''b''])\<lparr>DW_AT_type := Some 4, DW_AT_bit_size := Some 16, DW_AT_data_bit_offset := Some 40\<rparr>,
      7 := (mk_die DW_TAG_member [''S'', ''c''])\<lparr>DW_AT_type := Some 5, DW_AT_data_member_location := Some 8\<rparr>,
      4 := (mk_die DW_TAG_base_type [''unsigned int''])\<lparr>DW_AT_byte_size := Some 4\<rparr>,
      5 := (mk_die DW_TAG_base_type [''char''])\<lparr>DW_AT_byte_size := Some 1\<rparr>)"

definition ex_info :: "string \<Rightarrow> int \<Rightarrow> tyinfo" where
  "ex_info c a = \<lparr>t_defined = True, t_align = a, t_ctype = c, t_name = c\<rparr>"

definition ex_mixed_fields :: "(member \<times> tyinfo \<times> bool) list" where
  "ex_mixed_fields = [(mk_member 1, ex_info ''c_int'' 4, False), (mk_member 2, ex_info ''c_int'' 4, False),
     (mk_member 7, ex_info ''c_char'' 1, False)]"


end
