(* ===== verification/Runtime.thy ===== *)
theory Runtime
  imports Prelude
begin

text \<open>
  \<open>CTypeGenRun.py\<close>, the support module of generated code: when a generated module is loaded
  its classes are checked against the sizes and offsets the generator recorded from the debug
  data.  A class is a record of what the checks read of it: its attributes, and what
  \<open>ctypes\<close> answers for it (\<open>sizeof\<close>, the offsets of its fields).  Types are numbered;
  \<open>ctypes.alignment\<close> of a type and what kind of type it is are functions of its number.
  \<open>errors\<close>, the module's list of messages, is passed along.
\<close>

section \<open>Pointers in types\<close>

text \<open>What \<open>hasPointers\<close> distinguishes: an instance of the pointer metaclass or
  \<open>c_void_p\<close>, a type with \<open>_fields_\<close> (their types), anything else.\<close>

datatype ckind = Pointer | Fields "nat list" | Other

type_synonym memo = "nat \<rightharpoonup> bool"

fun hasPointers :: "nat \<Rightarrow> (nat \<Rightarrow> ckind) \<Rightarrow> nat \<Rightarrow> memo \<Rightarrow> (bool \<times> memo) res"
  and fieldsHavePointers :: "nat \<Rightarrow> (nat \<Rightarrow> ckind) \<Rightarrow> nat list \<Rightarrow> memo \<Rightarrow> (bool \<times> memo) res"
where
  "hasPointers 0 kind t mm = Inl NonTermination"
| "hasPointers (Suc n) kind t mm =
     (case mm t of
        Some rv \<Rightarrow> Inr (rv, mm)
      | None \<Rightarrow>
          bnd (case kind t of
                 Pointer \<Rightarrow> Inr (True, mm)
               | Fields fs \<Rightarrow> fieldsHavePointers n kind fs mm
               | Other \<Rightarrow> Inr (False, mm)) (\<lambda>(rv, mm).
          Inr (rv, mm(t \<mapsto> rv))))"
| "fieldsHavePointers n kind [] mm = Inr (False, mm)"
| "fieldsHavePointers n kind (ftype # fs) mm =
     bnd (hasPointers n kind ftype mm) (\<lambda>(rv, mm).
     if rv then Inr (True, mm) else fieldsHavePointers n kind fs mm)"

section \<open>Classes\<close>

datatype allowance = AllowAll | AllowNames "string list"

record pyclass =
  c_name :: string
  c_str :: string
  c_fields :: "(string \<times> nat) list option"
  c_field_offset :: "string \<Rightarrow> int"
  c_sizeof :: int
  c_have_definition :: bool
  c_native_size :: int
  c_offsets :: "int option list option"
  c_allow_unaligned :: "allowance option"

text \<open>The loop of \<open>checkUnalignedPtrs\<close> over the fields; it collects the messages.\<close>

fun unaligned_loop ::
  "nat \<Rightarrow> (nat \<Rightarrow> ckind) \<Rightarrow> (nat \<Rightarrow> int) \<Rightarrow> pyclass \<Rightarrow> string list \<Rightarrow> (string \<times> nat) list \<Rightarrow> memo
   \<Rightarrow> (string list \<times> memo) res"
where
  "unaligned_loop n kind alignment c allowed [] mm = Inr ([], mm)"
| "unaligned_loop n kind alignment c allowed ((fname, ftype) # fs) mm =
     (let al = alignment ftype; off = c_field_offset c fname in
      if al = 0 \<or> off mod al = 0 then unaligned_loop n kind alignment c allowed fs mm
      else
        bnd (hasPointers n kind ftype mm) (\<lambda>(hp, mm).
        bnd (unaligned_loop n kind alignment c allowed fs mm) (\<lambda>(es, mm).
        if hp \<and> \<not> List.member allowed fname
        then Inr ((''unaligned ptr field '' @ fname @ '' in '' @ c_name c @ '': offset=''
                   @ show_int off @ '' ['' @ show_int (off mod al) @ '']'') # es, mm)
        else Inr (es, mm))))"

definition checkUnalignedPtrs ::
  "nat \<Rightarrow> (nat \<Rightarrow> ckind) \<Rightarrow> (nat \<Rightarrow> int) \<Rightarrow> pyclass \<Rightarrow> memo \<Rightarrow> (string list \<times> memo) res"
where
  "checkUnalignedPtrs n kind alignment c mm =
     (case c_fields c of
        None \<Rightarrow> Inr ([], mm)
      | Some fs \<Rightarrow>
          (case c_allow_unaligned c of
             Some AllowAll \<Rightarrow> Inr ([], mm)
           | Some (AllowNames allowed) \<Rightarrow> unaligned_loop n kind alignment c allowed fs mm
           | None \<Rightarrow> unaligned_loop n kind alignment c [] fs mm))"

definition checkSize :: "pyclass \<Rightarrow> string list" where
  "checkSize c =
     (if \<not> c_have_definition c then []
      else if c_sizeof c = c_native_size c then []
      else if c_sizeof c = 0 \<and> c_native_size c = 1 then []
      else [''type '' @ c_name c @ '' has mismatched size. '' @ show_int (c_sizeof c)
            @ '' in ctypes, '' @ show_int (c_native_size c) @ '' in DWARF''])"

fun offset_errors :: "pyclass \<Rightarrow> ((string \<times> nat) \<times> int option) list \<Rightarrow> string list" where
  "offset_errors c [] = []"
| "offset_errors c ((field, offset) # rest) =
     (case offset of
        None \<Rightarrow> []
      | Some z \<Rightarrow>
          let ctypesOffset = c_field_offset c (fst field) in
          if ctypesOffset \<noteq> z \<and> z \<noteq> - 1
          then [''field '' @ fst field @ '' of '' @ c_str c @ '' has offset '' @ show_int ctypesOffset
                @ '' in ctypes, '' @ show_int z @ '' in DWARF'']
          else [])
     @ offset_errors c rest"

definition checkOffsets :: "pyclass \<Rightarrow> string list" where
  "checkOffsets c =
     (case (c_fields c, c_offsets c) of
        (Some fs, Some offs) \<Rightarrow> offset_errors c (zip fs offs)
      | _ \<Rightarrow> [])"

definition test_class ::
  "nat \<Rightarrow> (nat \<Rightarrow> ckind) \<Rightarrow> (nat \<Rightarrow> int) \<Rightarrow> pyclass \<Rightarrow> string list \<times> memo \<Rightarrow> (string list \<times> memo) res"
where
  "test_class n kind alignment c s = (case s of (errors, mm) \<Rightarrow>
     bnd (checkUnalignedPtrs n kind alignment c mm) (\<lambda>(es, mm).
     Inr (errors @ checkOffsets c @ checkSize c @ es, mm)))"

fun test_each ::
  "nat \<Rightarrow> (nat \<Rightarrow> ckind) \<Rightarrow> (nat \<Rightarrow> int) \<Rightarrow> pyclass list \<Rightarrow> string list \<times> memo \<Rightarrow> (string list \<times> memo) res"
where
  "test_each n kind alignment [] s = Inr s"
| "test_each n kind alignment (c # cs) s =
     bnd (test_class n kind alignment c s) (test_each n kind alignment cs)"

text \<open>\<open>test_classes\<close>: \<open>classes\<close> are \<open>TestableCtypeClass.__subclasses__()\<close>; the result is what is
  printed and the state left behind.\<close>

definition test_classes ::
  "nat \<Rightarrow> (nat \<Rightarrow> ckind) \<Rightarrow> (nat \<Rightarrow> int) \<Rightarrow> pyclass list \<Rightarrow> string list \<Rightarrow> string list \<times> memo
   \<Rightarrow> (string list \<times> (string list \<times> memo)) res"
where
  "test_classes n kind alignment classes failed_macros s =
     bnd (test_each n kind alignment classes s) (\<lambda>(errors, mm).
     if errors \<noteq> [] then Inl (PyException (join [CHR 0x0a] errors))
     else Inr (if failed_macros \<noteq> []
               then [''unusable macros for this module: '' @ join '','' failed_macros] else [],
               (errors, mm)))"

section \<open>What the checks decide\<close>

inductive has_ptr :: "(nat \<Rightarrow> ckind) \<Rightarrow> nat \<Rightarrow> bool" for kind where
  itself: "kind t = Pointer \<Longrightarrow> has_ptr kind t"
| field: "kind t = Fields fs \<Longrightarrow> f \<in> set fs \<Longrightarrow> has_ptr kind f \<Longrightarrow> has_ptr kind t"

inductive_simps has_ptr_iff: "has_ptr kind t"

lemma has_ptr_simps:
  "kind t = Pointer \<Longrightarrow> has_ptr kind t"
  "kind t = Other \<Longrightarrow> \<not> has_ptr kind t"
  "kind t = Fields fs \<Longrightarrow> has_ptr kind t \<longleftrightarrow> (\<exists>f \<in> set fs. has_ptr kind f)"
  by (auto simp: has_ptr_iff [of kind t])

text \<open>A memo that holds right answers only; and types nested to a finite depth.\<close>

definition memo_ok :: "(nat \<Rightarrow> ckind) \<Rightarrow> memo \<Rightarrow> bool" where
  "memo_ok kind mm = (\<forall>t b. mm t = Some b \<longrightarrow> b = has_ptr kind t)"

definition field_rank :: "(nat \<Rightarrow> ckind) \<Rightarrow> (nat \<Rightarrow> nat) \<Rightarrow> bool" where
  "field_rank kind rk = (\<forall>t fs f. kind t = Fields fs \<longrightarrow> f \<in> set fs \<longrightarrow> rk f < rk t)"

lemma memo_ok_upd: "memo_ok kind mm \<Longrightarrow> memo_ok kind (mm(t \<mapsto> has_ptr kind t))"
  by (simp add: memo_ok_def)

lemma hasPointers_ok:
  "(rk t < n \<longrightarrow> field_rank kind rk \<longrightarrow> memo_ok kind mm \<longrightarrow>
      (\<exists>mm'. hasPointers n kind t mm = Inr (has_ptr kind t, mm') \<and> memo_ok kind mm'))"
  "((\<forall>f \<in> set fs. rk f < n) \<longrightarrow> field_rank kind rk \<longrightarrow> memo_ok kind mm \<longrightarrow>
      (\<exists>mm'. fieldsHavePointers n kind fs mm = Inr (\<exists>f \<in> set fs. has_ptr kind f, mm') \<and> memo_ok kind mm'))"
proof (induction n kind t mm and n kind fs mm rule: hasPointers_fieldsHavePointers.induct)
  case (2 n kind t mm)
  show ?case
  proof (intro impI)
    assume a: "rk t < Suc n" "field_rank kind rk" "memo_ok kind mm"
    show "\<exists>mm'. hasPointers (Suc n) kind t mm = Inr (has_ptr kind t, mm') \<and> memo_ok kind mm'"
    proof (cases "mm t")
      case (Some b)
      with a(3) show ?thesis by (simp add: memo_ok_def)
    next
      case None
      show ?thesis
      proof (cases "kind t")
        case (Fields fs)
        with a have "\<forall>f \<in> set fs. rk f < n" by (fastforce simp: field_rank_def)
        with "2" None Fields a obtain mm' where
          "fieldsHavePointers n kind fs mm = Inr (\<exists>f \<in> set fs. has_ptr kind f, mm')" "memo_ok kind mm'"
          by blast
        with None Fields show ?thesis
          using has_ptr_simps(3) [of kind t fs] memo_ok_upd [of kind mm' t] by simp
      qed (use None a(3) has_ptr_simps memo_ok_upd [of kind mm t] in auto)
    qed
  qed
next
  case (4 n kind f fs mm)
  show ?case
  proof (intro impI)
    assume a: "\<forall>f \<in> set (f # fs). rk f < n" "field_rank kind rk" "memo_ok kind mm"
    with "4.IH"(1) obtain mm1 where 1: "hasPointers n kind f mm = Inr (has_ptr kind f, mm1)"
      "memo_ok kind mm1" by auto
    show "\<exists>mm'. fieldsHavePointers n kind (f # fs) mm
        = Inr (\<exists>f \<in> set (f # fs). has_ptr kind f, mm') \<and> memo_ok kind mm'"
    proof (cases "has_ptr kind f")
      case False
      with "4.IH"(2) [OF 1(1)] 1 a show ?thesis by auto
    qed (use 1 in auto)
  qed
qed auto

definition size_ok :: "pyclass \<Rightarrow> bool" where
  "size_ok c = (c_have_definition c \<longrightarrow>
     c_sizeof c = c_native_size c \<or> c_sizeof c = 0 \<and> c_native_size c = 1)"

definition offsets_ok :: "pyclass \<Rightarrow> bool" where
  "offsets_ok c = (\<forall>fs offs i z. c_fields c = Some fs \<longrightarrow> c_offsets c = Some offs \<longrightarrow>
     i < length fs \<longrightarrow> i < length offs \<longrightarrow> offs ! i = Some z \<longrightarrow> z \<noteq> - 1 \<longrightarrow>
     c_field_offset c (fst (fs ! i)) = z)"

definition allowed_unaligned :: "pyclass \<Rightarrow> string \<Rightarrow> bool" where
  "allowed_unaligned c nm = (case c_allow_unaligned c of
     None \<Rightarrow> False | Some AllowAll \<Rightarrow> True | Some (AllowNames ns) \<Rightarrow> nm \<in> set ns)"

definition ptr_field_ok ::
  "(nat \<Rightarrow> ckind) \<Rightarrow> (nat \<Rightarrow> int) \<Rightarrow> pyclass \<Rightarrow> (string \<Rightarrow> bool) \<Rightarrow> string \<times> nat \<Rightarrow> bool"
where
  "ptr_field_ok kind alignment c allowed f = (case f of (nm, ty) \<Rightarrow>
     has_ptr kind ty \<longrightarrow> alignment ty \<noteq> 0 \<longrightarrow> \<not> allowed nm \<longrightarrow>
     c_field_offset c nm mod alignment ty = 0)"

lemma ptr_field_ok_pair [simp]:
  "ptr_field_ok kind alignment c allowed (nm, ty) \<longleftrightarrow>
     (has_ptr kind ty \<longrightarrow> alignment ty \<noteq> 0 \<longrightarrow> \<not> allowed nm \<longrightarrow> c_field_offset c nm mod alignment ty = 0)"
  by (simp add: ptr_field_ok_def)

definition pointers_ok :: "(nat \<Rightarrow> ckind) \<Rightarrow> (nat \<Rightarrow> int) \<Rightarrow> pyclass \<Rightarrow> bool" where
  "pointers_ok kind alignment c = (case c_fields c of None \<Rightarrow> True
     | Some fs \<Rightarrow> list_all (ptr_field_ok kind alignment c (allowed_unaligned c)) fs)"

lemma checkSize_ok: "checkSize c = [] \<longleftrightarrow> size_ok c"
  by (simp add: checkSize_def size_ok_def)

lemma offset_errors_ok:
  "offset_errors c xs = [] \<longleftrightarrow>
     (\<forall>(f, off) \<in> set xs. \<forall>z. off = Some z \<longrightarrow> z \<noteq> - 1 \<longrightarrow> c_field_offset c (fst f) = z)"
  by (induction c xs rule: offset_errors.induct) (auto simp: Let_def split: option.splits)

lemma checkOffsets_ok: "checkOffsets c = [] \<longleftrightarrow> offsets_ok c"
proof (cases "c_fields c = None \<or> c_offsets c = None")
  case True
  then show ?thesis by (auto simp: checkOffsets_def offsets_ok_def split: option.splits)
next
  case False
  then obtain fs offs where fo: "c_fields c = Some fs" "c_offsets c = Some offs" by auto
  have "offset_errors c (zip fs offs) = [] \<longleftrightarrow>
      (\<forall>i. i < length fs \<and> i < length offs \<longrightarrow>
        (\<forall>z. offs ! i = Some z \<longrightarrow> z \<noteq> - 1 \<longrightarrow> c_field_offset c (fst (fs ! i)) = z))"
    by (simp add: offset_errors_ok all_set_conv_all_nth)
  with fo show ?thesis by (auto simp: checkOffsets_def offsets_ok_def)
qed

lemma unaligned_loop_ok:
  assumes "field_rank kind rk" and "\<forall>(nm, ty) \<in> set fs. rk ty < n" and "memo_ok kind mm"
  shows "\<exists>es mm'. unaligned_loop n kind alignment c allowed fs mm = Inr (es, mm') \<and> memo_ok kind mm'
    \<and> (es = [] \<longleftrightarrow> list_all (ptr_field_ok kind alignment c (\<lambda>nm. nm \<in> set allowed)) fs)"
  using assms(2,3)
proof (induction fs arbitrary: mm)
  case (Cons f fs)
  obtain nm ty where f: "f = (nm, ty)" by (cases f)
  show ?case
  proof (cases "alignment ty = 0 \<or> c_field_offset c nm mod alignment ty = 0")
    case True
    then have "ptr_field_ok kind alignment c (\<lambda>nm. nm \<in> set allowed) f"
      by (auto simp: f)
    with True Cons f show ?thesis by (simp add: Let_def)
  next
    case False
    obtain mm1 where 1: "hasPointers n kind ty mm = Inr (has_ptr kind ty, mm1)" "memo_ok kind mm1"
      using hasPointers_ok(1) [of rk ty n kind mm] Cons.prems assms(1) f by auto
    with Cons.IH [of mm1] Cons.prems obtain es mm2 where
      "unaligned_loop n kind alignment c allowed fs mm1 = Inr (es, mm2)" "memo_ok kind mm2"
      "es = [] \<longleftrightarrow> list_all (ptr_field_ok kind alignment c (\<lambda>nm. nm \<in> set allowed)) fs" by auto
    with 1 False f show ?thesis by (auto simp: Let_def)
  qed
qed simp

definition class_ok :: "(nat \<Rightarrow> ckind) \<Rightarrow> (nat \<Rightarrow> int) \<Rightarrow> pyclass \<Rightarrow> bool" where
  "class_ok kind alignment c = (size_ok c \<and> offsets_ok c \<and> pointers_ok kind alignment c)"

definition class_depth :: "(nat \<Rightarrow> nat) \<Rightarrow> nat \<Rightarrow> pyclass \<Rightarrow> bool" where
  "class_depth rk n c = (case c_fields c of None \<Rightarrow> True | Some fs \<Rightarrow> list_all (\<lambda>(nm, ty). rk ty < n) fs)"

lemma test_class_ok:
  assumes "field_rank kind rk" and "class_depth rk n c" and "memo_ok kind mm"
  shows "\<exists>es mm'. test_class n kind alignment c (errs, mm) = Inr (errs @ es, mm') \<and> memo_ok kind mm'
    \<and> (es = [] \<longleftrightarrow> class_ok kind alignment c)"
proof -
  have "\<exists>es mm'. checkUnalignedPtrs n kind alignment c mm = Inr (es, mm') \<and> memo_ok kind mm'
    \<and> (es = [] \<longleftrightarrow> pointers_ok kind alignment c)"
  proof (cases "c_fields c")
    case None
    with assms(3) show ?thesis by (simp add: checkUnalignedPtrs_def pointers_ok_def)
  next
    case (Some fs)
    then have d: "\<forall>(nm, ty) \<in> set fs. rk ty < n"
      using assms(2) by (simp add: class_depth_def list_all_iff)
    note loop = unaligned_loop_ok [OF assms(1) d assms(3), of alignment c]
    show ?thesis
    proof (cases "c_allow_unaligned c")
      case None
      then have "allowed_unaligned c = (\<lambda>_. False)" by (intro ext) (simp add: allowed_unaligned_def)
      with None loop [of "[]"] Some show ?thesis
        by (simp add: checkUnalignedPtrs_def pointers_ok_def)
    next
      case (Some al)
      show ?thesis
      proof (cases al)
        case AllowAll
        with Some \<open>c_fields c = Some fs\<close> assms(3) show ?thesis
          by (simp add: checkUnalignedPtrs_def pointers_ok_def allowed_unaligned_def ptr_field_ok_def
              list_all_iff split: prod.split)
      next
        case (AllowNames ns)
        with Some have "allowed_unaligned c = (\<lambda>nm. nm \<in> set ns)"
          by (intro ext) (simp add: allowed_unaligned_def)
        with AllowNames loop [of ns] Some \<open>c_fields c = Some fs\<close> show ?thesis
          by (simp add: checkUnalignedPtrs_def pointers_ok_def)
      qed
    qed
  qed
  then show ?thesis
    by (auto simp: test_class_def class_ok_def checkOffsets_ok checkSize_ok)
qed

lemma test_each_ok:
  assumes "field_rank kind rk"
  shows "list_all (class_depth rk n) cs \<Longrightarrow> memo_ok kind mm \<Longrightarrow>
    \<exists>es mm'. test_each n kind alignment cs (errs, mm) = Inr (errs @ es, mm') \<and> memo_ok kind mm'
      \<and> (es = [] \<longleftrightarrow> (\<forall>c \<in> set cs. class_ok kind alignment c))"
proof (induction cs arbitrary: errs mm)
  case (Cons c cs)
  then obtain es1 mm1 where 1: "test_class n kind alignment c (errs, mm) = Inr (errs @ es1, mm1)"
    "memo_ok kind mm1" "es1 = [] \<longleftrightarrow> class_ok kind alignment c"
    using test_class_ok [OF assms, of n c mm alignment errs] by auto
  from Cons.IH [OF _ 1(2), of "errs @ es1"] Cons.prems obtain es2 mm2 where
    "test_each n kind alignment cs (errs @ es1, mm1) = Inr ((errs @ es1) @ es2, mm2)"
    "memo_ok kind mm2" "es2 = [] \<longleftrightarrow> (\<forall>c \<in> set cs. class_ok kind alignment c)" by auto
  with 1 show ?case by (intro exI [of _ "es1 @ es2"]) auto
qed simp

section \<open>Properties\<close>

text \<open>C18: \<open>hasPointers\<close> with its memo table answers whether a pointer is found in the type by
  following fields to any depth, for every consistent table, and leaves the table consistent.\<close>

theorem hasPointers_correct:
  assumes "field_rank kind rk" and "rk t < n" and "memo_ok kind mm"
  shows "\<exists>mm'. hasPointers n kind t mm = Inr (has_ptr kind t, mm') \<and> memo_ok kind mm'"
  using hasPointers_ok(1) [of rk t n kind mm] assms by blast

definition ex_kind :: "nat \<Rightarrow> ckind" where
  "ex_kind t = (if t = 2 then Fields [0, 1] else if t = 3 then Fields [0, 2] else if t = 1 then Pointer else Other)"

lemma ex_kind_rank: "field_rank ex_kind id"
  by (auto simp: field_rank_def ex_kind_def split: if_splits)

theorem hasPointers_correct_witness:
  "\<exists>mm'. hasPointers 4 ex_kind 3 Map.empty = Inr (has_ptr ex_kind 3, mm') \<and> memo_ok ex_kind mm'"
  by (rule hasPointers_correct [OF ex_kind_rank]) (simp_all add: memo_ok_def)

text \<open>C14: loading a generated module succeeds exactly if every one of its classes has the size of
  the debug data (an empty C++ class may have size 0), every recorded offset, and no unaligned
  pointer that was not allowed; otherwise \<open>test_classes\<close> raises.\<close>

theorem test_classes_decides:
  assumes "field_rank kind rk" and "list_all (class_depth rk n) classes"
  shows "(\<exists>out s. test_classes n kind alignment classes failed ([], Map.empty) = Inr (out, s))
    \<longleftrightarrow> (\<forall>c \<in> set classes. class_ok kind alignment c)"
  using test_each_ok [OF assms(1), of n classes Map.empty alignment "[]"] assms(2)
  by (auto simp: memo_ok_def test_classes_def)

definition ex_class :: pyclass where
  "ex_class = \<lparr>c_name = ''S'', c_str = ''<class S>'', c_fields = Some [(''p'', 1), (''i'', 0)],
     c_field_offset = (\<lambda>nm. if nm = ''i'' then 8 else 0), c_sizeof = 16, c_have_definition = True,
     c_native_size = 16, c_offsets = Some [Some 0, Some 8], c_allow_unaligned = None\<rparr>"

theorem test_classes_decides_witness:
  "(\<exists>out s. test_classes 2 ex_kind (\<lambda>_. 8) [ex_class] [] ([], Map.empty) = Inr (out, s))
    \<longleftrightarrow> (\<forall>c \<in> set [ex_class]. class_ok ex_kind (\<lambda>_. 8) c)"
  by (rule test_classes_decides [OF ex_kind_rank]) (simp add: ex_class_def class_depth_def)

end
