(* ===== verification/StateExn.thy ===== *)
theory StateExn
  imports Prelude
begin

text \<open>
  Code that reads and changes the state of the generator and may raise: a computation takes the
  state and gives an exception or a result with the new state.  Two relations carry the
  proofs: \<open>keeps R\<close>, every successful run relates the old state to the new one by \<open>R\<close> (an
  invariant is the \<open>R\<close> that says it is kept), and \<open>approx\<close>, one computation is another one cut
  short by fuel.  Both go through all the ways of putting computations together, which the
  two locales state once.
\<close>

section \<open>Computations\<close>

type_synonym ('s, 'a) comp = "'s \<Rightarrow> ('a \<times> 's) res"

definition ret :: "'a \<Rightarrow> ('s, 'a) comp" where
  "ret x = (\<lambda>s. Inr (x, s))"

definition raise :: "pyexn \<Rightarrow> ('s, 'a) comp" where
  "raise e = (\<lambda>s. Inl e)"

definition sbind :: "('s, 'a) comp \<Rightarrow> ('a \<Rightarrow> ('s, 'b) comp) \<Rightarrow> ('s, 'b) comp" where
  "sbind m f = (\<lambda>s. case m s of Inl e \<Rightarrow> Inl e | Inr (x, s') \<Rightarrow> f x s')"

definition gets :: "('s \<Rightarrow> 'a) \<Rightarrow> ('s, 'a) comp" where
  "gets f = (\<lambda>s. Inr (f s, s))"

definition modify :: "('s \<Rightarrow> 's) \<Rightarrow> ('s, unit) comp" where
  "modify f = (\<lambda>s. Inr ((), f s))"

definition lift :: "'a res \<Rightarrow> ('s, 'a) comp" where
  "lift r = (\<lambda>s. case r of Inl e \<Rightarrow> Inl e | Inr x \<Rightarrow> Inr (x, s))"

definition andthen :: "('s, 'a) comp \<Rightarrow> ('s, 'b) comp \<Rightarrow> ('s, 'b) comp" where
  "andthen m k = sbind m (\<lambda>_. k)"

text \<open>Loops over lists: run for effect, fold with an accumulator, stop at the first false.\<close>

fun forM :: "'a list \<Rightarrow> ('a \<Rightarrow> ('s, unit) comp) \<Rightarrow> ('s, unit) comp" where
  "forM [] f = ret ()"
| "forM (x # xs) f = sbind (f x) (\<lambda>_. forM xs f)"

fun foldM :: "('b \<Rightarrow> 'a \<Rightarrow> ('s, 'b) comp) \<Rightarrow> 'b \<Rightarrow> 'a list \<Rightarrow> ('s, 'b) comp" where
  "foldM f acc [] = ret acc"
| "foldM f acc (x # xs) = sbind (f acc x) (\<lambda>acc. foldM f acc xs)"

fun allM :: "('a \<Rightarrow> ('s, bool) comp) \<Rightarrow> 'a list \<Rightarrow> ('s, bool) comp" where
  "allM f [] = ret True"
| "allM f (x # xs) = sbind (f x) (\<lambda>b. if b then allM f xs else ret False)"

section \<open>Running\<close>

named_theorems run_simps \<open>running computations on a state\<close>

lemma ret_run [simp, run_simps]: "ret x s = Inr (x, s)"
  by (simp add: ret_def)

lemma raise_run [simp, run_simps]: "raise e s = Inl e"
  by (simp add: raise_def)

lemma gets_run [simp, run_simps]: "gets f s = Inr (f s, s)"
  by (simp add: gets_def)

lemma modify_run [simp, run_simps]: "modify f s = Inr ((), f s)"
  by (simp add: modify_def)

lemma lift_run [simp, run_simps]: "lift (Inl e) s = Inl e" "lift (Inr x) s = Inr (x, s)"
  by (simp_all add: lift_def)

lemma lift_eq_Inr: "lift r s = Inr (x, s') \<longleftrightarrow> r = Inr x \<and> s' = s"
  by (cases r) auto

lemma sbind_run_Inl [run_simps]: "m s = Inl e \<Longrightarrow> sbind m f s = Inl e"
  by (simp add: sbind_def)

lemma sbind_run_Inr [run_simps]: "m s = Inr (x, s') \<Longrightarrow> sbind m f s = f x s'"
  by (simp add: sbind_def)

lemma sbind_eq_Inr: "sbind m f s = Inr r \<longleftrightarrow> (\<exists>x s'. m s = Inr (x, s') \<and> f x s' = Inr r)"
  by (auto simp: sbind_def split: sum.splits)

lemma sbind_ret_left [simp, run_simps]: "sbind (ret x) f = f x"
  by (rule ext) (simp add: sbind_def)

lemma sbind_raise [simp, run_simps]: "sbind (raise e) f = raise e"
  by (rule ext) (simp add: sbind_def)

lemma sbind_ret_right [simp]: "sbind m ret = m"
  by (rule ext) (simp add: sbind_def split: sum.splits)

lemma sbind_assoc: "sbind (sbind m f) g = sbind m (\<lambda>x. sbind (f x) g)"
  by (rule ext) (auto simp: sbind_def split: sum.splits)

lemma sbind_gets_run [simp, run_simps]: "sbind (gets f) g s = g (f s) s"
  by (simp add: sbind_def)

lemma sbind_modify_run [simp, run_simps]: "sbind (modify f) g s = g () (f s)"
  by (simp add: sbind_def)

lemma sbind_lift_Inr [simp, run_simps]: "sbind (lift (Inr x)) f = f x"
  by (rule ext) (simp add: sbind_def)

lemma sbind_lift_Inl [simp, run_simps]: "sbind (lift (Inl e)) f = raise e"
  by (rule ext) (simp add: sbind_def)

lemma andthen_run: "andthen m k s = (case m s of Inl e \<Rightarrow> Inl e | Inr (x, s') \<Rightarrow> k s')"
  by (simp add: andthen_def sbind_def)

section \<open>What a computation keeps\<close>

definition keeps :: "('s \<Rightarrow> 's \<Rightarrow> bool) \<Rightarrow> ('s, 'a) comp \<Rightarrow> bool" where
  "keeps R m = (\<forall>s x s'. m s = Inr (x, s') \<longrightarrow> R s s')"

lemma keepsD: "keeps R m \<Longrightarrow> m s = Inr (x, s') \<Longrightarrow> R s s'"
  unfolding keeps_def by blast

lemma keepsI: "(\<And>s x s'. m s = Inr (x, s') \<Longrightarrow> R s s') \<Longrightarrow> keeps R m"
  unfolding keeps_def by blast

text \<open>Only reflexive and transitive relations can be kept by sequences of steps.\<close>

locale step_relation =
  fixes R :: "'s \<Rightarrow> 's \<Rightarrow> bool"
  assumes R_refl: "R s s"
    and R_trans: "R s t \<Longrightarrow> R t u \<Longrightarrow> R s u"
begin

lemma keeps_ret: "keeps R (ret x)"
  by (simp add: keeps_def R_refl)

lemma keeps_raise: "keeps R (raise e)"
  by (simp add: keeps_def)

lemma keeps_unfolded: "keeps R (\<lambda>s. Inr (x, s))" "keeps R (\<lambda>s. Inl e)"
  by (simp_all add: keeps_def R_refl)

lemma keeps_gets: "keeps R (gets f)"
  by (simp add: keeps_def R_refl)

lemma keeps_lift: "keeps R (lift r)"
  by (simp add: keeps_def lift_eq_Inr R_refl)

lemma keeps_modify: "(\<And>s. R s (f s)) \<Longrightarrow> keeps R (modify f)"
  by (simp add: keeps_def)

lemma keeps_sbind: "keeps R m \<Longrightarrow> (\<And>x. keeps R (f x)) \<Longrightarrow> keeps R (sbind m f)"
  unfolding keeps_def sbind_eq_Inr by (blast intro: R_trans)

lemma keeps_andthen: "keeps R m \<Longrightarrow> keeps R k \<Longrightarrow> keeps R (andthen m k)"
  unfolding andthen_def by (rule keeps_sbind)

lemma keeps_if: "(b \<Longrightarrow> keeps R m) \<Longrightarrow> (\<not> b \<Longrightarrow> keeps R k) \<Longrightarrow> keeps R (if b then m else k)"
  by simp

lemma keeps_option: "keeps R m \<Longrightarrow> (\<And>x. keeps R (f x)) \<Longrightarrow>
    keeps R (case y of None \<Rightarrow> m | Some x \<Rightarrow> f x)"
  by (simp split: option.split)

lemma keeps_prod: "(\<And>x y. keeps R (f x y)) \<Longrightarrow> keeps R (case p of (x, y) \<Rightarrow> f x y)"
  by (simp split: prod.split)

lemma keeps_forM: "(\<And>x. keeps R (f x)) \<Longrightarrow> keeps R (forM xs f)"
  by (induction xs) (auto intro: keeps_sbind keeps_ret)

lemma keeps_foldM: "(\<And>acc x. keeps R (f acc x)) \<Longrightarrow> keeps R (foldM f acc xs)"
  by (induction xs arbitrary: acc) (auto intro: keeps_sbind keeps_ret)

lemma keeps_allM: "(\<And>x. keeps R (f x)) \<Longrightarrow> keeps R (allM f xs)"
  by (induction xs) (simp_all add: keeps_sbind keeps_if keeps_ret)

lemmas keeps_intros = keeps_ret keeps_raise keeps_unfolded keeps_gets keeps_lift keeps_sbind keeps_andthen
  keeps_if keeps_option keeps_prod keeps_forM keeps_foldM keeps_allM

end

section \<open>Cut short by fuel\<close>

definition approx :: "('s, 'a) comp \<Rightarrow> ('s, 'a) comp \<Rightarrow> bool" where
  "approx m m' = (\<forall>s. m s = Inl NonTermination \<or> m s = m' s)"

lemma approx_refl: "approx m m"
  by (simp add: approx_def)

lemma approx_bot: "approx (raise NonTermination) m"
  by (simp add: approx_def)

lemma approx_bot': "approx (\<lambda>s. Inl NonTermination) m"
  by (simp add: approx_def)

lemma approx_sbind: "approx m m' \<Longrightarrow> (\<And>x. approx (f x) (f' x)) \<Longrightarrow> approx (sbind m f) (sbind m' f')"
proof -
  assume m: "approx m m'" and f: "\<And>x. approx (f x) (f' x)"
  have "sbind m f s = Inl NonTermination \<or> sbind m f s = sbind m' f' s" for s
  proof (cases "m s")
    case (Inl e)
    with m have "e = NonTermination \<or> m' s = Inl e" by (metis approx_def sum.inject(1))
    with Inl show ?thesis by (auto simp: sbind_def)
  next
    case (Inr r)
    with m have "m' s = Inr r" by (metis approx_def sum.distinct(1))
    moreover have "f (fst r) (snd r) = Inl NonTermination \<or> f (fst r) (snd r) = f' (fst r) (snd r)"
      using f unfolding approx_def by blast
    ultimately show ?thesis using Inr by (cases r) (simp add: sbind_def)
  qed
  then show ?thesis by (simp add: approx_def)
qed

lemma approx_andthen: "approx m m' \<Longrightarrow> approx k k' \<Longrightarrow> approx (andthen m k) (andthen m' k')"
  unfolding andthen_def by (rule approx_sbind)

lemma approx_if: "(b \<Longrightarrow> approx m m') \<Longrightarrow> (\<not> b \<Longrightarrow> approx k k') \<Longrightarrow>
    approx (if b then m else k) (if b then m' else k')"
  by simp

lemma approx_option: "approx m m' \<Longrightarrow> (\<And>x. approx (f x) (f' x)) \<Longrightarrow>
    approx (case y of None \<Rightarrow> m | Some x \<Rightarrow> f x) (case y of None \<Rightarrow> m' | Some x \<Rightarrow> f' x)"
  by (simp split: option.split)

lemma approx_prod: "(\<And>x y. approx (f x y) (f' x y)) \<Longrightarrow>
    approx (case p of (x, y) \<Rightarrow> f x y) (case p of (x, y) \<Rightarrow> f' x y)"
  by (simp split: prod.split)

lemma approx_forM: "(\<And>x. approx (f x) (f' x)) \<Longrightarrow> approx (forM xs f) (forM xs f')"
  by (induction xs) (auto intro: approx_sbind approx_refl)

lemma approx_foldM: "(\<And>acc x. approx (f acc x) (f' acc x)) \<Longrightarrow> approx (foldM f acc xs) (foldM f' acc xs)"
  by (induction xs arbitrary: acc) (auto intro: approx_sbind approx_refl)

lemma approx_allM: "(\<And>x. approx (f x) (f' x)) \<Longrightarrow> approx (allM f xs) (allM f' xs)"
  by (induction xs) (simp_all add: approx_sbind approx_if approx_refl)

lemmas approx_intros = approx_bot approx_bot' approx_sbind approx_andthen approx_if approx_option approx_prod
  approx_forM approx_foldM approx_allM approx_refl

lemma approxD: "approx m m' \<Longrightarrow> m s \<noteq> Inl NonTermination \<Longrightarrow> m' s = m s"
  unfolding approx_def by metis

end
