(* ===== verification/Statements.thy ===== *)
theory Statements
  imports Layout
begin

text \<open>
  The statements of a generated module that belong to a type, one constructor per kind of
  statement that the \<open>declare\<close> and \<open>define\<close> methods of \<open>CTypeGen/__init__.py\<close> write, and the
  text of each.  The generator writes text directly; keeping the statements apart lets the
  properties speak of what is written when, and \<open>render\<close> gives back the text.
\<close>

section \<open>Statements\<close>

text \<open>The lines in the body of an enumeration.\<close>

datatype enum_line = EComment string | EValue string int

datatype stmt =
    SClass string string "string list" string
  | SBlank
  | SNativeSize string int
  | SHaveDefinition string
  | SAllowAll string
  | SAllowNames string "string list"
  | SFieldsPre string "row list"
  | SPack string string
  | SAnonymous string "string list"
  | SFields string
  | SOffsets string "int option list"
  | SBrokenUnion string
  | STypedef string string string
  | SEnum string string bool "enum_line list"

definition is_class :: "stmt \<Rightarrow> bool" where
  "is_class x = (case x of SClass _ _ _ _ \<Rightarrow> True | _ \<Rightarrow> False)"

definition is_typedef :: "stmt \<Rightarrow> bool" where
  "is_typedef x = (case x of STypedef _ _ _ \<Rightarrow> True | _ \<Rightarrow> False)"

definition is_fields :: "stmt \<Rightarrow> bool" where
  "is_fields x = (case x of SFieldsPre _ _ \<Rightarrow> True | _ \<Rightarrow> False)"

section \<open>Text\<close>

definition nl :: string where
  "nl = [CHR 0x0a]"

definition quoted :: "string \<Rightarrow> string" where
  "quoted s = CHR 0x27 # s @ [CHR 0x27]"

text \<open>Python's \<open>str\<close> of a list of identifiers.\<close>

definition show_names :: "string list \<Rightarrow> string" where
  "show_names ns = ''['' @ join '', '' (map quoted ns) @ '']''"

definition hex_char :: "nat \<Rightarrow> char" where
  "hex_char d = ''0123456789abcdef'' ! d"

fun hex_digits :: "nat \<Rightarrow> string" where
  "hex_digits n = (if n < 16 then [hex_char n] else hex_digits (n div 16) @ [hex_char (n mod 16)])"

declare hex_digits.simps [simp del]

definition show_hex :: "int \<Rightarrow> string" where
  "show_hex i = (if i < 0 then ''-0x'' @ hex_digits (nat (- i)) else ''0x'' @ hex_digits (nat i))"

definition render_row :: "row \<Rightarrow> string" where
  "render_row r = ''   ( \"'' @ row_name r @ ''\", '' @ row_type r
     @ (case row_bits r of
          Some b \<Rightarrow> '', '' @ show_int b @ '' )''
        | None \<Rightarrow> if row_name r = ''__trailing_pad'' then '')'' else '' )'')
     @ '','' @ nl"

text \<open>The offset list breaks the line after every tenth entry; the break is counted before a
  padding entry and after the entry of a member.\<close>

definition offset_sep :: "nat \<Rightarrow> string" where
  "offset_sep memberCount = (if memberCount mod 10 \<noteq> 0 then '', '' else '','' @ nl @ ''    '')"

fun render_offsets :: "string \<Rightarrow> nat \<Rightarrow> int option list \<Rightarrow> string" where
  "render_offsets sep memberCount [] = []"
| "render_offsets sep memberCount (off # offs) =
     (case off of
        Some z \<Rightarrow> sep @ show_int z
          @ render_offsets (offset_sep (if z = - 1 then memberCount else memberCount + 1))
              (memberCount + 1) offs
      | None \<Rightarrow> sep @ ''None'' @ render_offsets (offset_sep (memberCount + 1)) (memberCount + 1) offs)"

definition render_enum_line :: "string \<Rightarrow> string \<Rightarrow> enum_line \<Rightarrow> string" where
  "render_enum_line indent intType l =
     (case l of
        EComment c \<Rightarrow> indent @ c @ nl
      | EValue name v \<Rightarrow> indent @ name @ '' = '' @ intType @ ''('' @ show_int v @ '').value # ''
          @ show_hex v @ nl)"

definition is_value :: "enum_line \<Rightarrow> bool" where
  "is_value l = (case l of EValue _ _ \<Rightarrow> True | _ \<Rightarrow> False)"

fun render :: "stmt \<Rightarrow> string" where
  "render (SClass py base mixins comment) =
     nl @ ''class '' @ py @ ''( '' @ base @ '', TestableCtypeClass''
     @ concat (map (\<lambda>m. '', '' @ m) mixins) @ '' ):'' @ nl
     @ (if comment \<noteq> [] then ''   '' @ comment @ nl else [])
     @ ''   pass'' @ nl @ nl"
| "render SBlank = nl"
| "render (SNativeSize py z) = py @ ''._ctypegen_native_size = '' @ show_int z @ nl"
| "render (SHaveDefinition py) = py @ ''._ctypegen_have_definition = True'' @ nl"
| "render (SAllowAll py) = py @ ''.allow_unaligned = True'' @ nl"
| "render (SAllowNames py ns) = py @ ''.allow_unaligned = '' @ show_names ns @ nl"
| "render (SFieldsPre py rs) =
     py @ ''._fields_pre = [ # pylint: disable=protected-access'' @ nl
     @ concat (map render_row rs) @ '']'' @ nl"
| "render (SPack py comment) = py @ ''._pack_ = 1 # '' @ comment @ nl"
| "render (SAnonymous py ns) =
     py @ ''._anonymous_ = ('' @ nl
     @ concat (map (\<lambda>n. ''   \"'' @ n @ ''\",'' @ nl) ns) @ ''   )'' @ nl"
| "render (SFields py) = py @ ''._fields_ = '' @ py @ ''._fields_pre'' @ nl"
| "render (SOffsets py offs) =
     py @ ''._ctypegen_offsets = [ '' @ render_offsets [] 0 offs @ '' ]'' @ nl @ nl"
| "render (SBrokenUnion py) =
     py @ ''._fields_ = [('' @ quoted ''__broken_transparent_union'' @ '', c_void_p)]'' @ nl"
| "render (STypedef name ctype comment) =
     name @ '' = '' @ (if 80 < length name + length ctype then '' '' @ [CHR 0x5c] @ nl @ ''   '' else '' '')
     @ ctype @ comment @ '' # typedef'' @ nl"
| "render (SEnum py intType nameless ls) =
     ''class '' @ py @ ''( '' @ intType @ '' ):'' @ nl
     @ pad 3 @ ''_ctypegen_have_definition = True'' @ nl
     @ (if nameless then ''# Values of '' @ py @ '' (nameless enum)'' @ nl else [])
     @ (let indent = (if nameless then [] else pad 3) in
        concat (map (render_enum_line indent intType) ls)
        @ (if filter is_value ls = [] then indent @ ''pass'' @ nl else []))
     @ nl @ nl"

definition render_all :: "('k \<times> stmt) list \<Rightarrow> string" where
  "render_all xs = concat (map (render \<circ> snd) xs)"

lemma render_all_append: "render_all (xs @ ys) = render_all xs @ render_all ys"
  by (simp add: render_all_def)

lemma stmt_kinds [simp]:
  "is_class (SClass py b m c)" "\<not> is_class SBlank" "\<not> is_class (SNativeSize py z)"
  "\<not> is_class (SHaveDefinition py)" "\<not> is_class (SAllowAll py)" "\<not> is_class (SAllowNames py ns)"
  "\<not> is_class (SFieldsPre py rs)" "\<not> is_class (SPack py t)" "\<not> is_class (SAnonymous py ns)"
  "\<not> is_class (SFields py)" "\<not> is_class (SOffsets py offs)" "\<not> is_class (SBrokenUnion py)"
  "\<not> is_class (STypedef py t u)" "\<not> is_class (SEnum py t nameless ls)"
  "is_fields (SFieldsPre py rs)" "\<not> is_fields SBlank" "\<not> is_fields (SNativeSize py z)"
  "\<not> is_fields (SHaveDefinition py)" "\<not> is_fields (SAllowAll py)" "\<not> is_fields (SAllowNames py ns)"
  "\<not> is_fields (SClass py b m c)" "\<not> is_fields (SPack py t)" "\<not> is_fields (SAnonymous py ns)"
  "\<not> is_fields (SFields py)" "\<not> is_fields (SOffsets py offs)" "\<not> is_fields (SBrokenUnion py)"
  "\<not> is_fields (STypedef py t u)" "\<not> is_fields (SEnum py t nameless ls)"
  by (simp_all add: is_class_def is_fields_def)

end
