(* ===== verification/TypeObjs.thy ===== *)
theory TypeObjs
  imports StateExn Statements
begin

text \<open>
  The type objects of \<open>CTypeGen/__init__.py\<close> (\<open>class Type\<close> and its subclasses) and the part of
  \<open>TypeResolver\<close> that finds them.  An object lives in the table \<open>types\<close> of the resolver under
  the full name and tag of the entry it was made for; \<open>heap\<close> is that table, and a reference to
  an object is its key, because the code mutates and shares the objects.  A method that reads
  the debug data may create objects and record errors, so the methods are computations on the
  state \<open>rstate\<close> of the resolver; those that follow types recursively take fuel.
\<close>

section \<open>Hints\<close>

text \<open>\<open>class Hint\<close> and \<open>class PythonType\<close>, which may contain each other: the type \<open>'p\<close> of the
  description in a hint is \<open>pytype\<close>.  A \<open>typename\<close> that is only a string is made a
  \<open>PythonType\<close> by \<open>PythonType( typedesc, None )\<close>.\<close>

datatype 'p hint_of = Hint
  (hint_typename: "'p option") (hint_name: "string option")
  (typeOverride: "string option") (allowUnaligned: bool)

datatype pytype = PythonType
  (pythonName: string) (cName: string) (py_base: "string option") (pack: bool)
  (py_mixins: "string list option") (nameless_enum: "bool option")
  (py_elements: "dwtag list option") (unalignedPtrs: bool) (fieldHints: "(string \<times> pytype hint_of) list")

type_synonym hint = "pytype hint_of"

section \<open>Objects and state\<close>

text \<open>The key of \<open>types[ fullname ][ tag ]\<close>.\<close>

datatype key = Key (key_name: "string list") (key_tag: dwtag)

datatype tkind =
    KTypedef | KPointer | KFunction | KStruct | KUnion | KPrim | KArray | KConst | KEnum
  | KVolatile | KFunctionDef | KRestrict | KExternal string

definition typeFromTag :: "dwtag \<Rightarrow> tkind option" where
  "typeFromTag = map_of [
     (DW_TAG_typedef, KTypedef),
     (DW_TAG_pointer_type, KPointer),
     (DW_TAG_reference_type, KPointer),
     (DW_TAG_rvalue_reference_type, KPointer),
     (DW_TAG_subroutine_type, KFunction),
     (DW_TAG_structure_type, KStruct),
     (DW_TAG_class_type, KStruct),
     (DW_TAG_union_type, KUnion),
     (DW_TAG_base_type, KPrim),
     (DW_TAG_array_type, KArray),
     (DW_TAG_const_type, KConst),
     (DW_TAG_enumeration_type, KEnum),
     (DW_TAG_volatile_type, KVolatile),
     (DW_TAG_subprogram, KFunctionDef),
     (DW_TAG_restrict_type, KRestrict),
     (DW_TAG_unspecified_type, KPointer),
     (DW_TAG_ptr_to_member_type, KPointer)]"

record tobj =
  ob_kind :: tkind
  ob_die :: nat
  ob_defdie :: "nat option"
  ob_defined :: bool
  ob_declared :: bool
  ob_members :: "member list"
  ob_superCount :: nat
  ob_alignment :: int
  ob_base :: string
  ob_mixins :: "string list"
  ob_packed :: bool
  ob_unalignedPtrs :: bool
  ob_nameless :: bool
  ob_dimensions :: "int list"

text \<open>A reference to a type: \<open>VoidType\<close> has no entry and is made afresh at every use.\<close>

datatype tref = VoidType | Obj key

text \<open>What surrounds a run of the generator: the debug data, the size of a pointer,
  \<open>findDefinition\<close> of each binary (\<open>libCTypeGen\<close>), the imported modules (name, and whether the
  module itself defines the type with a given Python name), and two switches.\<close>

record env =
  e_dw :: dwarf
  e_psz :: int
  e_find :: "(nat \<Rightarrow> nat option) list"
  e_existing :: "(string \<times> (string \<Rightarrow> bool)) list"
  e_deepInspect :: bool
  e_namelessEnums :: bool

text \<open>The state of \<open>TypeResolver\<close> with the stream it writes to and the errors reported.\<close>

record rstate =
  heap :: "key \<rightharpoonup> tobj"
  heap_keys :: "key list"
  out :: "(key \<times> stmt) list"
  errlog :: "string list"
  defineTypes :: "key list"
  definedNames :: "string list"
  found_variables :: "(string list \<times> nat option) list"
  found_functions :: "(string list \<times> nat option) list"
  producers :: "string list"
  applyHints :: "(tref \<times> pytype) list"
  allHintedTypes :: "(tref \<times> pytype) list"

definition rstate0 :: rstate where
  "rstate0 = \<lparr>heap = Map.empty, heap_keys = [], out = [], errlog = [], defineTypes = [],
     definedNames = [], found_variables = [], found_functions = [], producers = [], applyHints = [],
     allHintedTypes = []\<rparr>"

type_synonym 'a rcomp = "(rstate, 'a) comp"

section \<open>Access to the state\<close>

text \<open>The object of a key; a key is only ever made together with its object.\<close>

definition getobj :: "key \<Rightarrow> tobj rcomp" where
  "getobj k = sbind (gets (\<lambda>s. heap s k)) (\<lambda>x. lift (need TypeError x))"

definition install :: "key \<Rightarrow> tobj \<Rightarrow> unit rcomp" where
  "install k ob = modify (\<lambda>s. s\<lparr>heap := (heap s)(k \<mapsto> ob),
     heap_keys := (if k \<in> set (heap_keys s) then heap_keys s else heap_keys s @ [k])\<rparr>)"

definition updobj :: "key \<Rightarrow> (tobj \<Rightarrow> tobj) \<Rightarrow> unit rcomp" where
  "updobj k f = sbind (getobj k) (\<lambda>ob. modify (\<lambda>s. s\<lparr>heap := (heap s)(k \<mapsto> f ob)\<rparr>))"

definition errorfunc :: "string \<Rightarrow> unit rcomp" where
  "errorfunc txt = modify (\<lambda>s. s\<lparr>errlog := errlog s @ [txt]\<rparr>)"

definition write_stmt :: "key \<Rightarrow> stmt \<Rightarrow> unit rcomp" where
  "write_stmt k x = modify (\<lambda>s. s\<lparr>out := out s @ [(k, x)]\<rparr>)"

definition key_of :: "env \<Rightarrow> nat \<Rightarrow> key" where
  "key_of E d = Key (fullname (e_dw E d)) (dtag (e_dw E d))"

definition is_member_kind :: "tkind \<Rightarrow> bool" where
  "is_member_kind kd = (kd = KStruct \<or> kd = KUnion)"

definition new_obj :: "env \<Rightarrow> nat \<Rightarrow> tkind \<Rightarrow> tobj" where
  "new_obj E d kd = \<lparr>ob_kind = kd, ob_die = d, ob_defdie = None, ob_defined = False,
     ob_declared = False, ob_members = [], ob_superCount = 0, ob_alignment = 0,
     ob_base = (if kd = KStruct then ''Structure'' else if kd = KUnion then ''Union'' else []),
     ob_mixins = [], ob_packed = False, ob_unalignedPtrs = False,
     ob_nameless = e_namelessEnums E, ob_dimensions = []\<rparr>"

section \<open>Names\<close>

definition obj_name :: "env \<Rightarrow> tobj \<Rightarrow> bool \<Rightarrow> string" where
  "obj_name E ob withTag =
     (if ob_kind ob = KPrim then prim_ctype (e_psz E) (e_dw E) (ob_die ob)
      else flatName (e_dw E (ob_die ob)) withTag)"

definition obj_pyName :: "env \<Rightarrow> tobj \<Rightarrow> bool \<Rightarrow> string" where
  "obj_pyName E ob withTag =
     (let s = asPythonId_str (obj_name E ob withTag) in
      case ob_kind ob of KExternal m \<Rightarrow> m @ ''.'' @ s | _ \<Rightarrow> s)"

definition dieComment :: "env \<Rightarrow> tobj \<Rightarrow> string" where
  "dieComment E ob =
     (if obj_pyName E ob True = obj_name E ob True then [] else ''# DIE '' @ obj_name E ob True)"

definition type_name :: "env \<Rightarrow> tref \<Rightarrow> bool \<Rightarrow> string rcomp" where
  "type_name E t withTag =
     (case t of VoidType \<Rightarrow> ret ''void''
      | Obj k \<Rightarrow> sbind (getobj k) (\<lambda>ob. ret (obj_name E ob withTag)))"

definition type_pyName :: "env \<Rightarrow> tref \<Rightarrow> bool \<Rightarrow> string rcomp" where
  "type_pyName E t withTag =
     (case t of VoidType \<Rightarrow> ret (asPythonId_str ''void'')
      | Obj k \<Rightarrow> sbind (getobj k) (\<lambda>ob. ret (obj_pyName E ob withTag)))"

section \<open>Definitions\<close>

fun find_first :: "(nat \<Rightarrow> nat option) list \<Rightarrow> nat \<Rightarrow> nat option" where
  "find_first [] d = None"
| "find_first (f # fs) d = (case f d of None \<Rightarrow> find_first fs d | Some x \<Rightarrow> Some x)"

text \<open>\<open>Type.definition\<close> on an object that need not be in the table yet; the caller records the
  answer in \<open>defdie\<close>.\<close>

definition resolve_definition :: "env \<Rightarrow> tobj \<Rightarrow> nat rcomp" where
  "resolve_definition E ob =
     (case ob_defdie ob of
        Some f \<Rightarrow> ret f
      | None \<Rightarrow>
          let d = ob_die ob in
          if \<not> DW_AT_declaration (e_dw E d) then ret d
          else (case find_first (e_find E) d of
              Some f \<Rightarrow> ret f
            | None \<Rightarrow>
                andthen (errorfunc (''failed to find definition for '' @ join ''::'' (fullname (e_dw E d))
                  @ '' - will fall back to using declaration''))
                (ret d)))"

definition definition_of :: "env \<Rightarrow> key \<Rightarrow> nat rcomp" where
  "definition_of E k =
     sbind (getobj k) (\<lambda>ob.
     sbind (resolve_definition E ob) (\<lambda>f.
     andthen (updobj k (\<lambda>ob. ob\<lparr>ob_defdie := Some f\<rparr>)) (ret f)))"

section \<open>From entries to types\<close>

text \<open>The first imported module that has a defined type of this name.\<close>

fun find_external :: "(string \<times> (string \<Rightarrow> bool)) list \<Rightarrow> string \<Rightarrow> string option" where
  "find_external [] pyIdent = None"
| "find_external ((m, has) # ms) pyIdent = (if has pyIdent then Some m else find_external ms pyIdent)"

definition external_module :: "env \<Rightarrow> nat \<Rightarrow> string option" where
  "external_module E d =
     (if DW_AT_name (e_dw E d) \<noteq> None
      then find_external (e_existing E) (asPythonId_str (flatName (e_dw E d) True)) else None)"

definition unknown_tag :: "dwarf \<Rightarrow> nat option \<Rightarrow> bool" where
  "unknown_tag D d = (case d of None \<Rightarrow> False | Some i \<Rightarrow> typeFromTag (dtag (D i)) = None)"

definition known_entry :: "dwarf \<Rightarrow> nat \<Rightarrow> (nat \<times> tkind) res" where
  "known_entry D d =
     bnd (run_while (unknown_tag D) (next_type D) (Some d)) (\<lambda>r.
     bnd (need AttributeError r) (\<lambda>i.
     bnd (need TypeError (typeFromTag (dtag (D i)))) (\<lambda>kd. Inr (i, kd))))"

fun dieToType :: "env \<Rightarrow> nat \<Rightarrow> nat option \<Rightarrow> tref rcomp" where
  "dieToType E n None = ret VoidType"
| "dieToType E 0 (Some d) = raise NonTermination"
| "dieToType E (Suc n) (Some d) =
     (let k = key_of E d in
      sbind (gets (\<lambda>s. heap s k)) (\<lambda>known.
      case known of
        Some _ \<Rightarrow> ret (Obj k)
      | None \<Rightarrow>
          case external_module E d of
            Some m \<Rightarrow> andthen (install k (new_obj E d (KExternal m))) (ret (Obj k))
          | None \<Rightarrow>
              sbind (lift (known_entry (e_dw E) d)) (\<lambda>(i, kd).
              let ob = new_obj E i kd in
              if kd = KTypedef then
                sbind (resolve_definition E ob) (\<lambda>f.
                andthen (dieToType E n (DW_AT_type (e_dw E f)))
                (andthen (install k (ob\<lparr>ob_defdie := Some f\<rparr>)) (ret (Obj k))))
              else if kd = KArray then
                sbind (resolve_definition E ob) (\<lambda>f.
                andthen (install k (ob\<lparr>ob_defdie := Some f, ob_dimensions := getArrayDimensions (e_dw E) f\<rparr>)) (ret (Obj k)))
              else andthen (install k ob) (ret (Obj k)))))"

definition baseType :: "env \<Rightarrow> nat \<Rightarrow> key \<Rightarrow> tref option rcomp" where
  "baseType E n k =
     sbind (definition_of E k) (\<lambda>f.
     case DW_AT_type (e_dw E f) of
       None \<Rightarrow> ret None
     | Some b \<Rightarrow> sbind (dieToType E n (Some b)) (\<lambda>t. ret (Some t)))"

text \<open>\<open>self.baseType()\<close> where the code calls a method of the result: \<open>None\<close> has none.\<close>

definition theBase :: "env \<Rightarrow> nat \<Rightarrow> key \<Rightarrow> tref rcomp" where
  "theBase E n k = sbind (baseType E n k) (\<lambda>b. lift (need AttributeError b))"

section \<open>What a type is called and how it is aligned\<close>

definition params :: "env \<Rightarrow> nat \<Rightarrow> nat list" where
  "params E d = filter (\<lambda>c. dtag (e_dw E c) = DW_TAG_formal_parameter) (children (e_dw E d))"

definition isVoidp :: "env \<Rightarrow> key \<Rightarrow> bool rcomp" where
  "isVoidp E k = sbind (definition_of E k) (\<lambda>f. lift (isVoid (e_dw E) (DW_AT_type (e_dw E f))))"

text \<open>The methods \<open>ctype\<close> of the classes.  The argument \<open>call\<close> is \<open>ctype\<close> of another type.\<close>

definition ctype_array :: "(tref \<Rightarrow> string rcomp) \<Rightarrow> env \<Rightarrow> nat \<Rightarrow> key \<Rightarrow> tobj \<Rightarrow> string rcomp" where
  "ctype_array call E n k ob =
     sbind (theBase E n k) (\<lambda>b.
     sbind (call b) (\<lambda>text.
     ret (foldl (\<lambda>text d. text @ '' * '' @ show_int d) text (ob_dimensions ob))))"

definition ctype_pointer :: "(tref \<Rightarrow> string rcomp) \<Rightarrow> env \<Rightarrow> nat \<Rightarrow> key \<Rightarrow> string rcomp" where
  "ctype_pointer call E n k =
     sbind (isVoidp E k) (\<lambda>v.
     if v then ret ''c_void_p''
     else
       sbind (definition_of E k) (\<lambda>f.
       sbind (theBase E n k) (\<lambda>b.
       sbind (call b) (\<lambda>baseCtype.
       sbind (lift (need AttributeError (DW_AT_type (e_dw E f)))) (\<lambda>baseDie.
       ret (if dtag (e_dw E baseDie) = DW_TAG_subroutine_type then baseCtype
            else if baseCtype = ''c_char'' \<or> baseCtype = ''CONST( c_char )'' then ''c_char_p''
            else ''POINTER( '' @ baseCtype @ '' )''))))))"

definition ctype_function :: "(tref \<Rightarrow> string rcomp) \<Rightarrow> env \<Rightarrow> nat \<Rightarrow> key \<Rightarrow> tobj \<Rightarrow> string rcomp" where
  "ctype_function call E n k ob =
     sbind (baseType E n k) (\<lambda>rtype.
     sbind (case rtype of None \<Rightarrow> ret ''None'' | Some b \<Rightarrow> call b) (\<lambda>rtext.
     sbind (foldM (\<lambda>acc child.
         sbind (dieToType E n (DW_AT_type (e_dw E child))) (\<lambda>t.
         sbind (call t) (\<lambda>text. ret (acc @ '', '' @ text @ nl @ ''      ''))))
       (''CFUNCTYPE( '' @ rtext) (params E (ob_die ob))) (\<lambda>text.
     ret (text @ '')''))))"

definition ctype_const :: "(tref \<Rightarrow> string rcomp) \<Rightarrow> env \<Rightarrow> nat \<Rightarrow> key \<Rightarrow> string rcomp" where
  "ctype_const call E n k =
     sbind (baseType E n k) (\<lambda>b.
     sbind (case b of None \<Rightarrow> ret ''c_void_p'' | Some b \<Rightarrow> call b) (\<lambda>name.
     ret (''CONST( '' @ name @ '' )'')))"

definition ctype_volatile :: "(tref \<Rightarrow> string rcomp) \<Rightarrow> env \<Rightarrow> nat \<Rightarrow> key \<Rightarrow> string rcomp" where
  "ctype_volatile call E n k =
     sbind (theBase E n k) (\<lambda>b.
     sbind (call b) (\<lambda>name. ret (''VOLATILE( '' @ name @ '' )'')))"

definition ctype_restrict :: "(tref \<Rightarrow> string rcomp) \<Rightarrow> env \<Rightarrow> nat \<Rightarrow> key \<Rightarrow> string rcomp" where
  "ctype_restrict call E n k =
     sbind (theBase E n k) (\<lambda>b.
     sbind (call b) (\<lambda>name. ret (''RESTRICT( '' @ name @ '' )'')))"

lemmas ctype_methods = ctype_array_def ctype_pointer_def ctype_function_def ctype_const_def
  ctype_volatile_def ctype_restrict_def

fun ctype :: "env \<Rightarrow> nat \<Rightarrow> tref \<Rightarrow> string rcomp" where
  "ctype E 0 t = raise NonTermination"
| "ctype E (Suc n) VoidType = ret (asPythonId_str ''void'')"
| "ctype E (Suc n) (Obj k) =
     sbind (getobj k) (\<lambda>ob.
     if ob_kind ob = KPrim then ret (prim_ctype (e_psz E) (e_dw E) (ob_die ob))
     else if ob_kind ob = KArray then ctype_array (ctype E n) E n k ob
     else if ob_kind ob = KPointer then ctype_pointer (ctype E n) E n k
     else if ob_kind ob = KFunction \<or> ob_kind ob = KFunctionDef then ctype_function (ctype E n) E n k ob
     else if ob_kind ob = KConst then ctype_const (ctype E n) E n k
     else if ob_kind ob = KVolatile then ctype_volatile (ctype E n) E n k
     else if ob_kind ob = KRestrict then ctype_restrict (ctype E n) E n k
     else ret (obj_pyName E ob True))"

fun alignment :: "env \<Rightarrow> nat \<Rightarrow> tref \<Rightarrow> int rcomp" where
  "alignment E 0 t = raise NonTermination"
| "alignment E (Suc n) VoidType = raise AttributeError"
| "alignment E (Suc n) (Obj k) =
     sbind (getobj k) (\<lambda>ob.
     if ob_kind ob = KPointer then ret (e_psz E)
     else if ob_kind ob = KPrim then lift (baseTypeAlignment (e_psz E) (e_dw E) (ob_die ob))
     else if is_member_kind (ob_kind ob) then ret (ob_alignment ob)
     else sbind (baseType E n k) (\<lambda>b. case b of None \<Rightarrow> ret 1 | Some b \<Rightarrow> alignment E n b))"

text \<open>The methods \<open>size\<close>: what the debug data says, which may be nothing, for the classes that do not
  have a method of their own.  The sizes of arrays are multiplied, which \<open>None\<close> does not allow.\<close>

fun scaled :: "int option \<Rightarrow> int list \<Rightarrow> int option res" where
  "scaled z [] = Inr z"
| "scaled None (d # ds) = Inl TypeError"
| "scaled (Some z) (d # ds) = scaled (Some (z * d)) ds"

fun type_size :: "env \<Rightarrow> nat \<Rightarrow> tref \<Rightarrow> int option rcomp" where
  "type_size E 0 t = raise NonTermination"
| "type_size E (Suc n) VoidType = raise AttributeError"
| "type_size E (Suc n) (Obj k) =
     sbind (getobj k) (\<lambda>ob.
     if ob_kind ob = KFunction \<or> ob_kind ob = KFunctionDef then
       raise (PyException (''functions don't have sizes : '' @ obj_name E ob True))
     else if ob_kind ob = KArray then
       sbind (theBase E n k) (\<lambda>b. sbind (type_size E n b) (\<lambda>z. lift (scaled z (ob_dimensions ob))))
     else if List.member [KTypedef, KConst, KVolatile, KRestrict] (ob_kind ob) then
       sbind (theBase E n k) (type_size E n)
     else sbind (definition_of E k) (\<lambda>f. ret (DW_AT_byte_size (e_dw E f))))"

section \<open>Members\<close>

definition member_size :: "env \<Rightarrow> nat \<Rightarrow> member \<Rightarrow> int option rcomp" where
  "member_size E n m = sbind (dieToType E n (DW_AT_type (e_dw E (m_die m)))) (type_size E n)"

text \<open>\<open>isEmptyBase\<close>.  On a base that is a typedef the code calls itself on the type instead of a
  member; the entry of a type is never an inheritance entry, so the answer is \<open>False\<close>, unless
  the typedef names \<open>void\<close>, which has no entry.\<close>

fun isEmptyBase :: "env \<Rightarrow> nat \<Rightarrow> member \<Rightarrow> bool rcomp" where
  "isEmptyBase E 0 m = raise NonTermination"
| "isEmptyBase E (Suc n) m =
     (if dtag (e_dw E (m_die m)) \<noteq> DW_TAG_inheritance then ret False
      else
        sbind (dieToType E n (DW_AT_type (e_dw E (m_die m)))) (\<lambda>t.
        case t of
          VoidType \<Rightarrow> raise AttributeError
        | Obj k \<Rightarrow>
            sbind (getobj k) (\<lambda>ob.
            case ob_kind ob of
              KExternal _ \<Rightarrow> ret False
            | KTypedef \<Rightarrow>
                sbind (dieToType E n (DW_AT_type (e_dw E (ob_die ob)))) (\<lambda>u.
                if u = VoidType then raise AttributeError else ret False)
            | KStruct \<Rightarrow> allM (isEmptyBase E n) (ob_members ob)
            | KUnion \<Rightarrow> allM (isEmptyBase E n) (ob_members ob)
            | _ \<Rightarrow> raise AttributeError)))"

definition ignored_tags :: "dwtag list" where
  "ignored_tags = [DW_TAG_structure_type, DW_TAG_class_type, DW_TAG_union_type, DW_TAG_typedef,
     DW_TAG_enumeration_type, DW_TAG_subprogram, DW_TAG_template_type_param,
     DW_TAG_template_value_param, DW_TAG_const_type, DW_TAG_imported_declaration,
     DW_TAG_GNU_template_parameter_pack]"

text \<open>One field of \<open>findMembers\<close>: the members so far, the number of bases, of unnamed fields,
  the messages.\<close>

type_synonym found = "member list \<times> nat \<times> nat \<times> string list"

definition find_member :: "env \<Rightarrow> string \<Rightarrow> found \<Rightarrow> nat \<Rightarrow> found" where
  "find_member E name acc field = (case acc of (ms, superCount, anon_field, es) \<Rightarrow>
     let d = e_dw E field; tag = dtag d in
     if DW_AT_external d then acc
     else if tag = DW_TAG_inheritance then
       (ms @ [(mk_member field)\<lparr>m_name := Some (''__super__'' @ show_nat superCount)\<rparr>],
        superCount + 1, anon_field, es)
     else if tag = DW_TAG_member then
       (if DW_AT_name d = None then
          (ms @ [(mk_member field)\<lparr>m_name := Some (''__anon__member__'' @ show_nat (anon_field + 1)),
                                    m_anon := True\<rparr>],
           superCount, anon_field + 1, es)
        else (ms @ [mk_member field], superCount, anon_field, es))
     else if List.member ignored_tags tag then acc
     else (ms, superCount, anon_field,
           es @ [''unhandled field '' @ dname d @ '' of type '' @ show_nat tag @ '' in '' @ name @ '' '']))"

definition findMembers :: "env \<Rightarrow> key \<Rightarrow> unit rcomp" where
  "findMembers E k =
     sbind (getobj k) (\<lambda>ob.
     if ob_members ob \<noteq> [] then ret ()
     else
       sbind (definition_of E k) (\<lambda>f.
       case foldl (find_member E (obj_name E ob True)) ([], 0, 0, []) (children (e_dw E f)) of
         (ms, superCount, _, es) \<Rightarrow>
           andthen (updobj k (\<lambda>ob. ob\<lparr>ob_members := ms, ob_superCount := superCount\<rparr>))
           (forM es errorfunc)))"

end
