(* ===== verification/Define.thy ===== *)
theory Define
  imports TypeObjs "HOL-Library.List_Lexorder" "HOL-Library.Char_ord"
begin

text \<open>
  Declaring and defining types: \<open>TypeResolver.declareType\<close> and \<open>defineType\<close> with the \<open>declare\<close>
  and \<open>define\<close> methods of the subclasses of \<open>Type\<close> (\<open>CTypeGen/__init__.py\<close>).  The two call each
  other through the references between types, and nothing in the code bounds how deep.  Each
  method is a definition that takes the recursive calls as the argument \<open>call\<close>; \<open>run\<close> ties the
  knot with fuel.
\<close>

section \<open>Calls\<close>

text \<open>\<open>declareType( t )\<close> and \<open>defineType( t )\<close>, where \<open>t\<close> may be Python's \<open>None\<close>; declaring
  answers nothing, which is the result \<open>True\<close> here.\<close>

datatype callee = DeclareType "tref option" | DefineType "tref option"

type_synonym caller = "callee \<Rightarrow> bool rcomp"

definition add_defined :: "string \<Rightarrow> unit rcomp" where
  "add_defined name = modify (\<lambda>s. s\<lparr>definedNames :=
     (if List.member (definedNames s) name then definedNames s else definedNames s @ [name])\<rparr>)"

definition add_defineTypes :: "key \<Rightarrow> unit rcomp" where
  "add_defineTypes k = modify (\<lambda>s. s\<lparr>defineTypes :=
     (if List.member (defineTypes s) k then defineTypes s else defineTypes s @ [k])\<rparr>)"

section \<open>Structures and unions\<close>

definition declare_member_type :: "env \<Rightarrow> key \<Rightarrow> unit rcomp" where
  "declare_member_type E k =
     sbind (getobj k) (\<lambda>ob.
     write_stmt k (SClass (obj_pyName E ob True) (ob_base ob) (ob_mixins ob) (dieComment E ob)))"

text \<open>What the loop over the members asks of the type of one member.\<close>

definition is_defined :: "tref \<Rightarrow> bool rcomp" where
  "is_defined t = (case t of VoidType \<Rightarrow> ret False
     | Obj k \<Rightarrow> sbind (getobj k) (\<lambda>ob. ret (ob_defined ob)))"

definition tyinfo_of :: "env \<Rightarrow> nat \<Rightarrow> member \<Rightarrow> tyinfo rcomp" where
  "tyinfo_of E n m =
     sbind (dieToType E n (DW_AT_type (e_dw E (m_die m)))) (\<lambda>t.
     sbind (is_defined t) (\<lambda>d.
     if d then
       sbind (alignment E n t) (\<lambda>a.
       sbind (case ctypeOverride m of Some c \<Rightarrow> ret c | None \<Rightarrow> ctype E n t) (\<lambda>c.
       ret \<lparr>t_defined = True, t_align = a, t_ctype = c, t_name = []\<rparr>))
     else
       sbind (type_name E t True) (\<lambda>nm.
       ret \<lparr>t_defined = False, t_align = 0, t_ctype = [], t_name = nm\<rparr>)))"

fun member_loop :: "env \<Rightarrow> nat \<Rightarrow> owner \<Rightarrow> member list \<Rightarrow> layout \<Rightarrow> (member list \<times> layout) rcomp" where
  "member_loop E n ow [] st = ret ([], st)"
| "member_loop E n ow (m # rest) st =
     sbind (isEmptyBase E n m) (\<lambda>eb.
     if eb then
       sbind (member_loop E n ow rest st) (\<lambda>(ms, st). ret (m # ms, st))
     else
       sbind (tyinfo_of E n m) (\<lambda>ti.
       sbind (lift (field_step n (e_psz E) (e_dw E) ow m ti
           (next_loc (e_dw E) (map (\<lambda>m. (m, ())) rest)) st)) (\<lambda>(m, st, ws).
       andthen (forM ws errorfunc)
       (sbind (member_loop E n ow rest st) (\<lambda>(ms, st). ret (m # ms, st))))))"

definition owner_of :: "env \<Rightarrow> tobj \<Rightarrow> nat \<Rightarrow> owner" where
  "owner_of E ob f = \<lparr>o_union = (dtag (e_dw E f) = DW_TAG_union_type),
     o_size = DW_AT_byte_size (e_dw E f), o_die_size = DW_AT_byte_size (e_dw E (ob_die ob)),
     o_name = obj_name E ob False\<rparr>"

definition anon_names :: "dwarf \<Rightarrow> member list \<Rightarrow> string list" where
  "anon_names D ms = map (\<lambda>m. str_of (member_pyName D m))
     (sort_key (\<lambda>m. str_of (member_name D m)) (filter m_anon ms))"

definition write_fields :: "env \<Rightarrow> nat \<Rightarrow> key \<Rightarrow> unit rcomp" where
  "write_fields E n k =
     sbind (getobj k) (\<lambda>ob.
     if ob_members ob = [] then updobj k (\<lambda>ob. ob\<lparr>ob_alignment := 1\<rparr>)
     else
       sbind (definition_of E k) (\<lambda>f.
       let ow = owner_of E ob f; py = obj_pyName E ob True in
       sbind (member_loop E n ow (ob_members ob) (layout0 (ob_packed ob))) (\<lambda>(ms, st).
       sbind (lift (trailing_pad ow (length ms) (ob_superCount ob) st)) (\<lambda>st.
       let st = finish_packed ow st in
       andthen (updobj k (\<lambda>ob. ob\<lparr>ob_members := ms, ob_alignment := salign st, ob_packed := packed st\<rparr>))
       (andthen (write_stmt k (SFieldsPre py (rows st)))
       (andthen (if packed st then write_stmt k (SPack py (packComment st)) else ret ())
       (andthen (if filter m_anon ms \<noteq> [] then write_stmt k (SAnonymous py (anon_names (e_dw E) ms))
                 else ret ())
       (write_stmt k (SFields py)))))))))"

definition write_unaligned :: "env \<Rightarrow> key \<Rightarrow> tobj \<Rightarrow> unit rcomp" where
  "write_unaligned E k ob =
     (let unaligned = map (\<lambda>m. str_of (member_pyName (e_dw E) m)) (filter allowUnalignedPtr (ob_members ob)) in
      if ob_unalignedPtrs ob then write_stmt k (SAllowAll (obj_pyName E ob True))
      else if unaligned \<noteq> [] then write_stmt k (SAllowNames (obj_pyName E ob True) unaligned)
      else ret ())"

definition define_members :: "env \<Rightarrow> nat \<Rightarrow> caller \<Rightarrow> key \<Rightarrow> unit rcomp" where
  "define_members E n call k =
     sbind (getobj k) (\<lambda>ob.
     forM (ob_members ob) (\<lambda>m.
       sbind (dieToType E n (DW_AT_type (e_dw E (m_die m)))) (\<lambda>t.
       andthen (call (DefineType (Some t))) (ret ()))))"

definition write_size :: "env \<Rightarrow> key \<Rightarrow> unit rcomp" where
  "write_size E k =
     sbind (getobj k) (\<lambda>ob.
     sbind (definition_of E k) (\<lambda>f.
     sbind (lift (need TypeError (DW_AT_byte_size (e_dw E f)))) (\<lambda>size.
     andthen (write_stmt k SBlank)
     (write_stmt k (SNativeSize (obj_pyName E ob True) size)))))"

definition write_rest :: "env \<Rightarrow> nat \<Rightarrow> key \<Rightarrow> bool rcomp" where
  "write_rest E n k =
     sbind (getobj k) (\<lambda>ob.
     andthen (write_stmt k (SHaveDefinition (obj_pyName E ob True)))
     (andthen (write_unaligned E k ob)
     (andthen (write_fields E n k)
     (andthen (write_stmt k SBlank)
     (ret True)))))"

definition define_member_type :: "env \<Rightarrow> nat \<Rightarrow> caller \<Rightarrow> key \<Rightarrow> bool rcomp" where
  "define_member_type E n call k =
     sbind (definition_of E k) (\<lambda>f.
     if DW_AT_declaration (e_dw E f) then ret False
     else
       andthen (findMembers E k)
       (andthen (call (DeclareType (Some (Obj k))))
       (andthen (define_members E n call k)
       (andthen (write_size E k)
       (write_rest E n k)))))"

definition define_struct :: "env \<Rightarrow> nat \<Rightarrow> caller \<Rightarrow> key \<Rightarrow> bool rcomp" where
  "define_struct E n call k =
     sbind (define_member_type E n call k) (\<lambda>b.
     if \<not> b then ret False
     else
       sbind (getobj k) (\<lambda>ob.
       andthen (write_stmt k (SOffsets (obj_pyName E ob True) (ctypegen_offsets (e_dw E) (ob_members ob))))
       (ret True)))"

definition define_union :: "env \<Rightarrow> nat \<Rightarrow> caller \<Rightarrow> key \<Rightarrow> bool rcomp" where
  "define_union E n call k =
     sbind (define_member_type E n call k) (\<lambda>b.
     if \<not> b then ret False
     else
       sbind (getobj k) (\<lambda>ob.
       andthen (if ob_members ob = [] \<and> DW_AT_byte_size (e_dw E (ob_die ob)) \<noteq> None
                then write_stmt k (SBrokenUnion (obj_pyName E ob True)) else ret ())
       (ret True)))"

section \<open>The other types\<close>

fun enum_lines :: "dwarf \<Rightarrow> string \<Rightarrow> nat list \<Rightarrow> enum_line list res" where
  "enum_lines D comment [] = Inr []"
| "enum_lines D comment (child # cs) =
     (let pre = (if comment \<noteq> [] then [EComment comment] else []) in
      if dtag (D child) = DW_TAG_enumerator then
        bnd (need TypeError (DW_AT_const_value (D child))) (\<lambda>value.
        bnd (enum_lines D comment cs) (\<lambda>ls.
        Inr (pre @ EValue (str_of (asPythonId (DW_AT_name (D child)))) value # ls)))
      else bnd (enum_lines D comment cs) (\<lambda>ls. Inr (pre @ ls)))"

fun value_names :: "enum_line list \<Rightarrow> string list" where
  "value_names [] = []"
| "value_names (EComment _ # ls) = value_names ls"
| "value_names (EValue name _ # ls) = name # value_names ls"

definition intType :: "env \<Rightarrow> nat \<Rightarrow> key \<Rightarrow> string rcomp" where
  "intType E n k =
     sbind (definition_of E k) (\<lambda>f.
     case DW_AT_type (e_dw E f) of
       None \<Rightarrow> ret ''c_uint''
     | Some b \<Rightarrow> sbind (dieToType E n (Some b)) (\<lambda>t. type_pyName E t True))"

definition define_enum :: "env \<Rightarrow> nat \<Rightarrow> caller \<Rightarrow> key \<Rightarrow> bool rcomp" where
  "define_enum E n call k =
     sbind (baseType E n k) (\<lambda>rtype.
     andthen (if rtype \<noteq> None then call (DefineType rtype) else ret True)
     (sbind (intType E n k) (\<lambda>ty.
     sbind (getobj k) (\<lambda>ob.
     sbind (definition_of E k) (\<lambda>f.
     sbind (lift (enum_lines (e_dw E) (dieComment E ob) (children (e_dw E f)))) (\<lambda>ls.
     andthen (write_stmt k (SEnum (obj_pyName E ob True) ty (ob_nameless ob) ls))
     (andthen (if ob_nameless ob then forM (value_names ls) add_defined else ret ())
     (ret True))))))))"

definition define_pointer :: "env \<Rightarrow> nat \<Rightarrow> caller \<Rightarrow> key \<Rightarrow> bool rcomp" where
  "define_pointer E n call k =
     sbind (isVoidp E k) (\<lambda>v.
     if v then ret True
     else
       sbind (baseType E n k) (\<lambda>b.
       andthen (call (DeclareType b))
       (if e_deepInspect E then
          sbind (baseType E n k) (\<lambda>b.
          case b of
            Some (Obj kb) \<Rightarrow>
              sbind (definition_of E kb) (\<lambda>f.
              andthen (if DW_AT_declaration (e_dw E f) then ret () else add_defineTypes kb) (ret True))
          | _ \<Rightarrow> ret True)
        else ret True)))"

definition define_typedef :: "env \<Rightarrow> nat \<Rightarrow> caller \<Rightarrow> key \<Rightarrow> bool rcomp" where
  "define_typedef E n call k =
     sbind (baseType E n k) (\<lambda>b.
     andthen (call (DeclareType b))
     (andthen (call (DeclareType (Some (Obj k))))
     (sbind (baseType E n k) (\<lambda>b. call (DefineType b)))))"

definition declare_typedef :: "env \<Rightarrow> nat \<Rightarrow> caller \<Rightarrow> key \<Rightarrow> unit rcomp" where
  "declare_typedef E n call k =
     sbind (baseType E n k) (\<lambda>b.
     andthen (call (DeclareType b))
     (sbind (getobj k) (\<lambda>ob.
     sbind (theBase E n k) (\<lambda>b.
     sbind (ctype E n b) (\<lambda>ct.
     if obj_pyName E ob True = ct then ret ()
     else write_stmt k (STypedef (obj_pyName E ob True) ct (dieComment E ob)))))))"

definition define_function :: "env \<Rightarrow> nat \<Rightarrow> caller \<Rightarrow> key \<Rightarrow> bool rcomp" where
  "define_function E n call k =
     sbind (baseType E n k) (\<lambda>rtype.
     andthen (if rtype \<noteq> None then call (DefineType rtype) else ret True)
     (sbind (getobj k) (\<lambda>ob.
     andthen (forM (params E (ob_die ob)) (\<lambda>child.
         sbind (dieToType E n (DW_AT_type (e_dw E child))) (\<lambda>t.
         andthen (call (DefineType (Some t))) (ret ()))))
     (ret True))))"

section \<open>Dispatch\<close>

definition declare_obj :: "env \<Rightarrow> nat \<Rightarrow> caller \<Rightarrow> key \<Rightarrow> tkind \<Rightarrow> unit rcomp" where
  "declare_obj E n call k kd =
     (if is_member_kind kd then declare_member_type E k
      else if kd = KTypedef then declare_typedef E n call k
      else if kd = KPointer \<or> kd = KConst \<or> kd = KVolatile \<or> kd = KRestrict then
        sbind (baseType E n k) (\<lambda>b. andthen (call (DeclareType b)) (ret ()))
      else andthen (call (DefineType (Some (Obj k)))) (ret ()))"

definition define_obj :: "env \<Rightarrow> nat \<Rightarrow> caller \<Rightarrow> key \<Rightarrow> tkind \<Rightarrow> bool rcomp" where
  "define_obj E n call k kd =
     (case kd of
        KStruct \<Rightarrow> define_struct E n call k
      | KUnion \<Rightarrow> define_union E n call k
      | KEnum \<Rightarrow> define_enum E n call k
      | KPointer \<Rightarrow> define_pointer E n call k
      | KTypedef \<Rightarrow> define_typedef E n call k
      | KFunction \<Rightarrow> define_function E n call k
      | KFunctionDef \<Rightarrow> define_function E n call k
      | KPrim \<Rightarrow> ret True
      | KExternal _ \<Rightarrow> ret True
      | _ \<Rightarrow> sbind (baseType E n k) (\<lambda>b. call (DefineType b)))"

definition declareType :: "env \<Rightarrow> nat \<Rightarrow> caller \<Rightarrow> tref option \<Rightarrow> unit rcomp" where
  "declareType E n call t =
     (case t of
        Some (Obj k) \<Rightarrow>
          sbind (getobj k) (\<lambda>ob.
          if ob_declared ob then ret ()
          else
            andthen (declare_obj E n call k (ob_kind ob))
            (updobj k (\<lambda>ob. ob\<lparr>ob_declared := True\<rparr>)))
      | _ \<Rightarrow> ret ())"

definition defineType :: "env \<Rightarrow> nat \<Rightarrow> caller \<Rightarrow> tref option \<Rightarrow> bool rcomp" where
  "defineType E n call t =
     (case t of
        Some (Obj k) \<Rightarrow>
          sbind (getobj k) (\<lambda>ob.
          if ob_defined ob then ret True
          else
            sbind (definition_of E k) (\<lambda>f.
            sbind (lift (isVoid (e_dw E) (Some f))) (\<lambda>v.
            if v then
              andthen (errorfunc (obj_name E ob True @ '' is '' @ quoted ''void''
                @ '' - cannot output definition'')) (ret True)
            else
              sbind (define_obj E n call k (ob_kind ob)) (\<lambda>b.
              andthen (updobj k (\<lambda>ob. ob\<lparr>ob_defined := b\<rparr>))
              (sbind (getobj k) (\<lambda>ob.
              andthen (if b then add_defined (obj_pyName E ob True) else ret ())
              (ret b)))))))
      | _ \<Rightarrow> ret True)"

definition step :: "env \<Rightarrow> nat \<Rightarrow> caller \<Rightarrow> caller" where
  "step E n call c =
     (case c of
        DeclareType t \<Rightarrow> andthen (declareType E n call t) (ret True)
      | DefineType t \<Rightarrow> defineType E n call t)"

fun run :: "env \<Rightarrow> nat \<Rightarrow> caller" where
  "run E 0 c = raise NonTermination"
| "run E (Suc n) c = step E n (\<lambda>c. run E n c) c"

end
