(* ===== verification/DefineProps.thy ===== *)
theory DefineProps
  imports Define
begin

text \<open>
  What declaring and defining types keeps.  The locale \<open>resolver_relation\<close> is the interface
  between the operations of the resolver and a property of its state: a relation between the
  state before and after that every elementary change respects is respected by every run.  It
  is used twice: the objects only grow (\<open>grows\<close>), and the statements written match the flags
  of the objects (\<open>ordered\<close>), which gives that every class is written once and before its
  fields.
\<close>

section \<open>Elementary changes\<close>

text \<open>What is never taken back: the class and entry of an object, the definition found for it, that
  it is declared, that a structure, union or enumeration is defined, and the statements written.\<close>

definition tracked :: "tkind \<Rightarrow> bool" where
  "tracked kd = (is_member_kind kd \<or> kd = KEnum)"

lemma tracked_simps [simp]: "is_member_kind kd \<Longrightarrow> tracked kd" "tracked KEnum"
  by (simp_all add: tracked_def)

definition later_obj :: "tobj \<Rightarrow> tobj \<Rightarrow> bool" where
  "later_obj ob ob' = (ob_kind ob' = ob_kind ob \<and> ob_die ob' = ob_die ob
     \<and> (ob_defdie ob = None \<or> ob_defdie ob' = ob_defdie ob)
     \<and> (ob_declared ob \<longrightarrow> ob_declared ob')
     \<and> (tracked (ob_kind ob) \<longrightarrow> ob_defined ob \<longrightarrow> ob_defined ob'))"

definition stable :: "rstate \<Rightarrow> rstate \<Rightarrow> bool" where
  "stable s s' = ((\<forall>k ob. heap s k = Some ob \<longrightarrow> (\<exists>ob'. heap s' k = Some ob' \<and> later_obj ob ob'))
     \<and> (\<exists>xs. out s' = out s @ xs))"

definition same_obj :: "tobj \<Rightarrow> tobj \<Rightarrow> bool" where
  "same_obj ob ob' = (ob_kind ob' = ob_kind ob \<and> ob_die ob' = ob_die ob \<and> ob_declared ob' = ob_declared ob
     \<and> (ob_defdie ob = None \<or> ob_defdie ob' = ob_defdie ob)
     \<and> (tracked (ob_kind ob) \<longrightarrow> ob_defined ob' = ob_defined ob))"

definition fresh_obj :: "tobj \<Rightarrow> bool" where
  "fresh_obj ob = (\<not> ob_declared ob \<and> \<not> ob_defined ob \<and> ob_members ob = [] \<and> ob_mixins ob = []
     \<and> (is_member_kind (ob_kind ob) \<longrightarrow> List.member [''Structure'', ''Union''] (ob_base ob)))"

definition heap_ok :: "rstate \<Rightarrow> bool" where
  "heap_ok s = ((\<forall>k. k \<in> set (heap_keys s) \<longleftrightarrow> heap s k \<noteq> None) \<and> distinct (heap_keys s))"

definition same_rest :: "rstate \<Rightarrow> rstate \<Rightarrow> bool" where
  "same_rest s s' = (out s' = out s \<and> defineTypes s' = defineTypes s \<and> definedNames s' = definedNames s
     \<and> found_variables s' = found_variables s \<and> found_functions s' = found_functions s
     \<and> producers s' = producers s \<and> applyHints s' = applyHints s \<and> allHintedTypes s' = allHintedTypes s)"

text \<open>Looking for types: known objects stay as they are, new ones are neither declared nor
  defined, and nothing else changes but the list of errors.\<close>

definition discovers :: "rstate \<Rightarrow> rstate \<Rightarrow> bool" where
  "discovers s s' = ((\<forall>k ob. heap s k = Some ob \<longrightarrow> heap s' k = Some ob)
     \<and> (\<forall>k ob. heap s k = None \<longrightarrow> heap s' k = Some ob \<longrightarrow> fresh_obj ob)
     \<and> (heap_ok s \<longrightarrow> heap_ok s')
     \<and> same_rest s s')"

definition declared_in :: "key \<Rightarrow> rstate \<Rightarrow> bool" where
  "declared_in k s = (\<exists>ob. heap s k = Some ob \<and> ob_declared ob)"

lemma later_refl [simp]: "later_obj ob ob"
  by (simp add: later_obj_def)

lemma later_trans: "later_obj a b \<Longrightarrow> later_obj b c \<Longrightarrow> later_obj a c"
  unfolding later_obj_def by auto

lemma same_later: "same_obj ob ob' \<Longrightarrow> later_obj ob ob'"
  unfolding later_obj_def same_obj_def by auto

lemma stable_refl: "stable s s"
  by (simp add: stable_def)

lemma stable_trans: "stable s t \<Longrightarrow> stable t u \<Longrightarrow> stable s u"
proof -
  assume st: "stable s t" and tu: "stable t u"
  have "\<exists>ob'. heap u k = Some ob' \<and> later_obj ob ob'" if "heap s k = Some ob" for k ob
    using st tu that unfolding stable_def by (meson later_trans)
  with st tu show ?thesis by (auto simp: stable_def)
qed

lemma stableD: "stable s s' \<Longrightarrow> heap s k = Some ob \<Longrightarrow> \<exists>ob'. heap s' k = Some ob' \<and> later_obj ob ob'"
  unfolding stable_def by blast

lemma stable_declared: "stable s s' \<Longrightarrow> declared_in k s \<Longrightarrow> declared_in k s'"
  by (auto simp: declared_in_def later_obj_def dest!: stableD)

lemma stable_heap: "heap s' = heap s \<Longrightarrow> out s' = out s @ xs \<Longrightarrow> stable s s'"
  by (simp add: stable_def)

lemma stable_update:
  "heap s k = Some ob \<Longrightarrow> later_obj ob ob' \<Longrightarrow> heap s' = (heap s)(k \<mapsto> ob') \<Longrightarrow> out s' = out s @ xs \<Longrightarrow>
   stable s s'"
  by (simp add: stable_def)

lemma discovers_refl: "discovers s s"
  by (simp add: discovers_def same_rest_def)

lemma discovers_trans: "discovers s t \<Longrightarrow> discovers t u \<Longrightarrow> discovers s u"
proof -
  assume st: "discovers s t" and tu: "discovers t u"
  have "fresh_obj ob" if "heap s k = None" "heap u k = Some ob" for k ob
    using st tu that by (cases "heap t k") (auto simp: discovers_def)
  with st tu show ?thesis by (auto simp: discovers_def same_rest_def)
qed

interpretation disc: step_relation discovers
  by unfold_locales (fact discovers_refl, fact discovers_trans)

lemma getobj_Inr: "getobj k s = Inr (ob, s') \<longleftrightarrow> heap s k = Some ob \<and> s' = s"
  by (auto simp: getobj_def lift_eq_Inr need_eq_Inr)

lemma updobj_Inr: "updobj k f s = Inr (u, s') \<longleftrightarrow>
    (\<exists>ob. heap s k = Some ob \<and> s' = s\<lparr>heap := (heap s)(k \<mapsto> f ob)\<rparr>)"
  by (auto simp: updobj_def sbind_eq_Inr getobj_Inr)

lemma disc_errorfunc: "keeps discovers (errorfunc e)"
  by (auto simp: keeps_def errorfunc_def discovers_def heap_ok_def same_rest_def)

lemma disc_resolve: "keeps discovers (resolve_definition E ob)"
  by (auto simp: resolve_definition_def Let_def intro!: disc.keeps_intros disc_errorfunc split: option.split)

lemma heap_ok_install: "heap_ok s \<Longrightarrow> install k ob s = Inr (u, s') \<Longrightarrow> heap_ok s'"
  by (auto simp: install_def heap_ok_def split: if_splits)

lemma install_rest: "install k ob s = Inr (u, s') \<Longrightarrow> heap s' = (heap s)(k \<mapsto> ob) \<and> same_rest s s'"
  by (auto simp: install_def same_rest_def)

lemma disc_install:
  "discovers s s1 \<Longrightarrow> heap s k = None \<Longrightarrow> fresh_obj ob \<Longrightarrow> install k ob s1 = Inr (u, s2) \<Longrightarrow> discovers s s2"
  using install_rest [of k ob s1 u s2] heap_ok_install [of s1 k ob u s2]
  by (auto simp: discovers_def same_rest_def)

lemma fresh_new [simp]: "fresh_obj (new_obj E d kd)"
  "fresh_obj ob \<Longrightarrow> fresh_obj (ob\<lparr>ob_defdie := f\<rparr>)"   "fresh_obj ob \<Longrightarrow> fresh_obj (ob\<lparr>ob_defdie := f, ob_dimensions := ds\<rparr>)"
  by (simp_all add: new_obj_def fresh_obj_def is_member_kind_def)

lemma disc_dieToType: "keeps discovers (dieToType E n d)"
proof (induction E n d rule: dieToType.induct)
  case (3 E n d)
  show ?case
  proof (rule keepsI)
    fix s t s' assume run: "dieToType E (Suc n) (Some d) s = Inr (t, s')"
    show "discovers s s'"
    proof (cases "heap s (key_of E d)")
      case (Some ob)
      with run show ?thesis by (simp add: Let_def discovers_refl)
    next
      case new: None
      show ?thesis
      proof (cases "external_module E d")
        case (Some m)
        with run new obtain u where "install (key_of E d) (new_obj E d (KExternal m)) s = Inr (u, s')"
          by (auto simp: Let_def andthen_def sbind_eq_Inr)
        then show ?thesis by (rule disc_install [OF discovers_refl new fresh_new(1)])
      next
        case no: None
        from run new no obtain i kd where known: "known_entry (e_dw E) d = Inr (i, kd)"
          by (auto simp: Let_def sbind_eq_Inr lift_eq_Inr)
        let ?ob = "new_obj E i kd"
        have ih: "kd = KTypedef \<Longrightarrow> keeps discovers (dieToType E n (DW_AT_type (e_dw E f)))" for f
          using "3.IH" no by blast
        show ?thesis
        proof (cases "kd = KTypedef \<or> kd = KArray")
          case False
          with run new no known obtain u where "install (key_of E d) ?ob s = Inr (u, s')"
            by (auto simp: Let_def andthen_def sbind_eq_Inr)
          then show ?thesis by (rule disc_install [OF discovers_refl new fresh_new(1)])
        next
          case True
          with run new no known obtain f s1 where f: "resolve_definition E ?ob s = Inr (f, s1)"
            by (auto simp: Let_def andthen_def sbind_eq_Inr split: if_splits)
          have s1: "discovers s s1" using keepsD [OF disc_resolve f] .
          show ?thesis
          proof (cases "kd = KTypedef")
            case td: True
            with run new no known f obtain u s2 v where
              s2: "dieToType E n (DW_AT_type (e_dw E f)) s1 = Inr (u, s2)" and
              v: "install (key_of E d) (?ob\<lparr>ob_defdie := Some f\<rparr>) s2 = Inr (v, s')"
              by (auto simp: Let_def andthen_def sbind_eq_Inr)
            show ?thesis
              by (rule disc_install [OF discovers_trans [OF s1 keepsD [OF ih [OF td] s2]] new _ v]) simp
          next
            case False
            with True run new no known f obtain ds u where
              v: "install (key_of E d) (?ob\<lparr>ob_defdie := Some f, ob_dimensions := ds\<rparr>) s1 = Inr (u, s')"
              by (auto simp: Let_def andthen_def sbind_eq_Inr)
            show ?thesis by (rule disc_install [OF s1 new _ v]) simp
          qed
        qed
      qed
    qed
  qed
qed (auto intro: disc.keeps_intros)

text \<open>The object of a key is that of a structure or union, and is declared if asked for; once so
  it stays so.  \<open>guarded\<close> is the relation from there on.\<close>

definition ready :: "bool \<Rightarrow> key \<Rightarrow> rstate \<Rightarrow> bool" where
  "ready dcl k s = (\<exists>ob. heap s k = Some ob \<and> is_member_kind (ob_kind ob) \<and> (dcl \<longrightarrow> ob_declared ob))"

lemma stable_out: "stable s s' \<Longrightarrow> set (out s) \<subseteq> set (out s')"
  by (auto simp: stable_def)

lemma stable_ready: "stable s s' \<Longrightarrow> ready dcl k s \<Longrightarrow> ready dcl k s'"
  by (auto simp: ready_def later_obj_def dest!: stableD)

text \<open>The structure or union is declared, and the statements have its size, as its definition has it,
  and mark its class as defined.\<close>

definition sized :: "env \<Rightarrow> key \<Rightarrow> rstate \<Rightarrow> bool" where
  "sized E k s = (\<exists>ob f z. heap s k = Some ob \<and> ob_declared ob \<and> ob_defdie ob = Some f \<and> \<not> DW_AT_declaration (e_dw E f)
     \<and> DW_AT_byte_size (e_dw E f) = Some z
     \<and> {(k, SNativeSize (obj_pyName E ob True) z), (k, SHaveDefinition (obj_pyName E ob True))} \<subseteq> set (out s))"

lemma obj_pyName_cong:
  "ob_kind ob' = ob_kind ob \<Longrightarrow> ob_die ob' = ob_die ob \<Longrightarrow> obj_pyName E ob' w = obj_pyName E ob w"
  by (simp add: obj_pyName_def obj_name_def)

lemma stable_sized:
  assumes st: "stable s s'" and "sized E k s"
  shows "sized E k s'"
proof -
  from assms(2) obtain ob f z where 1: "heap s k = Some ob" "ob_defdie ob = Some f" "ob_declared ob"
    and 2: "\<not> DW_AT_declaration (e_dw E f)" "DW_AT_byte_size (e_dw E f) = Some z"
    and 3: "{(k, SNativeSize (obj_pyName E ob True) z), (k, SHaveDefinition (obj_pyName E ob True))} \<subseteq> set (out s)"
    unfolding sized_def by blast
  from stableD [OF st 1(1)] obtain ob' where ob': "heap s' k = Some ob'" "later_obj ob ob'" by blast
  have py: "obj_pyName E ob' True = obj_pyName E ob True"
    by (rule obj_pyName_cong) (use ob'(2) in \<open>simp_all add: later_obj_def\<close>)
  have f: "ob_defdie ob' = Some f" "ob_declared ob'" using ob'(2) 1(2,3) by (simp_all add: later_obj_def)
  have "{(k, SNativeSize (obj_pyName E ob' True) z), (k, SHaveDefinition (obj_pyName E ob' True))} \<subseteq> set (out s')"
    using 3 stable_out [OF st] unfolding py by blast
  with ob'(1) f 2 show ?thesis unfolding sized_def by blast
qed

text \<open>The statements have an enumeration, with the values and the integer type of its definition.\<close>

definition enumerated :: "env \<Rightarrow> key \<Rightarrow> rstate \<Rightarrow> bool" where
  "enumerated E k s = (\<exists>ob f ty nameless c ls. heap s k = Some ob \<and> ob_defdie ob = Some f
     \<and> (k, SEnum (obj_pyName E ob True) ty nameless ls) \<in> set (out s)
     \<and> enum_lines (e_dw E) c (children (e_dw E f)) = Inr ls
     \<and> (case DW_AT_type (e_dw E f) of None \<Rightarrow> ty = ''c_uint''
        | Some b \<Rightarrow> \<exists>ob'. heap s (key_of E b) = Some ob' \<and> ty = obj_pyName E ob' True))"

lemma later_pyName: "later_obj ob ob' \<Longrightarrow> obj_pyName E ob' w = obj_pyName E ob w"
  by (rule obj_pyName_cong) (simp_all add: later_obj_def)

lemma stable_enumerated:
  assumes st: "stable s s'" and "enumerated E k s"
  shows "enumerated E k s'"
proof -
  from assms(2) obtain ob f ty nameless c ls where 1: "heap s k = Some ob" "ob_defdie ob = Some f"
    "(k, SEnum (obj_pyName E ob True) ty nameless ls) \<in> set (out s)"
    and 2: "enum_lines (e_dw E) c (children (e_dw E f)) = Inr ls"
    and 3: "case DW_AT_type (e_dw E f) of None \<Rightarrow> ty = ''c_uint''
      | Some b \<Rightarrow> \<exists>ob'. heap s (key_of E b) = Some ob' \<and> ty = obj_pyName E ob' True"
    unfolding enumerated_def by blast
  from stableD [OF st 1(1)] obtain ob' where ob': "heap s' k = Some ob'" "later_obj ob ob'" by blast
  have "ob_defdie ob' = Some f" using ob'(2) 1(2) by (simp add: later_obj_def)
  moreover have "(k, SEnum (obj_pyName E ob' True) ty nameless ls) \<in> set (out s')"
    using 1(3) stable_out [OF st] later_pyName [OF ob'(2)] by auto
  moreover have "case DW_AT_type (e_dw E f) of None \<Rightarrow> ty = ''c_uint''
      | Some b \<Rightarrow> \<exists>ob'. heap s' (key_of E b) = Some ob' \<and> ty = obj_pyName E ob' True"
    using 3 later_pyName stableD [OF st] by (fastforce split: option.split)
  ultimately show ?thesis using ob'(1) 2 unfolding enumerated_def by blast
qed

lemma ready_declared: "ready dcl k s \<Longrightarrow> declared_in k s \<Longrightarrow> ready True k s"
  by (auto simp: ready_def declared_in_def)

definition guarded :: "bool \<Rightarrow> key \<Rightarrow> (rstate \<Rightarrow> rstate \<Rightarrow> bool) \<Rightarrow> rstate \<Rightarrow> rstate \<Rightarrow> bool" where
  "guarded dcl k R s s' = (ready dcl k s \<longrightarrow> R s s')"

definition declares :: "caller \<Rightarrow> bool" where
  "declares call = (\<forall>k s b s'. call (DeclareType (Some (Obj k))) s = Inr (b, s') \<longrightarrow> declared_in k s')"

lemma declareType_declares: "declareType E n call (Some (Obj k)) s = Inr (u, s') \<Longrightarrow> declared_in k s'"
  by (auto simp: declareType_def andthen_def sbind_eq_Inr getobj_Inr updobj_Inr declared_in_def
      split: if_splits)

lemma step_declares: "declares (step E n call)"
  by (auto simp: declares_def step_def andthen_def sbind_eq_Inr dest: declareType_declares)

lemma run_declares: "declares (\<lambda>c. run E n c)"
proof (cases n)
  case 0
  then show ?thesis by (simp add: declares_def)
next
  case (Suc m)
  then show ?thesis using step_declares [of E m "\<lambda>c. run E m c"] by (simp add: declares_def)
qed

section \<open>The interface\<close>

text \<open>Looking at types may create objects and resolve definitions, no more.\<close>

locale finder_relation = step_relation R for R :: "rstate \<Rightarrow> rstate \<Rightarrow> bool" +
  assumes R_discovers: "discovers s s' \<Longrightarrow> R s s'"
    and R_defdie: "heap s k = Some ob \<Longrightarrow> ob_defdie ob = None \<or> ob_defdie ob = f \<Longrightarrow>
      R s (s\<lparr>heap := (heap s)(k \<mapsto> ob\<lparr>ob_defdie := f\<rparr>)\<rparr>)"
begin

lemma keeps_discovers: "keeps discovers m \<Longrightarrow> keeps R m"
  unfolding keeps_def by (blast intro: R_discovers)

lemmas keeps_find = keeps_discovers [OF disc_dieToType] keeps_discovers [OF disc_errorfunc]
  keeps_discovers [OF disc_resolve]

lemma keeps_tref: "keeps R m \<Longrightarrow> (\<And>k. keeps R (f k)) \<Longrightarrow> keeps R (case t of VoidType \<Rightarrow> m | Obj k \<Rightarrow> f k)"
  by (simp split: tref.split)

lemma keeps_getobj: "keeps R (getobj k)"
  unfolding getobj_def by (intro keeps_intros)

lemmas keeps_rules = keeps_intros keeps_find keeps_tref keeps_getobj

lemma keeps_definition_of: "keeps R (definition_of E k)"
proof (rule keepsI)
  fix s f s' assume "definition_of E k s = Inr (f, s')"
  then obtain ob s1 ob1 where 1: "heap s k = Some ob" "resolve_definition E ob s = Inr (f, s1)"
    "heap s1 k = Some ob1" "s' = s1\<lparr>heap := (heap s1)(k \<mapsto> ob1\<lparr>ob_defdie := Some f\<rparr>)\<rparr>"
    by (auto simp: definition_of_def andthen_def sbind_eq_Inr getobj_Inr updobj_Inr)
  have "discovers s s1" using keepsD [OF disc_resolve 1(2)] .
  with 1 have ob: "ob1 = ob" by (auto simp: discovers_def)
  have "ob_defdie ob = None \<or> ob_defdie ob = Some f"
    using 1(2) by (auto simp: resolve_definition_def split: option.splits)
  with 1 ob have "R s1 s'" using R_defdie [of s1 k ob "Some f"] by simp
  with R_discovers [OF \<open>discovers s s1\<close>] show "R s s'" by (rule R_trans)
qed

lemma keeps_type_name: "keeps R (type_name E t w)" "keeps R (type_pyName E t w)"
  unfolding type_name_def type_pyName_def by (intro keeps_rules)+

lemma keeps_baseType: "keeps R (baseType E n k)"
  unfolding baseType_def by (intro keeps_rules keeps_definition_of)

lemma keeps_theBase: "keeps R (theBase E n k)"
  unfolding theBase_def by (intro keeps_rules keeps_baseType)

lemma keeps_isVoidp: "keeps R (isVoidp E k)"
  unfolding isVoidp_def by (intro keeps_rules keeps_definition_of)

lemmas keeps_more = keeps_rules keeps_definition_of keeps_type_name keeps_baseType keeps_theBase
  keeps_isVoidp

lemma keeps_ctype: "keeps R (ctype E n t)"
proof (induction n arbitrary: t)
  case (Suc n)
  then show ?case by (cases t) (auto simp: ctype_methods intro!: keeps_more)
qed (auto intro: keeps_intros)

lemma keeps_alignment: "keeps R (alignment E n t)"
proof (induction n arbitrary: t)
  case (Suc n)
  then show ?case by (cases t) (auto intro!: keeps_more)
qed (auto intro: keeps_intros)

lemma keeps_isEmptyBase: "keeps R (isEmptyBase E n m)"
proof (induction n arbitrary: m)
  case (Suc n)
  then show ?case by (auto intro!: keeps_more split: tkind.split)
qed (auto intro: keeps_intros)

lemma keeps_tyinfo: "keeps R (tyinfo_of E n m)"
  unfolding tyinfo_of_def is_defined_def by (intro keeps_more keeps_alignment keeps_ctype)

lemma keeps_member_loop: "keeps R (member_loop E n ow ms st)"
proof (induction ms arbitrary: st)
  case (Cons m ms)
  then show ?case by (auto intro!: keeps_more keeps_isEmptyBase keeps_tyinfo)
qed (auto intro: keeps_intros)

lemma keeps_intType: "keeps R (intType E n k)"
  unfolding intType_def by (intro keeps_more)

end

text \<open>Its use: no statement is written and the objects only learn their definitions.\<close>

definition but_defdie :: "tobj \<Rightarrow> tobj \<Rightarrow> bool" where
  "but_defdie ob ob' = (\<exists>f. ob' = ob\<lparr>ob_defdie := f\<rparr>)"

lemma but_defdie_refl: "but_defdie ob ob"
  unfolding but_defdie_def by (rule exI [of _ "ob_defdie ob"]) simp

lemma but_defdie_trans: "but_defdie a b \<Longrightarrow> but_defdie b c \<Longrightarrow> but_defdie a c"
  unfolding but_defdie_def by auto

definition quiet :: "rstate \<Rightarrow> rstate \<Rightarrow> bool" where
  "quiet s s' = (same_rest s s'
     \<and> (\<forall>k ob. heap s k = Some ob \<longrightarrow> (\<exists>ob'. heap s' k = Some ob' \<and> but_defdie ob ob'))
     \<and> (\<forall>k ob. heap s k = None \<longrightarrow> heap s' k = Some ob \<longrightarrow> fresh_obj ob))"

interpretation quiet: finder_relation quiet
proof
  fix s t u :: rstate
  show "quiet s s" by (simp add: quiet_def same_rest_def but_defdie_refl)
  show "quiet s u" if st: "quiet s t" and tu: "quiet t u"
  proof -
    have "\<exists>ob'. heap u k = Some ob' \<and> but_defdie ob ob'" if "heap s k = Some ob" for k ob
      using st tu that unfolding quiet_def by (meson but_defdie_trans)
    moreover have "fresh_obj ob" if "heap s k = None" "heap u k = Some ob" for k ob
    proof (cases "heap t k")
      case None
      with tu that show ?thesis by (simp add: quiet_def)
    next
      case (Some ob')
      with st that have "fresh_obj ob'" by (simp add: quiet_def)
      moreover from Some tu that have "but_defdie ob' ob" unfolding quiet_def by force
      ultimately show ?thesis by (auto simp: but_defdie_def)
    qed
    moreover have "same_rest s u" using st tu by (simp add: quiet_def same_rest_def)
    ultimately show ?thesis by (simp add: quiet_def)
  qed
  show "quiet s t" if "discovers s t"
    using that by (simp add: quiet_def discovers_def but_defdie_refl)
next
  fix s :: rstate and k ob f assume h: "heap s k = Some ob"
  have "but_defdie ob (ob\<lparr>ob_defdie := f\<rparr>)" by (auto simp: but_defdie_def)
  with h show "quiet s (s\<lparr>heap := (heap s)(k \<mapsto> ob\<lparr>ob_defdie := f\<rparr>)\<rparr>)"
    by (simp add: quiet_def same_rest_def but_defdie_refl)
qed

lemma quietD: "quiet s s' \<Longrightarrow> out s' = out s"
  "quiet s s' \<Longrightarrow> applyHints s' = applyHints s"
  "quiet s s' \<Longrightarrow> heap s k = Some ob \<Longrightarrow> \<exists>ob'. heap s' k = Some ob' \<and> but_defdie ob ob'"
  "quiet s s' \<Longrightarrow> heap s k = None \<Longrightarrow> heap s' k = Some ob \<Longrightarrow> fresh_obj ob"
  by (simp_all add: quiet_def same_rest_def)

lemma definition_of_obj:
  assumes "definition_of E k s = Inr (f, s')" and "heap s k = Some ob"
  shows "heap s' k = Some (ob\<lparr>ob_defdie := Some f\<rparr>)"
proof -
  from assms obtain s1 where 1: "resolve_definition E ob s = Inr (f, s1)"
    "updobj k (\<lambda>ob. ob\<lparr>ob_defdie := Some f\<rparr>) s1 = Inr ((), s')"
    by (auto simp: definition_of_def andthen_def sbind_eq_Inr getobj_Inr updobj_Inr)
  moreover have "heap s1 k = Some ob" using keepsD [OF disc_resolve 1(1)] assms(2) by (simp add: discovers_def)
  ultimately show ?thesis by (auto simp: updobj_Inr)
qed

text \<open>A size that is written is the size in the definition of the object.\<close>

definition fits :: "env \<Rightarrow> key \<Rightarrow> stmt \<Rightarrow> rstate \<Rightarrow> bool" where
  "fits E k x s = (case x of
     SNativeSize py z \<Rightarrow> \<exists>ob f. heap s k = Some ob \<and> ob_defdie ob = Some f \<and> DW_AT_byte_size (e_dw E f) = Some z
   | _ \<Rightarrow> True)"

lemma fits_simps [simp]:
  "fits E k SBlank s" "fits E k (SHaveDefinition py) s" "fits E k (SAllowAll py) s" "fits E k (SAllowNames py ns) s"
  "fits E k (SPack py t) s" "fits E k (SAnonymous py ns) s" "fits E k (SFields py) s" "fits E k (SOffsets py offs) s"
  "fits E k (SBrokenUnion py) s" "fits E k (STypedef py t u) s" "fits E k (SEnum py t nameless ls) s"
  by (simp_all add: fits_def)

text \<open>Declaring and defining types.\<close>

locale resolver_relation = step_relation R for R :: "rstate \<Rightarrow> rstate \<Rightarrow> bool" +
  fixes E :: env
  assumes R_stable: "R s s' \<Longrightarrow> stable s s'"
    and R_finds: "discovers s s' \<Longrightarrow> R s s'"
    and R_update: "heap s k = Some ob \<Longrightarrow> same_obj ob ob' \<Longrightarrow> R s (s\<lparr>heap := (heap s)(k \<mapsto> ob')\<rparr>)"
    and R_defined: "set (definedNames s) \<subseteq> set ns \<Longrightarrow> R s (s\<lparr>definedNames := ns\<rparr>)"
    and R_defineTypes: "set (defineTypes s) \<subseteq> set ks \<Longrightarrow> R s (s\<lparr>defineTypes := ks\<rparr>)"
    and R_class: "heap s k = Some ob \<Longrightarrow> is_member_kind (ob_kind ob) \<Longrightarrow> \<not> ob_declared ob \<Longrightarrow> is_class x \<Longrightarrow>
      R s (s\<lparr>out := out s @ [(k, x)], heap := (heap s)(k \<mapsto> ob\<lparr>ob_declared := True\<rparr>)\<rparr>)"
    and R_declare: "heap s k = Some ob \<Longrightarrow> \<not> is_member_kind (ob_kind ob) \<Longrightarrow>
      R s (s\<lparr>heap := (heap s)(k \<mapsto> ob\<lparr>ob_declared := True\<rparr>)\<rparr>)"
    and R_complete: "heap s k = Some ob \<Longrightarrow> tracked (ob_kind ob) \<Longrightarrow> (is_member_kind (ob_kind ob) \<Longrightarrow> sized E k s) \<Longrightarrow>
      (ob_kind ob = KEnum \<Longrightarrow> enumerated E k s) \<Longrightarrow>
      insert (obj_pyName E ob True) (set (definedNames s)) \<subseteq> set ns \<Longrightarrow>
      R s (s\<lparr>heap := (heap s)(k \<mapsto> ob\<lparr>ob_defined := True\<rparr>), definedNames := ns\<rparr>)"
    and R_write: "\<not> is_class x \<Longrightarrow> \<not> is_fields x \<Longrightarrow> fits E k x s \<Longrightarrow> R s (s\<lparr>out := out s @ [(k, x)]\<rparr>)"
    and R_fields: "ready True k s \<Longrightarrow> is_fields x \<Longrightarrow> R s (s\<lparr>out := out s @ [(k, x)]\<rparr>)"
begin

sublocale finder_relation R
  by unfold_locales (auto intro: R_finds R_update simp: same_obj_def)

lemma keeps_updobj: "(\<And>ob. same_obj ob (f ob)) \<Longrightarrow> keeps R (updobj k f)"
  by (auto simp: keeps_def updobj_Inr intro: R_update)

lemma keeps_write: "\<not> is_class x \<Longrightarrow> \<not> is_fields x \<Longrightarrow> (\<And>s. fits E k x s) \<Longrightarrow> keeps R (write_stmt k x)"
  by (auto simp: keeps_def write_stmt_def intro: R_write)

lemma keeps_add: "keeps R (add_defined nm)" "keeps R (add_defineTypes k)"
  by (auto simp: keeps_def add_defined_def add_defineTypes_def intro!: R_defined R_defineTypes R_refl)

lemma keeps_findMembers: "keeps R (findMembers E k)"
  unfolding findMembers_def by (intro keeps_more keeps_updobj) (simp add: same_obj_def)

lemmas keeps_all = keeps_more keeps_write keeps_add

sublocale guard: step_relation "guarded dcl k R" for dcl k
proof
  fix s t u
  show "guarded dcl k R s s" by (simp add: guarded_def R_refl)
  show "guarded dcl k R s u" if "guarded dcl k R s t" "guarded dcl k R t u"
    using that R_trans stable_ready [OF R_stable] unfolding guarded_def by blast
qed

lemma keeps_guard: "keeps R m \<Longrightarrow> keeps (guarded dcl k R) m"
  by (simp add: keeps_def guarded_def)

lemma keeps_after_declare:
  assumes "keeps R m" and "\<And>s x s'. m s = Inr (x, s') \<Longrightarrow> declared_in k s'"
    and "\<And>x. keeps (guarded True k R) (f x)"
  shows "keeps (guarded False k R) (sbind m f)"
proof (rule keepsI)
  fix s y s2 assume "sbind m f s = Inr (y, s2)"
  then obtain x s1 where 1: "m s = Inr (x, s1)" "f x s1 = Inr (y, s2)" by (auto simp: sbind_eq_Inr)
  have "R s s1" using keepsD [OF assms(1) 1(1)] .
  moreover have "guarded True k R s1 s2" using keepsD [OF assms(3) 1(2)] .
  moreover have "ready True k s1" if "ready False k s"
    using ready_declared stable_ready [OF R_stable [OF \<open>R s s1\<close>] that] assms(2) [OF 1(1)] by blast
  ultimately show "guarded False k R s s2" unfolding guarded_def by (blast intro: R_trans)
qed

lemma keeps_fields: "keeps (guarded True k R) (write_stmt k (SFieldsPre py rs))"
  by (auto simp: keeps_def guarded_def write_stmt_def intro: R_fields)

lemmas keeps_guarded = guard.keeps_intros keeps_fields
  keeps_guard [OF keeps_getobj] keeps_guard [OF keeps_write] keeps_guard [OF keeps_definition_of]
  keeps_guard [OF keeps_member_loop] keeps_guard [OF keeps_updobj] keeps_guard [OF keeps_find(1)]

lemma keeps_write_fields: "keeps (guarded True k R) (write_fields E n k)"
  unfolding write_fields_def Let_def by (intro keeps_guarded) (simp_all add: same_obj_def)

lemma keeps_write_unaligned: "keeps R (write_unaligned E k ob)"
  unfolding write_unaligned_def Let_def by (intro keeps_all) simp_all

lemma keeps_write_size: "keeps R (write_size E k)"
proof (rule keepsI)
  fix s u s' assume "write_size E k s = Inr (u, s')"
  then obtain ob f s1 z where ob: "heap s k = Some ob" and f: "definition_of E k s = Inr (f, s1)"
    and z: "DW_AT_byte_size (e_dw E f) = Some z"
    and s': "s' = s1\<lparr>out := out s1 @ [(k, SBlank), (k, SNativeSize (obj_pyName E ob True) z)]\<rparr>"
    by (auto simp: write_size_def andthen_def sbind_eq_Inr getobj_Inr lift_eq_Inr need_eq_Inr write_stmt_def)
  let ?s2 = "s1\<lparr>out := out s1 @ [(k, SBlank)]\<rparr>"
  have "fits E k (SNativeSize (obj_pyName E ob True) z) ?s2"
    using definition_of_obj [OF f ob] z by (simp add: fits_def)
  then have "R ?s2 s'" using R_write [of "SNativeSize (obj_pyName E ob True) z" k ?s2] s' by simp
  moreover have "R s1 ?s2" by (rule R_write) simp_all
  ultimately show "R s s'" using keepsD [OF keeps_definition_of f] by (blast intro: R_trans)
qed

lemma keeps_define_members: "(\<And>c. keeps R (call c)) \<Longrightarrow> keeps R (define_members E n call k)"
  unfolding define_members_def by (intro keeps_all)

lemma keeps_write_rest: "keeps (guarded True k R) (write_rest E n k)"
  unfolding write_rest_def
  by (intro keeps_guarded keeps_write_fields keeps_guard [OF keeps_write_unaligned]) simp_all

lemma keeps_define_member_type:
  assumes "\<And>c. keeps R (call c)" and "declares call"
  shows "keeps (guarded False k R) (define_member_type E n call k)"
proof -
  have "keeps (guarded False k R) (sbind (call (DeclareType (Some (Obj k)))) f)"
    if "\<And>x. keeps (guarded True k R) (f x)" for f :: "bool \<Rightarrow> bool rcomp"
    using assms that by (intro keeps_after_declare) (auto simp: declares_def)
  then show ?thesis
    unfolding define_member_type_def andthen_def
    by (rule guard.keeps_sbind [OF keeps_guard [OF keeps_definition_of]
          guard.keeps_if [OF guard.keeps_ret guard.keeps_sbind [OF keeps_guard [OF keeps_findMembers]]]])
      (intro keeps_guarded keeps_write_rest keeps_guard [OF keeps_write_size]
        keeps_guard [OF keeps_define_members [OF assms(1)]])
qed

lemma keeps_define_struct_union:
  assumes "\<And>c. keeps R (call c)" and "declares call"
  shows "keeps (guarded False k R) (define_struct E n call k)"
    and "keeps (guarded False k R) (define_union E n call k)"
  unfolding define_struct_def define_union_def
  by (intro keeps_guarded keeps_define_member_type assms; simp)+

lemma keeps_define_enum: "(\<And>c. keeps R (call c)) \<Longrightarrow> keeps R (define_enum E n call k)"
  unfolding define_enum_def by (intro keeps_all keeps_intType) simp_all

lemma keeps_define_pointer: "(\<And>c. keeps R (call c)) \<Longrightarrow> keeps R (define_pointer E n call k)"
  unfolding define_pointer_def by (intro keeps_all)

lemma keeps_typedef:
  assumes "\<And>c. keeps R (call c)"
  shows "keeps R (define_typedef E n call k)" "keeps R (declare_typedef E n call k)"
  unfolding define_typedef_def declare_typedef_def
  by (intro keeps_all keeps_ctype assms; simp)+

lemma keeps_define_function: "(\<And>c. keeps R (call c)) \<Longrightarrow> keeps R (define_function E n call k)"
  unfolding define_function_def by (intro keeps_all)

lemma keeps_declare_obj:
  "(\<And>c. keeps R (call c)) \<Longrightarrow> \<not> is_member_kind kd \<Longrightarrow> keeps R (declare_obj E n call k kd)"
  unfolding declare_obj_def by (auto intro!: keeps_all keeps_typedef)

lemma keeps_define_obj:
  assumes "\<And>c. keeps R (call c)" and "declares call"
    and "define_obj E n call k kd s = Inr (b, s')" and "\<And>ob. heap s k = Some ob \<Longrightarrow> ob_kind ob = kd"
    and "heap s k \<noteq> None"
  shows "R s s'"
proof (cases "is_member_kind kd")
  case True
  then have "keeps (guarded False k R) (define_obj E n call k kd)"
    using keeps_define_struct_union [OF assms(1,2)] by (auto simp: define_obj_def is_member_kind_def)
  with assms(3-5) True show ?thesis by (auto dest!: keepsD simp: guarded_def ready_def)
next
  case False
  then have "keeps R (define_obj E n call k kd)"
    unfolding define_obj_def using assms(1)
    by (cases kd) (auto simp: is_member_kind_def intro!: keeps_all keeps_define_enum
        keeps_define_pointer keeps_typedef keeps_define_function)
  then show ?thesis using assms(3) by (rule keepsD)
qed

end

text \<open>What the definition of a structure or union returns: \<open>False\<close> before anything has changed, or
  \<open>True\<close> with its size written.\<close>

definition with_name :: "string \<Rightarrow> string list \<Rightarrow> string list" where
  "with_name nm ns = (if List.member ns nm then ns else ns @ [nm])"

lemma add_defined_eq: "add_defined nm s = Inr ((), s\<lparr>definedNames := with_name nm (definedNames s)\<rparr>)"
  by (simp add: add_defined_def with_name_def)

lemma set_with_name [simp]: "set (with_name nm ns) = insert nm (set ns)"
  by (auto simp: with_name_def)

interpretation stab: resolver_relation stable E for E
proof
  fix s t u
  show "stable s s" by (rule stable_refl)
  show "stable s u" if "stable s t" "stable t u" using that by (rule stable_trans)
  show "stable s t" if "stable s t" using that .
  show "stable s t" if "discovers s t"
    using that by (simp add: stable_def discovers_def same_rest_def)
qed (simp_all add: stable_def same_later, simp_all add: later_obj_def)

lemma stable_writes: "keeps stable (write_stmt k x)" "keeps stable (write_fields E n k)"
proof -
  show w: "keeps stable (write_stmt k x)" for k x
    by (auto simp: keeps_def write_stmt_def stable_def)
  show "keeps stable (write_fields E n k)"
    unfolding write_fields_def Let_def
    by (intro stab.keeps_more stab.keeps_updobj stab.keeps_member_loop w) (simp_all add: same_obj_def)
qed

text \<open>The two statements that \<open>sized\<close> asks for come one after the other.\<close>

lemma write_size_run:
  assumes "write_size E k s = Inr (u, s')" and "heap s k = Some ob" and "ob_defdie ob = Some f"
  shows "\<exists>z. heap s' k = Some ob \<and> DW_AT_byte_size (e_dw E f) = Some z
    \<and> (k, SNativeSize (obj_pyName E ob True) z) \<in> set (out s')"
proof -
  from assms(1,2) obtain g s1 z where g: "definition_of E k s = Inr (g, s1)" "DW_AT_byte_size (e_dw E g) = Some z"
    and s': "s' = s1\<lparr>out := out s1 @ [(k, SBlank), (k, SNativeSize (obj_pyName E ob True) z)]\<rparr>"
    by (auto simp: write_size_def andthen_def sbind_eq_Inr getobj_Inr lift_eq_Inr need_eq_Inr write_stmt_def)
  have "g = f" using g(1) assms(2,3)
    by (simp add: definition_of_def resolve_definition_def andthen_def sbind_eq_Inr getobj_Inr)
  with definition_of_obj [OF g(1) assms(2)] s' g(2) assms(3) show ?thesis by simp
qed

lemma write_rest_run:
  assumes "write_rest E n k s = Inr (b, s')" and "heap s k = Some ob"
  shows "(k, SHaveDefinition (obj_pyName E ob True)) \<in> set (out s')"
proof -
  let ?s1 = "s\<lparr>out := out s @ [(k, SHaveDefinition (obj_pyName E ob True))]\<rparr>"
  from assms have r: "andthen (write_unaligned E k ob) (andthen (write_fields E n k)
      (andthen (write_stmt k SBlank) (ret True))) ?s1 = Inr (b, s')"
    by (auto simp: write_rest_def andthen_def sbind_eq_Inr getobj_Inr write_stmt_def)
  have "keeps stable (andthen (write_unaligned E k ob) (andthen (write_fields E n k)
      (andthen (write_stmt k SBlank) (ret True))))"
    by (intro stab.keeps_more stable_writes stab.keeps_write_unaligned)
  from stable_out [OF keepsD [OF this r]] show ?thesis by auto
qed

lemma stable_write_rest: "keeps stable (write_rest E n k)"
  unfolding write_rest_def by (intro stab.keeps_more stable_writes stab.keeps_write_unaligned)

lemma define_member_sized:
  assumes call: "\<And>c. keeps stable (call c)" and decl: "declares call"
    and run: "define_member_type E n call k s = Inr (True, s')"
  shows "sized E k s'"
proof -
  from run obtain f s1 where f: "definition_of E k s = Inr (f, s1)" "\<not> DW_AT_declaration (e_dw E f)"
    and r: "andthen (findMembers E k) (andthen (call (DeclareType (Some (Obj k))))
       (andthen (define_members E n call k) (andthen (write_size E k) (write_rest E n k)))) s1 = Inr (True, s')"
    by (auto simp: define_member_type_def andthen_def sbind_eq_Inr split: if_splits)
  obtain ob where "heap s k = Some ob" using f(1) by (auto simp: definition_of_def sbind_eq_Inr getobj_Inr)
  with definition_of_obj [OF f(1)] obtain ob1 where ob1: "heap s1 k = Some ob1" "ob_defdie ob1 = Some f" by simp
  from r obtain s2 b s3 s4 s5 where pre: "findMembers E k s1 = Inr ((), s2)"
      "call (DeclareType (Some (Obj k))) s2 = Inr (b, s3)" "define_members E n call k s3 = Inr ((), s4)"
    and size: "write_size E k s4 = Inr ((), s5)" and rest: "write_rest E n k s5 = Inr (True, s')"
    by (auto simp: andthen_def sbind_eq_Inr)
  have st: "stable s1 s2" "stable s2 s3" "stable s3 s4"
    by (rule keepsD [OF stab.keeps_findMembers pre(1)] keepsD [OF call pre(2)]
        keepsD [OF stab.keeps_define_members [OF call] pre(3)])+
  have "declared_in k s3" using decl pre(2) by (auto simp: declares_def)
  then have "declared_in k s4" using st(3) by (rule stable_declared [rotated])
  moreover have "stable s1 s4" using st by (blast intro: stable_trans)
  ultimately obtain ob4 where ob4: "heap s4 k = Some ob4" "ob_defdie ob4 = Some f" "ob_declared ob4"
    using stableD [OF _ ob1(1)] ob1(2) by (fastforce simp: later_obj_def declared_in_def)
  with write_size_run [OF size] obtain z where z: "heap s5 k = Some ob4" "DW_AT_byte_size (e_dw E f) = Some z"
    "(k, SNativeSize (obj_pyName E ob4 True) z) \<in> set (out s5)" by blast
  have st5: "stable s5 s'" by (rule keepsD [OF stable_write_rest rest])
  then obtain ob' where ob': "heap s' k = Some ob'" "later_obj ob4 ob'" using stableD [OF _ z(1)] by blast
  have py: "obj_pyName E ob' True = obj_pyName E ob4 True"
    by (rule obj_pyName_cong) (use ob'(2) in \<open>simp_all add: later_obj_def\<close>)
  have "ob_declared ob'" "ob_defdie ob' = Some f" using ob'(2) ob4 by (simp_all add: later_obj_def)
  moreover have "{(k, SNativeSize (obj_pyName E ob' True) z), (k, SHaveDefinition (obj_pyName E ob' True))} \<subseteq> set (out s')"
    using z(3) stable_out [OF st5] write_rest_run [OF rest z(1)] unfolding py by blast
  ultimately show ?thesis using ob'(1) z(2) f(2) unfolding sized_def by blast
qed

lemma define_obj_sized:
  assumes "\<And>c. keeps stable (call c)" and "is_member_kind kd"
    and "define_obj E n call k kd s = Inr (True, s')" and "declares call"
  shows "sized E k s'"
proof -
  from assms(2,3) obtain s1 where "define_member_type E n call k s = Inr (True, s1)" "stable s1 s'"
    by (auto simp: define_obj_def is_member_kind_def define_struct_def define_union_def andthen_def
        sbind_eq_Inr getobj_Inr write_stmt_def stable_heap stable_refl split: if_splits)
  then show ?thesis
    using define_member_sized [where call = call, OF assms(1,4)] stable_sized by blast
qed

text \<open>Defining an enumeration writes it.\<close>

lemma dieToType_key: "dieToType E n (Some d) s = Inr (t, s') \<Longrightarrow> t = Obj (key_of E d)"
  by (cases n) (auto simp: Let_def andthen_def sbind_eq_Inr split: option.splits if_splits)

lemma definition_stored:
  assumes "definition_of E k s = Inr (g, s')" and "heap s k = Some ob" and "ob_defdie ob = Some f"
  shows "g = f"
  using assms by (simp add: definition_of_def resolve_definition_def andthen_def sbind_eq_Inr getobj_Inr)

lemma intType_run:
  assumes run: "intType E n k s = Inr (ty, s')" and ob: "heap s k = Some ob"
  shows "\<exists>ob' f. heap s' k = Some ob' \<and> later_obj ob ob' \<and> ob_defdie ob' = Some f
    \<and> (case DW_AT_type (e_dw E f) of None \<Rightarrow> ty = ''c_uint''
        | Some b \<Rightarrow> \<exists>a. heap s' (key_of E b) = Some a \<and> ty = obj_pyName E a True)"
proof -
  from run obtain f s1 where f: "definition_of E k s = Inr (f, s1)"
    and r: "(case DW_AT_type (e_dw E f) of None \<Rightarrow> ret ''c_uint''
     | Some b \<Rightarrow> sbind (dieToType E n (Some b)) (\<lambda>t. type_pyName E t True)) s1 = Inr (ty, s')"
    by (auto simp: intType_def sbind_eq_Inr)
  have 1: "heap s1 k = Some (ob\<lparr>ob_defdie := Some f\<rparr>)" by (rule definition_of_obj [OF f ob])
  have l: "later_obj ob (ob\<lparr>ob_defdie := Some f\<rparr>)"
    using stableD [OF keepsD [OF stab.keeps_definition_of f] ob] 1 by auto
  show ?thesis
  proof (cases "DW_AT_type (e_dw E f)")
    case None
    with r 1 l show ?thesis by auto
  next
    case (Some b)
    with r obtain t s2 where t: "dieToType E n (Some b) s1 = Inr (t, s2)" "type_pyName E t True s2 = Inr (ty, s')"
      by (auto simp: sbind_eq_Inr)
    have "heap s2 k = Some (ob\<lparr>ob_defdie := Some f\<rparr>)"
      using keepsD [OF disc_dieToType t(1)] 1 by (simp add: discovers_def)
    with t(2) dieToType_key [OF t(1)] l Some show ?thesis
      by (auto simp: type_pyName_def sbind_eq_Inr getobj_Inr)
  qed
qed

lemma forM_add_defined: "forM ns add_defined s = Inr (u, s') \<Longrightarrow> heap s' = heap s \<and> out s' = out s"
  by (induction ns arbitrary: s) (auto simp: sbind_eq_Inr add_defined_eq)

lemma define_enum_enumerated:
  assumes call: "\<And>c. keeps stable (call c)" and run: "define_enum E n call k s = Inr (b, s')" and ob: "heap s k = Some ob"
  shows "b \<and> enumerated E k s'"
proof -
  from run obtain t s1 v s2 ty s3 where 1: "baseType E n k s = Inr (t, s1)"
    "(if t \<noteq> None then call (DefineType t) else ret True) s1 = Inr (v, s2)" "intType E n k s2 = Inr (ty, s3)"
    and r: "sbind (getobj k) (\<lambda>ob.
     sbind (definition_of E k) (\<lambda>f.
     sbind (lift (enum_lines (e_dw E) (dieComment E ob) (children (e_dw E f)))) (\<lambda>ls.
     andthen (write_stmt k (SEnum (obj_pyName E ob True) ty (ob_nameless ob) ls))
     (andthen (if ob_nameless ob then forM (value_names ls) add_defined else ret ())
     (ret True))))) s3 = Inr (b, s')"
    by (auto simp: define_enum_def andthen_def sbind_eq_Inr)
  have "stable s s1" by (rule keepsD [OF stab.keeps_baseType 1(1)])
  moreover have "keeps stable (if t \<noteq> None then call (DefineType t) else ret True)"
    by (simp add: call stab.keeps_intros)
  from keepsD [OF this 1(2)] have "stable s1 s2" .
  ultimately have "stable s s2" by (rule stable_trans)
  then obtain ob2 where "heap s2 k = Some ob2" using stableD [OF _ ob] by blast
  from intType_run [OF 1(3) this] obtain ob3 f where ob3: "heap s3 k = Some ob3" "ob_defdie ob3 = Some f"
    and ty: "case DW_AT_type (e_dw E f) of None \<Rightarrow> ty = ''c_uint''
        | Some b \<Rightarrow> \<exists>a. heap s3 (key_of E b) = Some a \<and> ty = obj_pyName E a True" by blast
  from r ob3(1) obtain g s4 ls where 4: "definition_of E k s3 = Inr (g, s4)"
      "enum_lines (e_dw E) (dieComment E ob3) (children (e_dw E g)) = Inr ls" and b: "b"
    and w: "(if ob_nameless ob3 then forM (value_names ls) add_defined else ret ())
      (s4\<lparr>out := out s4 @ [(k, SEnum (obj_pyName E ob3 True) ty (ob_nameless ob3) ls)]\<rparr>) = Inr ((), s')"
    by (auto simp: andthen_def sbind_eq_Inr getobj_Inr lift_eq_Inr write_stmt_def)
  have g: "g = f" by (rule definition_stored [OF 4(1) ob3])
  from definition_of_obj [OF 4(1) ob3(1)] ob3(2) g have ob4: "heap s4 k = Some ob3" by simp
  have s': "heap s' = heap s4" "out s' = out s4 @ [(k, SEnum (obj_pyName E ob3 True) ty (ob_nameless ob3) ls)]"
    using w by (auto dest: forM_add_defined split: if_splits)
  have st: "stable s3 s4" by (rule keepsD [OF stab.keeps_definition_of 4(1)])
  have "case DW_AT_type (e_dw E f) of None \<Rightarrow> ty = ''c_uint''
      | Some b \<Rightarrow> \<exists>ob'. heap s' (key_of E b) = Some ob' \<and> ty = obj_pyName E ob' True"
    using ty later_pyName stableD [OF st] s'(1) by (fastforce split: option.split)
  with b ob4 ob3(2) 4(2) g s' show ?thesis unfolding enumerated_def by fastforce
qed

lemma write_rest_True: "write_rest E n k s = Inr (b, s') \<Longrightarrow> b"
  by (auto simp: write_rest_def andthen_def sbind_eq_Inr)

lemma define_obj_False:
  assumes "define_obj E n call k kd s = Inr (False, s')" and "is_member_kind kd" and "heap s k = Some ob"
  shows "\<exists>f. heap s' k = Some (ob\<lparr>ob_defdie := Some f\<rparr>) \<and> DW_AT_declaration (e_dw E f)"
proof -
  from assms(1,2) obtain f where f: "definition_of E k s = Inr (f, s')" "DW_AT_declaration (e_dw E f)"
    by (auto simp: define_obj_def is_member_kind_def define_struct_def define_union_def
        define_member_type_def andthen_def sbind_eq_Inr dest: write_rest_True split: if_splits)
  from definition_of_obj [OF f(1) assms(3)] f(2) show ?thesis by blast
qed

context resolver_relation
begin

lemma keeps_declareType:
  assumes "\<And>c. keeps R (call c)"
  shows "keeps R (declareType E n call t)"
proof (rule keepsI)
  fix s u s' assume run: "declareType E n call t s = Inr (u, s')"
  show "R s s'"
  proof (cases "\<exists>k ob. t = Some (Obj k) \<and> heap s k = Some ob \<and> \<not> ob_declared ob")
    case False
    with run show ?thesis
      by (auto simp: declareType_def sbind_eq_Inr getobj_Inr R_refl split: option.splits tref.splits)
  next
    case True
    then obtain k ob where k: "t = Some (Obj k)" "heap s k = Some ob" "\<not> ob_declared ob" by blast
    with run obtain u1 s1 where 1: "declare_obj E n call k (ob_kind ob) s = Inr (u1, s1)"
      "updobj k (\<lambda>ob. ob\<lparr>ob_declared := True\<rparr>) s1 = Inr ((), s')"
      by (auto simp: declareType_def andthen_def sbind_eq_Inr getobj_Inr)
    show ?thesis
    proof (cases "is_member_kind (ob_kind ob)")
      case True
      with 1 k R_class [OF k(2) True k(3), of "SClass (obj_pyName E ob True) (ob_base ob) (ob_mixins ob) (dieComment E ob)"]
      show ?thesis
        by (auto simp: declare_obj_def declare_member_type_def sbind_eq_Inr getobj_Inr updobj_Inr
            write_stmt_def)
    next
      case False
      have s1: "R s s1" by (rule keepsD [OF keeps_declare_obj [OF assms False] 1(1)])
      from 1 obtain ob1 where ob1: "heap s1 k = Some ob1"
        "s' = s1\<lparr>heap := (heap s1)(k \<mapsto> ob1\<lparr>ob_declared := True\<rparr>)\<rparr>"
        by (auto simp: updobj_Inr)
      with stableD [OF R_stable [OF s1] k(2)] have "ob_kind ob1 = ob_kind ob" by (auto simp: later_obj_def)
      with False R_declare [OF ob1(1)] ob1(2) R_trans [OF s1] show ?thesis by simp
    qed
  qed
qed

lemma keeps_defineType:
  assumes "\<And>c. keeps R (call c)" and "declares call"
  shows "keeps R (defineType E n call t)"
proof (rule keepsI)
  fix s b s' assume run: "defineType E n call t s = Inr (b, s')"
  show "R s s'"
  proof (cases "\<exists>k ob. t = Some (Obj k) \<and> heap s k = Some ob \<and> \<not> ob_defined ob")
    case False
    with run show ?thesis
      by (auto simp: defineType_def sbind_eq_Inr getobj_Inr R_refl split: option.splits tref.splits)
  next
    case True
    then obtain k ob where k: "t = Some (Obj k)" "heap s k = Some ob" "\<not> ob_defined ob" by blast
    with run obtain f s1 v where 1: "definition_of E k s = Inr (f, s1)" "isVoid (e_dw E) (Some f) = Inr v"
      by (auto simp: defineType_def sbind_eq_Inr getobj_Inr lift_eq_Inr)
    have s1: "R s s1" using keepsD [OF keeps_definition_of 1(1)] .
    show ?thesis
    proof (cases v)
      case True
      with run k 1 have "errorfunc (obj_name E ob True @ '' is '' @ quoted ''void''
          @ '' - cannot output definition'') s1 = Inr ((), s')"
        by (auto simp: defineType_def andthen_def sbind_eq_Inr getobj_Inr)
      with s1 show ?thesis using keepsD [OF keeps_find(2)] R_trans by blast
    next
      case False
      with run k 1 obtain s2 where s2: "define_obj E n call k (ob_kind ob) s1 = Inr (b, s2)"
        "andthen (updobj k (\<lambda>ob. ob\<lparr>ob_defined := b\<rparr>)) (sbind (getobj k) (\<lambda>ob.
           andthen (if b then add_defined (obj_pyName E ob True) else ret ()) (ret b))) s2 = Inr (b, s')"
        by (auto simp: defineType_def sbind_eq_Inr getobj_Inr andthen_def split: if_splits)
      obtain ob1 where ob1: "heap s1 k = Some ob1" "ob_kind ob1 = ob_kind ob" "ob_defined ob1 = ob_defined ob"
        using definition_of_obj [OF 1(1) k(2)] by simp
      have keeps_stable: "keeps stable (call c)" for c
        using assms(1) R_stable unfolding keeps_def by blast
      have s12: "R s1 s2"
        by (rule keeps_define_obj [OF assms s2(1)]) (use ob1 in auto)
      from stableD [OF R_stable [OF s12] ob1(1)] obtain ob2 where
        ob2: "heap s2 k = Some ob2" "ob_kind ob2 = ob_kind ob" using ob1 by (auto simp: later_obj_def)
      let ?s3 = "s2\<lparr>heap := (heap s2)(k \<mapsto> ob2\<lparr>ob_defined := b\<rparr>)\<rparr>"
      have s': "s' = (if b then ?s3\<lparr>definedNames := with_name (obj_pyName E ob2 True) (definedNames s2)\<rparr> else ?s3)"
        using s2(2) ob2(1) obj_pyName_cong [of "ob2\<lparr>ob_defined := True\<rparr>" ob2 E True]
        by (auto simp: andthen_run sbind_eq_Inr getobj_Inr updobj_Inr add_defined_eq split: sum.splits if_splits)
      have "R s2 s'"
      proof (cases "b \<and> tracked (ob_kind ob)")
        case True
        then have "is_member_kind (ob_kind ob) \<Longrightarrow> sized E k s2"
          using define_obj_sized [OF keeps_stable, where kd = "ob_kind ob"] s2(1) assms(2) by simp
        moreover have "ob_kind ob = KEnum \<Longrightarrow> enumerated E k s2"
          using define_enum_enumerated [where call = call, OF keeps_stable _ ob1(1)] s2(1) by (simp add: define_obj_def)
        ultimately show ?thesis using True ob2 s' by (auto intro!: R_complete)
      next
        case False
        have enum: "ob_kind ob = KEnum \<Longrightarrow> b"
          using define_enum_enumerated [where call = call, OF keeps_stable _ ob1(1), of E n b s2] s2(1)
          by (simp add: define_obj_def)
        have "same_obj ob2 (ob2\<lparr>ob_defined := b\<rparr>)"
        proof (cases "is_member_kind (ob_kind ob)")
          case True
          with False s2(1) have "define_obj E n call k (ob_kind ob) s1 = Inr (False, s2)" by simp
          from define_obj_False [OF this True ob1(1)] ob1 ob2 k(3) False True show ?thesis
            by (auto simp: same_obj_def)
        qed (use ob2 enum False in \<open>auto simp: same_obj_def tracked_def\<close>)
        from R_update [OF ob2(1) this] have "R s2 ?s3" .
        moreover have "R ?s3 s'"
          using s' by (auto intro!: R_refl R_defined)
        ultimately show ?thesis by (rule R_trans)
      qed
      with s1 s12 show ?thesis by (blast intro: R_trans)
    qed
  qed
qed

theorem keeps_run: "keeps R (run E n c)"
proof (induction n arbitrary: c)
  case (Suc n)
  have "keeps R (step E n (\<lambda>c. run E n c) c)"
    by (cases c) (auto simp: step_def run_declares
        intro!: keeps_all keeps_declareType keeps_defineType Suc)
  then show ?case by simp
qed (auto intro: keeps_intros)

end

section \<open>Growth\<close>

definition grows :: "rstate \<Rightarrow> rstate \<Rightarrow> bool" where
  "grows s s' = (stable s s'
     \<and> set (definedNames s) \<subseteq> set (definedNames s') \<and> set (defineTypes s) \<subseteq> set (defineTypes s')
     \<and> (heap_ok s \<longrightarrow> heap_ok s'))"

lemma discovers_stable: "discovers s s' \<Longrightarrow> stable s s'"
  unfolding discovers_def stable_def same_rest_def by (metis append_Nil2 later_refl)

lemma heap_ok_update: "heap s k = Some ob \<Longrightarrow> heap_ok s \<Longrightarrow> heap s' = (heap s)(k \<mapsto> ob') \<Longrightarrow>
    heap_keys s' = heap_keys s \<Longrightarrow> heap_ok s'"
  by (auto simp: heap_ok_def)

lemma discovers_defined: "discovers s t \<Longrightarrow> heap t k = Some ob \<Longrightarrow> ob_defined ob \<Longrightarrow> heap s k = Some ob"
  unfolding discovers_def fresh_obj_def by (cases "heap s k") fastforce+

interpretation growth: resolver_relation grows E for E
proof
  fix s t u
  show "grows s s" by (simp add: grows_def stable_refl)
  show "grows s u" if "grows s t" "grows t u"
    using that unfolding grows_def by (auto intro: stable_trans)
  show "stable s t" if "grows s t" using that by (simp add: grows_def)
  show "grows s t" if "discovers s t"
    using that discovers_stable [OF that] by (auto simp: grows_def discovers_def same_rest_def)
qed (auto simp: grows_def same_later heap_ok_def stable_def, auto simp: later_obj_def)

section \<open>Order of the statements\<close>

text \<open>How often the class statement of an object was written; and what the statements so far say
  about the objects.\<close>

definition classes_of :: "(key \<times> stmt) list \<Rightarrow> key \<Rightarrow> nat" where
  "classes_of xs k = length (filter (\<lambda>(k', x). k' = k \<and> is_class x) xs)"

definition fields_after :: "(key \<times> stmt) list \<Rightarrow> bool" where
  "fields_after os = (\<forall>xs k x ys. os = xs @ (k, x) # ys \<longrightarrow> is_fields x \<longrightarrow> 0 < classes_of xs k)"

definition ordered :: "rstate \<Rightarrow> bool" where
  "ordered s = ((\<forall>k. classes_of (out s) k = (if ready True k s then 1 else 0)) \<and> fields_after (out s))"

definition keeps_order :: "rstate \<Rightarrow> rstate \<Rightarrow> bool" where
  "keeps_order s s' = (stable s s' \<and> (ordered s \<longrightarrow> ordered s'))"

lemma classes_of_append [simp]: "classes_of (xs @ ys) k = classes_of xs k + classes_of ys k"
  by (simp add: classes_of_def)

lemma classes_of_single [simp]: "classes_of [(k', x)] k = (if k' = k \<and> is_class x then 1 else 0)"
  by (simp add: classes_of_def)

lemma classes_of_Nil [simp]: "classes_of [] k = 0"
  by (simp add: classes_of_def)

lemma fields_after_append:
  "fields_after os \<Longrightarrow> (is_fields x \<Longrightarrow> 0 < classes_of os k) \<Longrightarrow> fields_after (os @ [(k, x)])"
  unfolding fields_after_def
proof (intro allI impI)
  fix xs k' x' ys
  assume a: "\<forall>xs k x ys. os = xs @ (k, x) # ys \<longrightarrow> is_fields x \<longrightarrow> 0 < classes_of xs k"
    "is_fields x \<Longrightarrow> 0 < classes_of os k" "os @ [(k, x)] = xs @ (k', x') # ys" "is_fields x'"
  show "0 < classes_of xs k'"
  proof (cases ys rule: rev_cases)
    case (snoc zs z)
    with a(3) have "os = xs @ (k', x') # zs" by simp
    with a(1,4) show ?thesis by blast
  qed (use a in simp)
qed

lemma ready_simps:
  "ready dcl k (s\<lparr>out := xs\<rparr>) = ready dcl k s" "ready dcl k (s\<lparr>definedNames := ns\<rparr>) = ready dcl k s"
  "ready dcl k (s\<lparr>defineTypes := ks\<rparr>) = ready dcl k s"
  by (simp_all add: ready_def)

lemma ready_heap:
  "(\<And>k ob'. h k = Some ob' \<Longrightarrow> is_member_kind (ob_kind ob') \<Longrightarrow> ob_declared ob' \<Longrightarrow>
      (\<exists>ob. heap s k = Some ob \<and> is_member_kind (ob_kind ob) \<and> ob_declared ob)) \<Longrightarrow>
   stable s s' \<Longrightarrow> heap s' = h \<Longrightarrow> ready True k s' = ready True k s"
  using stable_ready [of s s' True k] by (auto simp: ready_def)

interpretation order: resolver_relation keeps_order E for E
proof
  fix s t u
  show "keeps_order s s" by (simp add: keeps_order_def stable_refl)
  show "keeps_order s u" if "keeps_order s t" "keeps_order t u"
    using that unfolding keeps_order_def by (blast intro: stable_trans)
  show "stable s t" if "keeps_order s t" using that by (simp add: keeps_order_def)
  show "keeps_order s t" if d: "discovers s t"
  proof -
    have "ready True k t = ready True k s" for k
      by (rule ready_heap [OF _ discovers_stable [OF d] refl])
        (use d in \<open>fastforce simp: discovers_def fresh_obj_def\<close>)
    with d show ?thesis
      by (simp add: keeps_order_def ordered_def discovers_stable discovers_def same_rest_def)
  qed
next
  fix s :: rstate and k ob ob' assume h: "heap s k = Some ob" and o: "same_obj ob ob'"
  let ?s' = "s\<lparr>heap := (heap s)(k \<mapsto> ob')\<rparr>"
  have st: "stable s ?s'" using h same_later [OF o] by (intro stable_update) auto
  have "ready True k' ?s' = ready True k' s" for k'
    using h o by (auto simp: ready_def same_obj_def)
  with st show "keeps_order s ?s'" by (simp add: keeps_order_def ordered_def)
next
  fix s :: rstate and ns assume "set (definedNames s) \<subseteq> set ns"
  show "keeps_order s (s\<lparr>definedNames := ns\<rparr>)"
    by (simp add: keeps_order_def ordered_def ready_simps stable_heap)
next
  fix s :: rstate and ks assume "set (defineTypes s) \<subseteq> set ks"
  show "keeps_order s (s\<lparr>defineTypes := ks\<rparr>)"
    by (simp add: keeps_order_def ordered_def ready_simps stable_heap)
next
  fix s :: rstate and k ob x
  assume h: "heap s k = Some ob" "is_member_kind (ob_kind ob)" "\<not> ob_declared ob" and x: "is_class x"
  let ?s' = "s\<lparr>out := out s @ [(k, x)], heap := (heap s)(k \<mapsto> ob\<lparr>ob_declared := True\<rparr>)\<rparr>"
  have st: "stable s ?s'" using h by (intro stable_update) (auto simp: later_obj_def)
  have "ready True k' ?s' = (k' = k \<or> ready True k' s)" for k'
    using h by (auto simp: ready_def)
  moreover have "\<not> ready True k s" using h by (simp add: ready_def)
  moreover have "\<not> is_fields x" using x by (cases x) auto
  ultimately show "keeps_order s ?s'"
    using st x by (auto simp: keeps_order_def ordered_def intro: fields_after_append)
next
  fix s :: rstate and E :: env and k ob ns assume h: "heap s k = Some ob"
  let ?s' = "s\<lparr>heap := (heap s)(k \<mapsto> ob\<lparr>ob_defined := True\<rparr>), definedNames := ns\<rparr>"
  have st: "stable s ?s'" using h by (intro stable_update) (auto simp: later_obj_def)
  have "ready True k' ?s' = ready True k' s" for k' using h by (auto simp: ready_def)
  with st show "keeps_order s ?s'" by (simp add: keeps_order_def ordered_def)
next
  fix s :: rstate and k ob assume h: "heap s k = Some ob" "\<not> is_member_kind (ob_kind ob)"
  let ?s' = "s\<lparr>heap := (heap s)(k \<mapsto> ob\<lparr>ob_declared := True\<rparr>)\<rparr>"
  have st: "stable s ?s'" using h by (intro stable_update) (auto simp: later_obj_def)
  have "ready True k' ?s' = ready True k' s" for k' using h by (auto simp: ready_def)
  with st show "keeps_order s ?s'" by (simp add: keeps_order_def ordered_def)
next
  fix s :: rstate and k x assume "\<not> is_class x" "\<not> is_fields x"
  then show "keeps_order s (s\<lparr>out := out s @ [(k, x)]\<rparr>)"
    by (auto simp: keeps_order_def ordered_def ready_simps intro: stable_heap fields_after_append)
next
  fix s :: rstate and k x assume "ready True k s" "is_fields x"
  moreover have "\<not> is_class x" using \<open>is_fields x\<close> by (cases x) auto
  ultimately show "keeps_order s (s\<lparr>out := out s @ [(k, x)]\<rparr>)"
    by (auto simp: keeps_order_def ordered_def ready_simps intro: stable_heap fields_after_append)
qed

section \<open>Sizes\<close>

text \<open>Every structure or union that counts as defined has its size among the statements, every
  enumeration its values.\<close>

definition told_of :: "env \<Rightarrow> key \<Rightarrow> tkind \<Rightarrow> rstate \<Rightarrow> bool" where
  "told_of E k kd s = ((is_member_kind kd \<longrightarrow> sized E k s) \<and> (kd = KEnum \<longrightarrow> enumerated E k s))"

lemma stable_told_of: "stable s s' \<Longrightarrow> told_of E k kd s \<Longrightarrow> told_of E k kd s'"
  using stable_sized stable_enumerated by (auto simp: told_of_def)

definition all_sized :: "env \<Rightarrow> rstate \<Rightarrow> bool" where
  "all_sized E s = (\<forall>k ob. heap s k = Some ob \<longrightarrow> tracked (ob_kind ob) \<longrightarrow> ob_defined ob \<longrightarrow> told_of E k (ob_kind ob) s)"

definition keeps_sized :: "env \<Rightarrow> rstate \<Rightarrow> rstate \<Rightarrow> bool" where
  "keeps_sized E s s' = (stable s s' \<and> (all_sized E s \<longrightarrow> all_sized E s'))"

lemma keeps_sizedI:
  assumes "stable s s'"
    and "\<And>k ob. heap s' k = Some ob \<Longrightarrow> tracked (ob_kind ob) \<Longrightarrow> ob_defined ob \<Longrightarrow>
      (\<exists>ob'. heap s k = Some ob' \<and> ob_kind ob' = ob_kind ob \<and> ob_defined ob') \<or> told_of E k (ob_kind ob) s"
  shows "keeps_sized E s s'"
  unfolding keeps_sized_def all_sized_def using assms stable_told_of by (metis (no_types))

lemma keeps_sized_same: "heap s' = heap s \<Longrightarrow> out s' = out s @ xs \<Longrightarrow> keeps_sized E s s'"
  by (rule keeps_sizedI [OF stable_heap]) simp_all

lemma keeps_sized_update:
  assumes "heap s k = Some ob" and "later_obj ob ob'" and "heap s' = (heap s)(k \<mapsto> ob')"
    and "out s' = out s @ xs" and "tracked (ob_kind ob) \<Longrightarrow> ob_defined ob' \<Longrightarrow> ob_defined ob \<or> told_of E k (ob_kind ob) s"
  shows "keeps_sized E s s'"
proof (rule keeps_sizedI [OF stable_update [OF assms(1-4)]])
  fix j a assume "heap s' j = Some a" "tracked (ob_kind a)" "ob_defined a"
  with assms show "(\<exists>ob'. heap s j = Some ob' \<and> ob_kind ob' = ob_kind a \<and> ob_defined ob') \<or> told_of E j (ob_kind a) s"
    by (cases "j = k") (auto simp: later_obj_def)
qed

interpretation sizes: resolver_relation "keeps_sized E" E for E
proof
  fix s t u
  show "keeps_sized E s s" for E by (simp add: keeps_sized_def stable_refl)
  show "keeps_sized E s u" if "keeps_sized E s t" "keeps_sized E t u" for E
    using that unfolding keeps_sized_def by (blast intro: stable_trans)
  show "stable s t" if "keeps_sized E s t" for E using that by (simp add: keeps_sized_def)
  show "keeps_sized E s t" if d: "discovers s t" for E
  proof (rule keeps_sizedI [OF discovers_stable [OF d]])
    fix k ob assume ob: "heap t k = Some ob" "ob_defined ob"
    from discovers_defined [OF d ob] have "heap s k = Some ob" .
    with ob show "(\<exists>ob'. heap s k = Some ob' \<and> ob_kind ob' = ob_kind ob \<and> ob_defined ob') \<or> told_of E k (ob_kind ob) s"
      by blast
  qed
next
  fix s :: rstate and E k ob ob' assume h: "heap s k = Some ob" and o: "same_obj ob ob'"
  show "keeps_sized E s (s\<lparr>heap := (heap s)(k \<mapsto> ob')\<rparr>)"
    by (rule keeps_sized_update [OF h same_later [OF o], where xs = "[]"])
      (use o in \<open>simp_all add: same_obj_def\<close>)
next
  fix s :: rstate and E k ob ns assume h: "heap s k = Some ob"
    and "is_member_kind (ob_kind ob) \<Longrightarrow> sized E k s" "ob_kind ob = KEnum \<Longrightarrow> enumerated E k s"
  then show "keeps_sized E s (s\<lparr>heap := (heap s)(k \<mapsto> ob\<lparr>ob_defined := True\<rparr>), definedNames := ns\<rparr>)"
    by (intro keeps_sized_update [OF h, where xs = "[]"]) (simp_all add: later_obj_def told_of_def)
next
  fix s :: rstate and E k ob assume h: "heap s k = Some ob"
  have l: "later_obj ob (ob\<lparr>ob_declared := True\<rparr>)" by (simp add: later_obj_def)
  show "keeps_sized E s (s\<lparr>heap := (heap s)(k \<mapsto> ob\<lparr>ob_declared := True\<rparr>)\<rparr>)"
    by (rule keeps_sized_update [OF h l, where xs = "[]"]) simp_all
  show "keeps_sized E s (s\<lparr>out := out s @ [(k, x)], heap := (heap s)(k \<mapsto> ob\<lparr>ob_declared := True\<rparr>)\<rparr>)" for x
    by (rule keeps_sized_update [OF h l]) simp_all
qed (simp_all add: keeps_sized_same [where xs = "[]"] keeps_sized_same)

section \<open>Names\<close>

text \<open>Every structure or union that counts as defined has its name among the names defined.\<close>

definition all_named :: "env \<Rightarrow> rstate \<Rightarrow> bool" where
  "all_named E s = (\<forall>k ob. heap s k = Some ob \<longrightarrow> is_member_kind (ob_kind ob) \<longrightarrow> ob_defined ob \<longrightarrow>
     obj_pyName E ob True \<in> set (definedNames s))"

definition keeps_named :: "env \<Rightarrow> rstate \<Rightarrow> rstate \<Rightarrow> bool" where
  "keeps_named E s s' = (stable s s' \<and> set (definedNames s) \<subseteq> set (definedNames s')
     \<and> (all_named E s \<longrightarrow> all_named E s'))"

lemma keeps_namedI:
  assumes "stable s s'" and "set (definedNames s) \<subseteq> set (definedNames s')"
    and "\<And>k ob. heap s' k = Some ob \<Longrightarrow> is_member_kind (ob_kind ob) \<Longrightarrow> ob_defined ob \<Longrightarrow>
      (\<exists>ob'. heap s k = Some ob' \<and> ob_kind ob' = ob_kind ob \<and> ob_die ob' = ob_die ob \<and> ob_defined ob')
      \<or> obj_pyName E ob True \<in> set (definedNames s')"
  shows "keeps_named E s s'"
  unfolding keeps_named_def all_named_def using assms obj_pyName_cong by (metis subsetD)

lemma keeps_named_same: "heap s' = heap s \<Longrightarrow> out s' = out s @ xs \<Longrightarrow>
    set (definedNames s) \<subseteq> set (definedNames s') \<Longrightarrow> keeps_named E s s'"
  by (rule keeps_namedI [OF stable_heap]) auto

lemma keeps_named_update:
  assumes "heap s k = Some ob" and "later_obj ob ob'" and "heap s' = (heap s)(k \<mapsto> ob')"
    and "out s' = out s @ xs" and "set (definedNames s) \<subseteq> set (definedNames s')"
    and "is_member_kind (ob_kind ob) \<Longrightarrow> ob_defined ob' \<Longrightarrow>
      ob_defined ob \<or> obj_pyName E ob True \<in> set (definedNames s')"
  shows "keeps_named E s s'"
proof (rule keeps_namedI [OF stable_update [OF assms(1-4)] assms(5)])
  fix j a assume a: "heap s' j = Some a" "is_member_kind (ob_kind a)" "ob_defined a"
  have "obj_pyName E ob' True = obj_pyName E ob True"
    by (rule obj_pyName_cong) (use assms(2) in \<open>simp_all add: later_obj_def\<close>)
  with a assms show "(\<exists>ob'. heap s j = Some ob' \<and> ob_kind ob' = ob_kind a \<and> ob_die ob' = ob_die a \<and> ob_defined ob')
      \<or> obj_pyName E a True \<in> set (definedNames s')"
    by (cases "j = k") (auto simp: later_obj_def)
qed

interpretation naming: resolver_relation "keeps_named E" E for E
proof
  fix s t u
  show "keeps_named E s s" for E by (simp add: keeps_named_def stable_refl)
  show "keeps_named E s u" if "keeps_named E s t" "keeps_named E t u" for E
    using that unfolding keeps_named_def by (blast intro: stable_trans)
  show "stable s t" if "keeps_named E s t" for E using that by (simp add: keeps_named_def)
  show "keeps_named E s t" if d: "discovers s t" for E
  proof (rule keeps_namedI [OF discovers_stable [OF d]])
    show "set (definedNames s) \<subseteq> set (definedNames t)" using d by (simp add: discovers_def same_rest_def)
    fix k ob assume "heap t k = Some ob" "ob_defined ob"
    with discovers_defined [OF d] show "(\<exists>ob'. heap s k = Some ob' \<and> ob_kind ob' = ob_kind ob
        \<and> ob_die ob' = ob_die ob \<and> ob_defined ob') \<or> obj_pyName E ob True \<in> set (definedNames t)"
      by blast
  qed
next
  fix s :: rstate and E k ob ob' assume h: "heap s k = Some ob" and o: "same_obj ob ob'"
  show "keeps_named E s (s\<lparr>heap := (heap s)(k \<mapsto> ob')\<rparr>)"
    by (rule keeps_named_update [OF h same_later [OF o], where xs = "[]"])
      (use o in \<open>simp_all add: same_obj_def\<close>)
next
  fix s :: rstate and E k ob ns
  assume h: "heap s k = Some ob" and "insert (obj_pyName E ob True) (set (definedNames s)) \<subseteq> set ns"
  then show "keeps_named E s (s\<lparr>heap := (heap s)(k \<mapsto> ob\<lparr>ob_defined := True\<rparr>), definedNames := ns\<rparr>)"
    by (intro keeps_named_update [OF h, where xs = "[]"]) (simp_all add: later_obj_def)
next
  fix s :: rstate and E k ob assume h: "heap s k = Some ob"
  have l: "later_obj ob (ob\<lparr>ob_declared := True\<rparr>)" by (simp add: later_obj_def)
  show "keeps_named E s (s\<lparr>heap := (heap s)(k \<mapsto> ob\<lparr>ob_declared := True\<rparr>)\<rparr>)"
    by (rule keeps_named_update [OF h l, where xs = "[]"]) simp_all
  show "keeps_named E s (s\<lparr>out := out s @ [(k, x)], heap := (heap s)(k \<mapsto> ob\<lparr>ob_declared := True\<rparr>)\<rparr>)" for x
    by (rule keeps_named_update [OF h l]) simp_all
qed (simp_all add: keeps_named_same [where xs = "[]"] keeps_named_same)

lemma run_grows: "run E n c s = Inr (b, s') \<Longrightarrow> grows s s'"
  by (rule keepsD [OF growth.keeps_run])

lemma run_ordered: "run E n c s = Inr (b, s') \<Longrightarrow> ordered s \<Longrightarrow> ordered s'"
  using keepsD [OF order.keeps_run] unfolding keeps_order_def by blast

lemma ordered_rstate0: "ordered rstate0"
  by (simp add: ordered_def rstate0_def ready_def fields_after_def)

section \<open>Properties\<close>

text \<open>However types refer to each other, a run that declares or defines a type writes the class
  statement of a structure or union at most once, namely for those that are marked as declared,
  and never writes a field table before the class statement of the same type.\<close>

lemma classes_before_fields:
  assumes "run E n c s = Inr (b, s')" and "ordered s"
  shows "classes_of (out s') k = (if ready True k s' then 1 else 0)
    \<and> (\<forall>xs x ys. out s' = xs @ (k, x) # ys \<longrightarrow> is_fields x \<longrightarrow> classes_of xs k = 1)"
proof -
  have o: "ordered s'" using assms by (rule run_ordered)
  have "classes_of xs k = 1" if "out s' = xs @ (k, x) # ys" "is_fields x" for xs x ys
  proof -
    have "0 < classes_of xs k" using o that by (simp add: ordered_def fields_after_def)
    moreover have "classes_of xs k \<le> classes_of (out s') k" using that(1) by simp
    ultimately show ?thesis using o by (simp add: ordered_def split: if_splits)
  qed
  with o show ?thesis by (simp add: ordered_def)
qed

text \<open>A run only adds: every object stays at its key with its class and entry, what was
  declared stays declared, and the statements already written are a prefix of those after.\<close>

lemma run_only_adds:
  assumes "run E n c s = Inr (b, s')" and "heap s k = Some ob"
  shows "\<exists>ob' xs. heap s' k = Some ob' \<and> ob_kind ob' = ob_kind ob \<and> ob_die ob' = ob_die ob
    \<and> (\<not> ob_declared ob \<or> ob_declared ob') \<and> out s' = out s @ xs"
  using run_grows [OF assms(1)] assms(2) unfolding grows_def stable_def later_obj_def by blast

text \<open>\<open>struct node { node *next; };\<close>\<close>

definition ex_node :: dwarf where
  "ex_node = (\<lambda>_. mk_die 0 [])
     (1 := (mk_die DW_TAG_structure_type [''n''])\<lparr>DW_AT_byte_size := Some 8, children := [2]\<rparr>,
      2 := (mk_die DW_TAG_member [''n'', ''p''])\<lparr>DW_AT_type := Some 3, DW_AT_data_member_location := Some 0\<rparr>,
      3 := (mk_die DW_TAG_pointer_type [])\<lparr>DW_AT_type := Some 1, DW_AT_byte_size := Some 8\<rparr>)"

definition ex_env :: "dwarf \<Rightarrow> env" where
  "ex_env D = \<lparr>e_dw = D, e_psz = 8, e_find = [], e_existing = [], e_deepInspect = False,
     e_namelessEnums = False\<rparr>"

definition start_at :: "dwarf \<Rightarrow> nat list \<Rightarrow> rstate" where
  "start_at D ds = foldl (\<lambda>s d. case dieToType (ex_env D) 9 (Some d) s of Inr (_, s) \<Rightarrow> s | Inl _ \<Rightarrow> s)
     rstate0 ds"

lemma ordered_start_at: "ordered (start_at D ds)"
  unfolding start_at_def
proof (rule foldl_invariant)
  fix s d assume "ordered s"
  then show "ordered (case dieToType (ex_env D) 9 (Some d) s of Inr (_, s) \<Rightarrow> s | Inl _ \<Rightarrow> s)"
    using keepsD [OF order.keeps_find(1), of "ex_env D" 9 "Some d" s]
    by (auto simp: keeps_order_def split: sum.split)
qed (rule ordered_rstate0)

definition node_key :: key where
  "node_key = Key [''n''] DW_TAG_structure_type"

definition node_run :: "(bool \<times> rstate) res" where
  "node_run = run (ex_env ex_node) 9 (DefineType (Some (Obj node_key))) (start_at ex_node [1])"

lemma node_run_ok: "\<exists>b s. node_run = Inr (b, s)"
proof -
  have "case node_run of Inr _ \<Rightarrow> True | Inl _ \<Rightarrow> False" by code_simp
  then show ?thesis by (auto split: sum.splits)
qed

lemma run_only_adds_witness:
  "\<exists>b s ob ob'. node_run = Inr (b, s) \<and> heap (start_at ex_node [1]) node_key = Some ob
    \<and> heap s node_key = Some ob' \<and> ob_kind ob' = ob_kind ob"
proof -
  obtain b s where r: "node_run = Inr (b, s)" using node_run_ok by blast
  have "heap (start_at ex_node [1]) node_key \<noteq> None" by code_simp
  then obtain ob where ob: "heap (start_at ex_node [1]) node_key = Some ob" by blast
  from run_only_adds [OF r [unfolded node_run_def] ob] r ob show ?thesis by blast
qed

end
