(* ===== verification/DefineFuel.thy ===== *)
theory DefineFuel
  imports DefineProps
begin

text \<open>
  The fuel of the model does not show in its answers: more fuel only turns a run that ran out
  into one that may return, and two runs that return agree.  The locale \<open>fuelled\<close> of the
  prelude is interpreted on \<open>run\<close>; everything below it goes through \<open>approx\<close>.
\<close>

section \<open>Results cut short\<close>

definition res_le :: "'a res \<Rightarrow> 'a res \<Rightarrow> bool" where
  "res_le r r' = (r = Inl NonTermination \<or> r = r')"

lemma res_le_refl: "res_le r r"
  by (simp add: res_le_def)

lemma res_le_bnd: "res_le r r' \<Longrightarrow> (\<And>x. res_le (f x) (f' x)) \<Longrightarrow> res_le (bnd r f) (bnd r' f')"
  by (auto simp: res_le_def bnd_def split: sum.split)

lemma res_le_if: "(b \<Longrightarrow> res_le r r') \<Longrightarrow> (\<not> b \<Longrightarrow> res_le q q') \<Longrightarrow>
    res_le (if b then r else q) (if b then r' else q')"
  by simp

lemma res_le_option: "res_le r r' \<Longrightarrow> (\<And>x. res_le (f x) (f' x)) \<Longrightarrow>
    res_le (case y of None \<Rightarrow> r | Some x \<Rightarrow> f x) (case y of None \<Rightarrow> r' | Some x \<Rightarrow> f' x)"
  by (simp split: option.split)

lemma res_le_prod: "(\<And>x y. res_le (f x y) (f' x y)) \<Longrightarrow>
    res_le (case p of (x, y) \<Rightarrow> f x y) (case p of (x, y) \<Rightarrow> f' x y)"
  by (simp split: prod.split)

lemmas res_le_intros = res_le_bnd res_le_if res_le_option res_le_prod res_le_refl

lemma res_le_die_size: "n \<le> m \<Longrightarrow> res_le (die_size n p D d) (die_size m p D d)"
  using size_fuel.run_mono [of n p D d m] unfolding res_le_def by fastforce

lemma res_le_die_bit_offset: "n \<le> m \<Longrightarrow> res_le (die_bit_offset n p D d) (die_bit_offset m p D d)"
  unfolding die_bit_offset_def by (intro res_le_intros res_le_die_size)

lemma res_le_place_field: "n \<le> m \<Longrightarrow> res_le (place_field n p D ow mem t st) (place_field m p D ow mem t st)"
  unfolding place_field_def Let_def
  by (intro res_le_intros res_le_die_size res_le_die_bit_offset)

lemma res_le_field_step: "n \<le> m \<Longrightarrow> res_le (field_step n p D ow mem ti nxt st) (field_step m p D ow mem ti nxt st)"
  unfolding field_step_def by (intro res_le_intros res_le_place_field)

lemma approx_lift: "res_le r r' \<Longrightarrow> approx (lift r) (lift r')"
  by (auto simp: res_le_def approx_def)

section \<open>Computations cut short\<close>

lemma approx_kind: "approx p p' \<Longrightarrow> approx q q' \<Longrightarrow> approx
    (case kd of KTypedef \<Rightarrow> p | KStruct \<Rightarrow> q | KUnion \<Rightarrow> q | KExternal x \<Rightarrow> r x | _ \<Rightarrow> e)
    (case kd of KTypedef \<Rightarrow> p' | KStruct \<Rightarrow> q' | KUnion \<Rightarrow> q' | KExternal x \<Rightarrow> r x | _ \<Rightarrow> e)"
  by (simp add: approx_refl split: tkind.split)

lemma approx_tref: "approx m m' \<Longrightarrow> (\<And>k. approx (f k) (f' k)) \<Longrightarrow>
    approx (case t of VoidType \<Rightarrow> m | Obj k \<Rightarrow> f k) (case t of VoidType \<Rightarrow> m' | Obj k \<Rightarrow> f' k)"
  by (simp split: tref.split)

lemmas approx_rules = approx_bot approx_bot' approx_sbind approx_andthen approx_if approx_option
  approx_prod approx_tref approx_forM approx_foldM approx_allM approx_refl

lemma approx_dieToType: "n \<le> m \<Longrightarrow> approx (dieToType E n d) (dieToType E m d)"
proof (induction n arbitrary: m d)
  case 0
  then show ?case by (cases d) (auto intro!: approx_rules)
next
  case (Suc n)
  then obtain m' where "m = Suc m'" "n \<le> m'" by (cases m) auto
  with Suc.IH show ?case
    by (cases d) (simp_all only: dieToType.simps Let_def, (intro approx_rules | blast)+)
qed

lemma approx_baseType: "n \<le> m \<Longrightarrow> approx (baseType E n k) (baseType E m k)"
  unfolding baseType_def by (intro approx_rules approx_dieToType)

lemma approx_theBase: "n \<le> m \<Longrightarrow> approx (theBase E n k) (theBase E m k)"
  unfolding theBase_def by (intro approx_rules approx_baseType)

lemma approx_ctype: "n \<le> m \<Longrightarrow> approx (ctype E n t) (ctype E m t)"
proof (induction n arbitrary: m t)
  case (Suc n)
  then obtain m' where "m = Suc m'" "n \<le> m'" by (cases m) auto
  with Suc.IH show ?case
    by (cases t) (auto simp: ctype_methods intro!: approx_rules approx_baseType approx_theBase approx_dieToType)
qed (auto intro!: approx_rules)

lemma approx_alignment: "n \<le> m \<Longrightarrow> approx (alignment E n t) (alignment E m t)"
proof (induction n arbitrary: m t)
  case (Suc n)
  then obtain m' where "m = Suc m'" "n \<le> m'" by (cases m) auto
  with Suc.IH show ?case by (cases t) (auto intro!: approx_rules approx_baseType)
qed (auto intro!: approx_rules)

lemma approx_isEmptyBase: "n \<le> m \<Longrightarrow> approx (isEmptyBase E n x) (isEmptyBase E m x)"
proof (induction n arbitrary: m x)
  case (Suc n)
  then obtain m' where "m = Suc m'" "n \<le> m'" by (cases m) auto
  with Suc.IH show ?case
    unfolding \<open>m = Suc m'\<close> isEmptyBase.simps
    by (intro approx_rules approx_dieToType approx_kind) (use \<open>n \<le> m'\<close> in auto)
qed (auto intro!: approx_rules)

lemma approx_tyinfo: "n \<le> m \<Longrightarrow> approx (tyinfo_of E n x) (tyinfo_of E m x)"
  unfolding tyinfo_of_def
  by (intro approx_rules approx_dieToType approx_alignment approx_ctype)

lemma approx_member_loop: "n \<le> m \<Longrightarrow> approx (member_loop E n ow ms st) (member_loop E m ow ms st)"
proof (induction ms arbitrary: st)
  case (Cons x ms)
  then show ?case
    by (auto intro!: approx_rules approx_isEmptyBase approx_tyinfo approx_lift res_le_field_step)
qed (auto intro!: approx_rules)

lemma approx_write_fields: "n \<le> m \<Longrightarrow> approx (write_fields E n k) (write_fields E m k)"
  unfolding write_fields_def Let_def by (intro approx_rules approx_member_loop)

lemma approx_intType: "n \<le> m \<Longrightarrow> approx (intType E n k) (intType E m k)"
  unfolding intType_def by (intro approx_rules approx_dieToType)

lemmas approx_parts = approx_rules approx_dieToType approx_baseType approx_theBase approx_ctype
  approx_write_fields approx_intType

lemma approx_step:
  assumes "n \<le> m" and "\<And>c. approx (call c) (call' c)"
  shows "approx (step E n call c) (step E m call' c)"
proof -
  note rules = assms approx_parts
  have mt: "approx (define_member_type E n call k) (define_member_type E m call' k)" for k
    unfolding define_member_type_def define_members_def write_rest_def by (intro rules)
  have s: "approx (define_struct E n call k) (define_struct E m call' k)"
    "approx (define_union E n call k) (define_union E m call' k)" for k
    unfolding define_struct_def define_union_def by (intro rules mt)+
  have o: "approx (define_enum E n call k) (define_enum E m call' k)"
    "approx (define_pointer E n call k) (define_pointer E m call' k)"
    "approx (define_typedef E n call k) (define_typedef E m call' k)"
    "approx (declare_typedef E n call k) (declare_typedef E m call' k)"
    "approx (define_function E n call k) (define_function E m call' k)" for k
    unfolding define_enum_def define_pointer_def define_typedef_def declare_typedef_def
      define_function_def by (intro rules)+
  have "approx (declare_obj E n call k kd) (declare_obj E m call' k kd)" for k kd
    unfolding declare_obj_def by (intro rules o)
  then have decl: "approx (declareType E n call t) (declareType E m call' t)" for t
    by (auto simp: declareType_def split: option.split tref.split intro!: rules)
  have "approx (define_obj E n call k kd) (define_obj E m call' k kd)" for k kd
    by (cases kd) (auto simp: define_obj_def intro!: rules s o)
  then have "approx (defineType E n call t) (defineType E m call' t)" for t
    by (auto simp: defineType_def split: option.split tref.split intro!: rules)
  with decl show ?thesis by (cases c) (auto simp: step_def intro!: rules)
qed

lemma approx_run: "approx (run E n c) (run E (Suc n) c)"
proof (induction n arbitrary: c)
  case (Suc n)
  have "approx (step E n (\<lambda>c. run E n c) c) (step E (Suc n) (\<lambda>c. run E (Suc n) c) c)"
    by (rule approx_step) (use Suc in simp_all)
  then show ?case unfolding run.simps .
qed (auto intro: approx_rules)

interpretation run_fuel: fuelled "\<lambda>n (c, s). run E n c s" for E
proof
  fix n and x :: "callee \<times> rstate"
  show "(case x of (c, s) \<Rightarrow> run E (Suc n) c s) = (case x of (c, s) \<Rightarrow> run E n c s)"
    if "(case x of (c, s) \<Rightarrow> run E n c s) \<noteq> Inl NonTermination"
    using that approxD [OF approx_run] by (cases x) auto
qed

section \<open>Properties\<close>



end
