(* ===== verification/DefineLayout.thy ===== *)
theory DefineLayout
  imports DefineProps LayoutCorrect
begin

text \<open>
  \<open>MemberType.define\<close> against the table of the theory \<open>Layout\<close>: the loop of the generator,
  which looks types up, creates objects and reports errors as it goes, writes exactly the rows
  that the pure function \<open>layout_table\<close> computes from what it learnt about the types of the
  members; with \<open>LayoutCorrect\<close>, these rows make \<open>ctypes\<close> agree with the debug data.
\<close>

section \<open>The loop\<close>

text \<open>What is known of a member is what the code found out about its type, in some state.\<close>

definition answered :: "env \<Rightarrow> nat \<Rightarrow> member \<times> tyinfo \<times> bool \<Rightarrow> bool" where
  "answered E n x = (case x of (m, ti, eb) \<Rightarrow>
     \<exists>s s1. isEmptyBase E n m s = Inr (eb, s1) \<and> (eb \<or> (\<exists>s2. tyinfo_of E n m s1 = Inr (ti, s2))))"

lemma answered_triple [simp]: "answered E n (m, ti, eb) \<longleftrightarrow>
    (\<exists>s s1. isEmptyBase E n m s = Inr (eb, s1) \<and> (eb \<or> (\<exists>s2. tyinfo_of E n m s1 = Inr (ti, s2))))"
  by (simp add: answered_def)

lemma next_loc_cong: "map fst xs = map fst ys \<Longrightarrow> next_loc D xs = next_loc D ys"
  by (cases xs; cases ys) (auto simp: next_loc_def split: prod.splits)

lemma member_loop_table:
  "member_loop E n ow ms st s = Inr ((ms', st'), s') \<Longrightarrow>
   \<exists>fs ws. map fst fs = ms \<and> list_all (answered E n) fs
     \<and> run_fields n (e_psz E) (e_dw E) ow fs st = Inr (ms', st', ws)"
proof (induction ms arbitrary: st s ms')
  case Nil
  then show ?case by (intro exI [of _ "[]"]) simp
next
  case (Cons m ms)
  then obtain eb s1 where eb: "isEmptyBase E n m s = Inr (eb, s1)" by (auto simp: sbind_eq_Inr)
  show ?case
  proof (cases eb)
    case True
    with Cons.prems eb obtain ms1 where "member_loop E n ow ms st s1 = Inr ((ms1, st'), s')" "ms' = m # ms1"
      by (auto simp: sbind_eq_Inr)
    with Cons.IH obtain fs ws where "map fst fs = ms" "list_all (answered E n) fs"
      "run_fields n (e_psz E) (e_dw E) ow fs st = Inr (ms1, st', ws)" by blast
    with True eb \<open>ms' = m # ms1\<close> show ?thesis
      by (intro exI [of _ "(m, undefined, True) # fs"]) auto
  next
    case False
    let ?nx = "next_loc (e_dw E) (map (\<lambda>m. (m, ())) ms)"
    from False Cons.prems eb obtain ti s2 m1 st1 w s3 ms1 where
      ti: "tyinfo_of E n m s1 = Inr (ti, s2)" and
      fstep: "field_step n (e_psz E) (e_dw E) ow m ti ?nx st = Inr (m1, st1, w)" and
      rest: "member_loop E n ow ms st1 s3 = Inr ((ms1, st'), s')" "ms' = m1 # ms1"
      by (auto simp: sbind_eq_Inr lift_eq_Inr andthen_def)
    from Cons.IH [OF rest(1)] obtain fs ws where fs: "map fst fs = ms" "list_all (answered E n) fs"
      "run_fields n (e_psz E) (e_dw E) ow fs st1 = Inr (ms1, st', ws)" by blast
    have "?nx = next_loc (e_dw E) fs" by (rule next_loc_cong) (simp add: fs(1) comp_def)
    with False eb ti fstep rest(2) fs show ?thesis
      by (intro exI [of _ "(m, ti, False) # fs"]) auto
  qed
qed

section \<open>The statements\<close>

definition field_stmts :: "dwarf \<Rightarrow> string \<Rightarrow> member list \<Rightarrow> layout \<Rightarrow> stmt list" where
  "field_stmts D py ms st =
     [SFieldsPre py (rows st)]
     @ (if packed st then [SPack py (packComment st)] else [])
     @ (if filter m_anon ms \<noteq> [] then [SAnonymous py (anon_names D ms)] else [])
     @ [SFields py]"

lemma run_fields_length: "run_fields n p D ow fs st = Inr (ms, st', ws) \<Longrightarrow> length ms = length fs"
  by (induction n p D ow fs st arbitrary: ms st' ws rule: run_fields.induct)
    (auto simp: bnd_eq_Inr split: if_splits)

lemma write_stmt_run [simp]: "write_stmt k x s = Inr ((), s\<lparr>out := out s @ [(k, x)]\<rparr>)"
  by (simp add: write_stmt_def)

lemma write_fields_table':
  assumes run: "write_fields E n k s = Inr (u, s')" and ob: "heap s k = Some ob" "ob_members ob \<noteq> []"
  shows "\<exists>fs f ms st ws ob'. map fst fs = ob_members ob \<and> list_all (answered E n) fs
    \<and> layout_table n (e_psz E) (e_dw E) (owner_of E ob f) (ob_superCount ob) fs (ob_packed ob)
      = Inr (ms, st, ws)
    \<and> out s' = out s @ map (Pair k) (field_stmts (e_dw E) (obj_pyName E ob True) ms st)
    \<and> heap s' k = Some ob' \<and> ob_members ob' = ms \<and> ob_alignment ob' = salign st \<and> ob_packed ob' = packed st"
proof -
  from run ob obtain f s1 where f: "definition_of E k s = Inr (f, s1)"
    by (auto simp: write_fields_def sbind_eq_Inr getobj_Inr)
  let ?ow = "owner_of E ob f" and ?py = "obj_pyName E ob True"
  from run ob f obtain ms st s2 where
    loop: "member_loop E n ?ow (ob_members ob) (layout0 (ob_packed ob)) s1 = Inr ((ms, st), s2)"
    by (auto simp: write_fields_def sbind_eq_Inr getobj_Inr Let_def)
  with run ob f obtain st1 where
    pad: "trailing_pad ?ow (length ms) (ob_superCount ob) st = Inr st1"
    by (auto simp: write_fields_def sbind_eq_Inr getobj_Inr Let_def lift_eq_Inr)
  let ?st = "finish_packed ?ow st1"
  from member_loop_table [OF loop] obtain fs ws where fs: "map fst fs = ob_members ob"
    "list_all (answered E n) fs"
    "run_fields n (e_psz E) (e_dw E) ?ow fs (layout0 (ob_packed ob)) = Inr (ms, st, ws)" by blast
  have len: "length ms = length fs" using run_fields_length [OF fs(3)] .
  have table: "layout_table n (e_psz E) (e_dw E) ?ow (ob_superCount ob) fs (ob_packed ob) = Inr (ms, ?st, ws)"
    using fs(3) pad len by (simp add: layout_table_def)
  have "quiet s s2"
    using quiet.R_trans keepsD [OF quiet.keeps_definition_of f] keepsD [OF quiet.keeps_member_loop loop] .
  then obtain ob2 where ob2: "heap s2 k = Some ob2" "out s2 = out s"
    using quietD(1,3) ob(1) by blast
  from run ob f loop pad ob2 have "out s' = out s @ map (Pair k) (field_stmts (e_dw E) ?py ms ?st)
    \<and> heap s' k = Some (ob2\<lparr>ob_members := ms, ob_alignment := salign ?st, ob_packed := packed ?st\<rparr>)"
    by (auto simp: write_fields_def sbind_eq_Inr getobj_Inr Let_def lift_eq_Inr andthen_def
        updobj_Inr field_stmts_def split: if_splits)
  with fs(1,2) table show ?thesis by fastforce
qed

section \<open>Properties\<close>


text \<open>The node of \<open>DefineProps\<close>, its members found and their types defined.\<close>

definition node_ready :: rstate where
  "node_ready = (let E = ex_env ex_node in
     case andthen (findMembers E node_key) (run E 8 (DefineType (Some (Obj (key_of E 3)))))
       (start_at ex_node [1, 3]) of Inr (_, s) \<Rightarrow> s | Inl _ \<Rightarrow> rstate0)"


end
