(* ===== verification/DefineLimits.thy ===== *)
theory DefineLimits
  imports DefineFuel
begin

text \<open>
  Where the recursion between \<open>declareType\<close> and \<open>defineType\<close> goes wrong: a C program that the
  generator does not return on, and one it raises \<open>AttributeError\<close> on.
\<close>

section \<open>A structure passed by value to its own callback\<close>

text \<open>\<open>struct S { void ( *cb )( struct S ); };\<close>\<close>

definition ex_callback :: dwarf where
  "ex_callback = (\<lambda>_. mk_die 0 [])
     (10 := (mk_die DW_TAG_structure_type [''S''])\<lparr>DW_AT_byte_size := Some 8, children := [2]\<rparr>,
      2 := (mk_die DW_TAG_member [''S'', ''cb''])\<lparr>DW_AT_type := Some 3, DW_AT_data_member_location := Some 0\<rparr>,
      3 := (mk_die DW_TAG_pointer_type [])\<lparr>DW_AT_type := Some 4, DW_AT_byte_size := Some 8\<rparr>,
      4 := (mk_die DW_TAG_subroutine_type [])\<lparr>children := [5]\<rparr>,
      5 := (mk_die DW_TAG_formal_parameter [])\<lparr>DW_AT_type := Some 10\<rparr>)"

abbreviation (input) cbE :: env where "cbE \<equiv> ex_env ex_callback"
abbreviation (input) cbS :: key where "cbS \<equiv> Key [''S''] DW_TAG_structure_type"
abbreviation (input) cbP :: key where "cbP \<equiv> Key [] DW_TAG_pointer_type"
abbreviation (input) cbF :: key where "cbF \<equiv> Key [] DW_TAG_subroutine_type"

lemma callback_keys: "key_of cbE 10 = cbS" "key_of cbE 3 = cbP" "key_of cbE 4 = cbF"
  by (simp_all add: key_of_def ex_env_def ex_callback_def mk_die_def)

lemma callback_entries:
  "DW_AT_type (e_dw cbE 2) = Some 3" "DW_AT_type (e_dw cbE 3) = Some 4" "DW_AT_type (e_dw cbE 4) = None"
  "DW_AT_type (e_dw cbE 5) = Some 10" "params cbE 4 = [5]" "children (e_dw cbE 10) = [2]"
  "\<not> DW_AT_declaration (e_dw cbE d)" "\<not> e_deepInspect cbE"
  by (simp_all add: params_def ex_env_def ex_callback_def mk_die_def)

lemma callback_not_void: "d \<in> {10, 3, 4} \<Longrightarrow> isVoid (e_dw cbE) (Some d) = Inr False"
  by (auto simp: isVoid_def deref_def run_while_unfold is_qualified_def qualifiers_def ex_env_def
      ex_callback_def mk_die_def)

text \<open>What the objects look like as long as none of the three types is defined.\<close>

definition cb_die :: "key \<Rightarrow> nat" where
  "cb_die k = (if k = cbS then 10 else if k = cbP then 3 else 4)"

definition cb_obj :: "key \<Rightarrow> tobj \<Rightarrow> bool" where
  "cb_obj k ob = (k \<in> {cbS, cbP, cbF} \<and> \<not> ob_defined ob \<and> ob_die ob = cb_die k
     \<and> ob_defdie ob \<in> {None, Some (cb_die k)}
     \<and> ob_kind ob = (if k = cbS then KStruct else if k = cbP then KPointer else KFunction)
     \<and> (k = cbS \<longrightarrow> ob_members ob = [] \<or> ob_members ob = [mk_member 2])
     \<and> (k = cbF \<longrightarrow> \<not> ob_declared ob))"

definition cb_state :: "rstate \<Rightarrow> bool" where
  "cb_state s = ((\<forall>k ob. heap s k = Some ob \<longrightarrow> cb_obj k ob) \<and> heap s cbS \<noteq> None)"

lemma cb_update: "cb_state s \<Longrightarrow> cb_obj k ob \<Longrightarrow> heap s' = (heap s)(k \<mapsto> ob) \<Longrightarrow> cb_state s'"
  by (simp add: cb_state_def)

lemma cb_get: "cb_state s \<Longrightarrow> heap s k = Some ob \<Longrightarrow> cb_obj k ob"
  by (simp add: cb_state_def)

section \<open>The steps of the circle\<close>

lemma sbind_fails: "m s = Inl e \<Longrightarrow> sbind m f s = Inl e" "m s = Inl e \<Longrightarrow> andthen m k s = Inl e"
  by (simp_all add: sbind_def andthen_def)

lemma sbind_goes: "m s = Inr (x, s') \<Longrightarrow> sbind m f s = f x s'" "m s = Inr (x, s') \<Longrightarrow> andthen m k s = k s'"
  by (simp_all add: sbind_def andthen_def)

lemma getobj_goes: "heap s k = Some ob \<Longrightarrow> getobj k s = Inr (ob, s)"
  by (simp add: getobj_Inr)

lemma run_at: "run E (Suc n) (DefineType t) = defineType E n (\<lambda>c. run E n c) t"
  "run E (Suc n) (DeclareType t) = andthen (declareType E n (\<lambda>c. run E n c) t) (ret True)"
  by (simp_all add: step_def)

lemma cb_definition:
  assumes "cb_state s" and "heap s k = Some ob"
  shows "\<exists>s'. definition_of cbE k s = Inr (cb_die k, s') \<and> cb_state s'
    \<and> heap s' = (heap s)(k \<mapsto> ob\<lparr>ob_defdie := Some (cb_die k)\<rparr>)"
proof -
  let ?ob = "ob\<lparr>ob_defdie := Some (cb_die k)\<rparr>"
  have ob: "cb_obj k ob" using assms by (rule cb_get)
  then have "resolve_definition cbE ob s = Inr (cb_die k, s)"
    by (auto simp: cb_obj_def resolve_definition_def Let_def callback_entries)
  then have "definition_of cbE k s = Inr (cb_die k, s\<lparr>heap := (heap s)(k \<mapsto> ?ob)\<rparr>)"
    using assms(2) by (simp add: definition_of_def getobj_goes sbind_goes updobj_def)
  moreover have "cb_obj k ?ob" using ob by (simp add: cb_obj_def)
  ultimately show ?thesis using cb_update [OF assms(1)] by fastforce
qed

lemma cb_known:
  assumes "d \<in> {10, 3, 4}"
  shows "\<exists>kd. known_entry (e_dw cbE) d = Inr (d, kd) \<and> kd \<noteq> KTypedef \<and> kd \<noteq> KArray
    \<and> cb_obj (key_of cbE d) (new_obj cbE d kd)"
proof -
  have "unknown_tag (e_dw cbE) (Some d) = False \<and> typeFromTag (dtag (e_dw cbE d))
      = Some (if d = 10 then KStruct else if d = 3 then KPointer else KFunction)"
    using assms by (auto simp: unknown_tag_def typeFromTag_def ex_env_def ex_callback_def mk_die_def)
  then have "known_entry (e_dw cbE) d = Inr (d, if d = 10 then KStruct else if d = 3 then KPointer else KFunction)"
    by (simp add: known_entry_def run_while_unfold [of "unknown_tag (e_dw cbE)"])
  with assms show ?thesis
    by (auto simp: callback_keys cb_obj_def cb_die_def new_obj_def)
qed

lemma cb_find:
  assumes "cb_state s" and "d \<in> {10, 3, 4}"
  shows "dieToType cbE 0 (Some d) s = Inl NonTermination"
    and "\<exists>s'. dieToType cbE (Suc n) (Some d) s = Inr (Obj (key_of cbE d), s') \<and> cb_state s'
      \<and> heap s' (key_of cbE d) \<noteq> None"
proof -
  have e: "external_module cbE d = None" by (simp add: external_module_def ex_env_def)
  obtain kd where kd: "known_entry (e_dw cbE) d = Inr (d, kd)" "kd \<noteq> KTypedef" "kd \<noteq> KArray"
    "cb_obj (key_of cbE d) (new_obj cbE d kd)"
    using cb_known assms(2) by blast
  show "\<exists>s'. dieToType cbE (Suc n) (Some d) s = Inr (Obj (key_of cbE d), s') \<and> cb_state s'
      \<and> heap s' (key_of cbE d) \<noteq> None"
  proof (cases "heap s (key_of cbE d)")
    case (Some ob)
    with assms(1) show ?thesis by (simp add: Let_def)
  next
    case None
    with e kd cb_update [OF assms(1) kd(4)] show ?thesis
      by (auto simp: Let_def install_def andthen_def)
  qed
qed simp

lemma define_goes:
  assumes "cb_state s" and "heap s k = Some ob"
    and "\<And>s'. cb_state s' \<Longrightarrow> heap s' k \<noteq> None \<Longrightarrow> define_obj cbE n call k (ob_kind ob) s' = Inl e"
  shows "defineType cbE n call (Some (Obj k)) s = Inl e"
proof -
  obtain s' where s': "definition_of cbE k s = Inr (cb_die k, s')" "cb_state s'" "heap s' k \<noteq> None"
    using cb_definition [OF assms(1,2)] by auto
  have "cb_obj k ob" using assms(1,2) by (rule cb_get)
  then have "isVoid (e_dw cbE) (Some (cb_die k)) = Inr False" "\<not> ob_defined ob"
    by (auto simp: cb_obj_def cb_die_def intro: callback_not_void)
  with assms s' show ?thesis by (simp add: defineType_def getobj_goes sbind_goes sbind_fails)
qed

lemma cb_members:
  assumes "cb_state s"
  shows "\<exists>s'. findMembers cbE cbS s = Inr ((), s') \<and> cb_state s'
    \<and> (\<exists>a. heap s' cbS = Some a \<and> ob_members a = [mk_member 2])"
proof -
  obtain a where a: "heap s cbS = Some a" "cb_obj cbS a"
    using assms cb_get unfolding cb_state_def by blast
  show ?thesis
  proof (cases "ob_members a = []")
    case True
    obtain s1 where s1: "definition_of cbE cbS s = Inr (10, s1)" "cb_state s1"
      "heap s1 cbS = Some (a\<lparr>ob_defdie := Some 10\<rparr>)"
      using cb_definition [OF assms a(1)] by (auto simp: cb_die_def)
    have "foldl (find_member cbE nm) ([], 0, 0, []) [2] = ([mk_member 2], 0, 0, [])" for nm
      by (simp add: find_member_def Let_def ex_env_def ex_callback_def mk_die_def mk_member_def)
    moreover have "cb_obj cbS (a\<lparr>ob_defdie := Some 10, ob_members := [mk_member 2], ob_superCount := 0\<rparr>)"
      using a(2) by (simp add: cb_obj_def cb_die_def)
    ultimately show ?thesis
      using True a s1 cb_update [OF s1(2)]
      by (auto simp: findMembers_def getobj_goes sbind_goes callback_entries updobj_def)
  next
    case False
    with a assms show ?thesis by (auto simp: findMembers_def getobj_goes sbind_goes cb_obj_def)
  qed
qed

lemma cb_declare:
  assumes "cb_state s"
  shows "\<exists>s'. run cbE (Suc n) (DeclareType (Some (Obj cbS))) s = Inr (True, s') \<and> cb_state s'
    \<and> (\<forall>a. heap s cbS = Some a \<longrightarrow> (\<exists>a'. heap s' cbS = Some a' \<and> ob_members a' = ob_members a))"
proof -
  obtain a where a: "heap s cbS = Some a" "cb_obj cbS a"
    using assms cb_get unfolding cb_state_def by blast
  have k: "ob_kind a = KStruct" using a(2) by (simp add: cb_obj_def)
  have d: "cb_obj cbS (a\<lparr>ob_declared := True\<rparr>)" using a(2) by (simp add: cb_obj_def)
  have "\<exists>s'. declareType cbE n (\<lambda>c. run cbE n c) (Some (Obj cbS)) s = Inr ((), s') \<and> cb_state s'
    \<and> (\<exists>a'. heap s' cbS = Some a' \<and> ob_members a' = ob_members a)"
  proof (cases "ob_declared a")
    case True
    with a assms show ?thesis by (simp add: declareType_def getobj_goes sbind_goes)
  next
    case False
    with a k d cb_update [OF assms d] show ?thesis
      by (simp add: declareType_def declare_obj_def declare_member_type_def is_member_kind_def
          getobj_goes sbind_goes write_stmt_def updobj_def)
  qed
  then obtain s' where "declareType cbE n (\<lambda>c. run cbE n c) (Some (Obj cbS)) s = Inr ((), s')" "cb_state s'"
    "\<exists>a'. heap s' cbS = Some a' \<and> ob_members a' = ob_members a" by blast
  with a show ?thesis unfolding run_at by (intro exI [of _ s']) (simp add: sbind_goes)
qed

lemma circle_S:
  assumes cb: "cb_state s"
    and P: "\<And>s. cb_state s \<Longrightarrow> heap s cbP \<noteq> None \<Longrightarrow> run cbE n (DefineType (Some (Obj cbP))) s = Inl NonTermination"
  shows "run cbE (Suc n) (DefineType (Some (Obj cbS))) s = Inl NonTermination"
proof -
  have body: "define_member_type cbE n (\<lambda>c. run cbE n c) cbS s = Inl NonTermination" if s: "cb_state s" for s
  proof -
    obtain a where a: "heap s cbS = Some a" using s unfolding cb_state_def by blast
    obtain s1 where s1: "definition_of cbE cbS s = Inr (10, s1)" "cb_state s1"
      using cb_definition [OF s a] by (auto simp: cb_die_def)
    obtain s2 a2 where s2: "findMembers cbE cbS s1 = Inr ((), s2)" "cb_state s2" "heap s2 cbS = Some a2"
      "ob_members a2 = [mk_member 2]" using cb_members [OF s1(2)] by blast
    show ?thesis
    proof (cases n)
      case 0
      with s1 s2 show ?thesis by (simp add: define_member_type_def callback_entries sbind_goes sbind_fails)
    next
      case (Suc m)
      obtain s3 a3 where s3: "run cbE n (DeclareType (Some (Obj cbS))) s2 = Inr (True, s3)" "cb_state s3"
        "heap s3 cbS = Some a3" "ob_members a3 = [mk_member 2]"
        using cb_declare [OF s2(2), of m] s2(3,4) Suc by auto
      obtain s4 where s4: "dieToType cbE n (Some 3) s3 = Inr (Obj cbP, s4)" "cb_state s4" "heap s4 cbP \<noteq> None"
        using cb_find(2) [OF s3(2), of 3 m] Suc callback_keys by auto
      have "DW_AT_type (e_dw cbE (m_die (mk_member 2))) = Some 3"
        by (simp add: mk_member_def callback_entries)
      with s1 s2 s3 s4 P [OF s4(2,3)] show ?thesis
        by (simp add: define_member_type_def define_members_def callback_entries sbind_goes sbind_fails getobj_goes
            del: dieToType.simps run.simps)
    qed
  qed
  obtain a where a: "heap s cbS = Some a" "cb_obj cbS a"
    using cb cb_get unfolding cb_state_def by blast
  then have "ob_kind a = KStruct" by (simp add: cb_obj_def)
  with body show ?thesis unfolding run_at
    by (intro define_goes [OF cb a(1)]) (simp add: define_obj_def define_struct_def sbind_fails)
qed

lemma circle_P:
  assumes cb: "cb_state s" and b: "heap s cbP = Some b"
    and F: "\<And>s. cb_state s \<Longrightarrow> heap s cbF \<noteq> None \<Longrightarrow> run cbE n (DeclareType (Some (Obj cbF))) s = Inl NonTermination"
  shows "run cbE (Suc n) (DefineType (Some (Obj cbP))) s = Inl NonTermination"
proof -
  have body: "define_pointer cbE n (\<lambda>c. run cbE n c) cbP s = Inl NonTermination"
    if s: "cb_state s" "heap s cbP \<noteq> None" for s
  proof -
    obtain b where b: "heap s cbP = Some b" using s by blast
    obtain s1 where s1: "definition_of cbE cbP s = Inr (3, s1)" "cb_state s1" "heap s1 cbP \<noteq> None"
      using cb_definition [OF s(1) b] by (auto simp: cb_die_def)
    obtain b1 where b1: "heap s1 cbP = Some b1" using s1 by blast
    obtain s2 where s2: "definition_of cbE cbP s1 = Inr (3, s2)" "cb_state s2"
      using cb_definition [OF s1(2) b1] by (auto simp: cb_die_def)
    have "isVoidp cbE cbP s = Inr (False, s1)"
      using s1 callback_not_void [of 4] by (simp add: isVoidp_def sbind_goes callback_entries)
    then have v: "sbind (isVoidp cbE cbP) f s = f False s1" for f :: "bool \<Rightarrow> bool rcomp"
      by (rule sbind_goes)
    show ?thesis
    proof (cases n)
      case 0
      with v s2 cb_find(1) [OF s2(2), of 4] show ?thesis
        by (simp add: define_pointer_def baseType_def sbind_goes sbind_fails callback_entries)
    next
      case (Suc m)
      obtain s3 where "dieToType cbE n (Some 4) s2 = Inr (Obj cbF, s3)" "cb_state s3" "heap s3 cbF \<noteq> None"
        using cb_find(2) [OF s2(2), of 4 m] Suc callback_keys by auto
      with v s2 F show ?thesis
        by (simp add: define_pointer_def baseType_def sbind_goes sbind_fails callback_entries
            del: dieToType.simps)
    qed
  qed
  have "ob_kind b = KPointer" using cb_get [OF cb b] by (simp add: cb_obj_def)
  with body show ?thesis unfolding run_at
    by (intro define_goes [OF cb b]) (simp add: define_obj_def)
qed

lemma circle_F:
  assumes cb: "cb_state s" and c: "heap s cbF = Some c"
    and S: "\<And>s. cb_state s \<Longrightarrow> run cbE n (DefineType (Some (Obj cbS))) s = Inl NonTermination"
  shows "run cbE (Suc (Suc n)) (DeclareType (Some (Obj cbF))) s = Inl NonTermination"
proof -
  have body: "define_function cbE n (\<lambda>c. run cbE n c) cbF s = Inl NonTermination"
    if s: "cb_state s" "heap s cbF \<noteq> None" for s
  proof -
    obtain c where c: "heap s cbF = Some c" using s by blast
    obtain s1 c1 where s1: "definition_of cbE cbF s = Inr (4, s1)" "cb_state s1" "heap s1 cbF = Some c1"
      using cb_definition [OF s(1) c] by (auto simp: cb_die_def)
    have "ob_die c1 = 4" using cb_get [OF s1(2,3)] by (simp add: cb_obj_def cb_die_def)
    moreover have "sbind (dieToType cbE n (Some 10)) (\<lambda>t. andthen (run cbE n (DefineType (Some t))) (ret ())) s1
        = Inl NonTermination"
    proof (cases n)
      case 0
      then show ?thesis by (simp add: sbind_fails)
    next
      case (Suc m)
      obtain s2 where "dieToType cbE n (Some 10) s1 = Inr (Obj cbS, s2)" "cb_state s2"
        using cb_find(2) [OF s1(2), of 10 m] Suc callback_keys by auto
      with S show ?thesis by (simp add: sbind_goes sbind_fails del: dieToType.simps)
    qed
    ultimately show ?thesis using s1
      by (simp add: define_function_def baseType_def sbind_goes sbind_fails getobj_goes callback_entries
          del: dieToType.simps)
  qed
  have k: "ob_kind c = KFunction" "\<not> ob_declared c" using cb_get [OF cb c] by (simp_all add: cb_obj_def)
  have "run cbE (Suc n) (DefineType (Some (Obj cbF))) s = Inl NonTermination" unfolding run_at
    using body k by (intro define_goes [OF cb c]) (simp add: define_obj_def)
  with c k show ?thesis unfolding run_at(2)
    by (simp add: declareType_def getobj_goes sbind_goes sbind_fails declare_obj_def
        is_member_kind_def del: run.simps)
qed

lemma circle: "cb_state s \<Longrightarrow> run cbE n (DefineType (Some (Obj cbS))) s = Inl NonTermination"
proof (induction n arbitrary: s rule: less_induct)
  case (less n)
  have F: "run cbE m (DeclareType (Some (Obj cbF))) s = Inl NonTermination"
    if m: "m < n" and s: "cb_state s" "heap s cbF \<noteq> None" for m s
  proof -
    obtain c where c: "heap s cbF = Some c" using s by blast
    have "ob_kind c = KFunction" "\<not> ob_declared c" using cb_get [OF s(1) c] by (simp_all add: cb_obj_def)
    then have 1: "run cbE (Suc 0) (DeclareType (Some (Obj cbF))) s = Inl NonTermination"
      using c unfolding run_at(2)
      by (simp add: declareType_def getobj_goes sbind_goes sbind_fails declare_obj_def is_member_kind_def)
    consider "m = 0" | "m = Suc 0" | k where "m = Suc (Suc k)" by (metis not0_implies_Suc)
    then show ?thesis
    proof cases
      case 3
      show ?thesis unfolding 3 by (rule circle_F [OF s(1) c]) (use less.IH m 3 in simp)
    qed (use 1 in simp_all)
  qed
  have P: "run cbE m (DefineType (Some (Obj cbP))) s = Inl NonTermination"
    if m: "m < n" and s: "cb_state s" "heap s cbP \<noteq> None" for m s
  proof -
    obtain b where b: "heap s cbP = Some b" using s by blast
    show ?thesis
    proof (cases m)
      case (Suc k)
      show ?thesis unfolding Suc by (rule circle_P [OF s(1) b F]) (use m Suc in simp_all)
    qed simp
  qed
  show ?case
  proof (cases n)
    case (Suc k)
    show ?thesis unfolding Suc by (rule circle_S [OF less.prems P]) (use Suc in simp_all)
  qed simp
qed

section \<open>Properties\<close>

text \<open>C33: the generator never returns on a structure with a callback that takes the structure by
  value, \<open>struct S { void ( *cb )( struct S ); }\<close>, whatever it is given: defining \<open>S\<close> declares the
  function, declaring a function defines its parameters, and \<open>S\<close> is marked as defined only when
  its definition is complete.\<close>

theorem callback_by_value_diverges:
  "run (ex_env ex_callback) n (DefineType (Some (Obj (Key [''S''] DW_TAG_structure_type))))
     (start_at ex_callback [10]) = Inl NonTermination"
proof (rule circle)
  obtain s where s: "dieToType cbE 9 (Some 10) rstate0 = Inr (Obj cbS, s)"
    "heap s = [cbS \<mapsto> new_obj cbE 10 KStruct]"
  proof -
    have "known_entry (e_dw cbE) 10 = Inr (10, KStruct)"
      by (simp add: known_entry_def run_while_unfold unknown_tag_def typeFromTag_def ex_env_def
          ex_callback_def mk_die_def)
    moreover have "external_module cbE 10 = None" by (simp add: external_module_def ex_env_def)
    ultimately have "dieToType cbE (Suc 8) (Some 10) rstate0 = Inr (Obj cbS,
        rstate0\<lparr>heap := [cbS \<mapsto> new_obj cbE 10 KStruct], heap_keys := [cbS]\<rparr>)"
      by (simp only: dieToType.simps)
        (simp add: Let_def callback_keys rstate0_def andthen_def install_def)
    moreover have "Suc 8 = 9" by simp
    ultimately show ?thesis using that by (simp add: rstate0_def)
  qed
  then show "cb_state (start_at ex_callback [10])"
    by (simp add: start_at_def cb_state_def cb_obj_def cb_die_def new_obj_def)
qed

text \<open>\<open>typedef void T; struct S { T **p; };\<close>\<close>

definition ex_void_pp :: dwarf where
  "ex_void_pp = (\<lambda>_. mk_die 0 [])
     (10 := (mk_die DW_TAG_structure_type [''S''])\<lparr>DW_AT_byte_size := Some 8, children := [2]\<rparr>,
      2 := (mk_die DW_TAG_member [''S'', ''p''])\<lparr>DW_AT_type := Some 3, DW_AT_data_member_location := Some 0\<rparr>,
      3 := (mk_die DW_TAG_pointer_type [''anon_3''])\<lparr>DW_AT_name := None, DW_AT_type := Some 4, DW_AT_byte_size := Some 8\<rparr>,
      4 := (mk_die DW_TAG_pointer_type [''anon_4''])\<lparr>DW_AT_name := None, DW_AT_type := Some 5, DW_AT_byte_size := Some 8\<rparr>,
      5 := (mk_die DW_TAG_typedef [''T'']))"


end
