(* ===== verification/Resolver.thy ===== *)
theory Resolver
  imports DefineProps
begin

text \<open>
  \<open>class TypeResolver\<close> of \<open>CTypeGen/__init__.py\<close> around the definitions of types: what the
  caller asks for (names or filter functions), the walk over the debug data that collects the
  types, variables and functions (\<open>enumerateDIEs\<close>, \<open>examineDIE\<close>), and the hints
  (\<open>applyHints\<close> of the type classes).  The theory \<open>Write\<close> holds the output.
\<close>

section \<open>Dictionaries and names\<close>

text \<open>\<open>d[ k ] = v\<close>: a dictionary keeps the place of a key it already has.\<close>

fun dict_set :: "'a \<Rightarrow> 'b \<Rightarrow> ('a \<times> 'b) list \<Rightarrow> ('a \<times> 'b) list" where
  "dict_set k v [] = [(k, v)]"
| "dict_set k v ((k', v') # d) = (if k = k' then (k, v) # d else (k', v') # dict_set k v d)"

lemma map_of_dict_set: "map_of (dict_set k v d) = (map_of d)(k \<mapsto> v)"
  by (induction d) (auto simp: fun_eq_iff)

text \<open>\<open>d.get( k ) is None\<close>\<close>

definition get_is_None :: "'a \<Rightarrow> ('a \<times> 'b option) list \<Rightarrow> bool" where
  "get_is_None k d = (case map_of d k of Some (Some _) \<Rightarrow> False | _ \<Rightarrow> True)"

text \<open>\<open>n.split( "::" )\<close>\<close>

fun split_colons :: "string \<Rightarrow> string list" where
  "split_colons [] = [[]]"
| "split_colons [c] = [[c]]"
| "split_colons (c # d # s) =
     (if c = CHR '':'' \<and> d = CHR '':'' then [] # split_colons s
      else case split_colons (d # s) of [] \<Rightarrow> [[c]] | w # ws \<Rightarrow> (c # w) # ws)"

section \<open>What the caller asks for\<close>

text \<open>\<open>PythonType( ... )\<close>\<close>

definition mkPythonType ::
  "string \<Rightarrow> string option \<Rightarrow> string option \<Rightarrow> bool \<Rightarrow> string list option \<Rightarrow> bool option
   \<Rightarrow> dwtag list option \<Rightarrow> bool \<Rightarrow> pytype"
where
  "mkPythonType name cname base pck mixins nameless elements unaligned =
     PythonType (asPythonId_str name) (case cname of Some c \<Rightarrow> c | None \<Rightarrow> name) base pck mixins
       nameless elements unaligned []"

definition simplePythonType :: "string \<Rightarrow> pytype" where
  "simplePythonType name = mkPythonType name None None False None None None False"

fun add_field :: "string \<Rightarrow> hint \<Rightarrow> pytype \<Rightarrow> pytype" where
  "add_field nm h (PythonType a b c d e f g i fh) =
     PythonType a b c d e f g i (dict_set nm h fh)"

text \<open>The type argument: a filter function, or a list of names and \<open>PythonType\<close> objects.\<close>

datatype verdict = Skip | Take | TakeHinted pytype

datatype type_hint = HintName string | HintType pytype

datatype types_arg = TypesFilter "nat \<Rightarrow> verdict" | TypesList "type_hint list"

text \<open>The arguments for functions and variables: a filter, a list of tuples and strings, nothing.\<close>

datatype qname = Tuple "string list" | Dotted string

datatype names_arg = NamesFilter "nat \<Rightarrow> bool" | NamesList "qname list" | NoNames

record request =
  q_types :: types_arg
  q_functions :: names_arg
  q_globals :: names_arg
  q_namespace :: "(nat \<Rightarrow> bool) option"
  q_roots :: "nat list"

definition qname_tuple :: "qname \<Rightarrow> string list" where
  "qname_tuple q = (case q of Tuple t \<Rightarrow> t | Dotted n \<Rightarrow> split_colons n)"

definition hint_type :: "type_hint \<Rightarrow> pytype" where
  "hint_type h = (case h of HintName n \<Rightarrow> simplePythonType n | HintType t \<Rightarrow> t)"

text \<open>\<open>hintsByTypename\<close>\<close>

definition hintsByTypename :: "types_arg \<Rightarrow> (string list \<times> pytype) list" where
  "hintsByTypename ty =
     (case ty of
        TypesFilter _ \<Rightarrow> []
      | TypesList hs \<Rightarrow>
          foldl (\<lambda>d h. dict_set (split_colons (cName (hint_type h))) (hint_type h) d) [] hs)"

definition arg_names :: "names_arg \<Rightarrow> string list list" where
  "arg_names a = (case a of NamesList qs \<Rightarrow> map qname_tuple qs | _ \<Rightarrow> [])"

definition addNamespace :: "string list \<Rightarrow> string list list" where
  "addNamespace name = (if 1 < length name then map (\<lambda>i. take i name) [1 ..< length name] else [])"

text \<open>\<open>allNamespaces\<close>: the enclosing scopes of everything asked for by name.\<close>

definition wanted_names :: "request \<Rightarrow> string list list" where
  "wanted_names q = map fst (hintsByTypename (q_types q)) @ arg_names (q_globals q) @ arg_names (q_functions q)"

definition allNamespaces :: "request \<Rightarrow> string list list" where
  "allNamespaces q = concat (map addNamespace (wanted_names q))"

definition is_filter :: "names_arg \<Rightarrow> bool" where
  "is_filter a = (case a of NamesFilter _ \<Rightarrow> True | _ \<Rightarrow> False)"

definition wildcardNamespace :: "request \<Rightarrow> bool" where
  "wildcardNamespace q = ((case q_types q of TypesFilter _ \<Rightarrow> True | _ \<Rightarrow> False)
     \<or> is_filter (q_globals q) \<or> is_filter (q_functions q))"

section \<open>Filters\<close>

definition typesFilter :: "env \<Rightarrow> request \<Rightarrow> nat \<Rightarrow> verdict" where
  "typesFilter E q d =
     (case q_types q of
        TypesFilter f \<Rightarrow> f d
      | TypesList hs \<Rightarrow>
          if map_of (hintsByTypename (q_types q)) (fullname (e_dw E d)) \<noteq> None then Take else Skip)"

definition namesFilter :: "env \<Rightarrow> names_arg \<Rightarrow> nat \<Rightarrow> bool" where
  "namesFilter E a d =
     (case a of
        NamesFilter f \<Rightarrow> f d
      | NamesList qs \<Rightarrow> List.member (arg_names a) (fullname (e_dw E d))
      | NoNames \<Rightarrow> False)"

definition namespaceFilter :: "env \<Rightarrow> request \<Rightarrow> nat \<Rightarrow> bool" where
  "namespaceFilter E q d =
     (case q_namespace q of
        Some f \<Rightarrow> f d
      | None \<Rightarrow> wildcardNamespace q \<or> List.member (allNamespaces q) (fullname (e_dw E d)))"

section \<open>The walk\<close>

definition typeDieTags :: "dwtag list" where
  "typeDieTags = [DW_TAG_structure_type, DW_TAG_class_type, DW_TAG_union_type,
     DW_TAG_enumeration_type, DW_TAG_typedef, DW_TAG_base_type]"

definition namespaceDieTags :: "dwtag list" where
  "namespaceDieTags = [DW_TAG_namespace, DW_TAG_structure_type, DW_TAG_class_type]"

definition applyHintToType :: "pytype \<Rightarrow> tref \<Rightarrow> unit rcomp" where
  "applyHintToType hint typ = modify (\<lambda>s. s\<lparr>allHintedTypes := dict_set typ hint (allHintedTypes s),
     applyHints := dict_set typ hint (applyHints s)\<rparr>)"

definition add_producer :: "string \<Rightarrow> unit rcomp" where
  "add_producer p = modify (\<lambda>s. s\<lparr>producers :=
     (if List.member (producers s) p then producers s else producers s @ [p])\<rparr>)"

definition add_type :: "env \<Rightarrow> request \<Rightarrow> nat \<Rightarrow> nat \<Rightarrow> unit rcomp" where
  "add_type E q n d =
     (if typesFilter E q d = Skip then ret ()
      else
        sbind (dieToType E n (Some d)) (\<lambda>typ.
        andthen (case typesFilter E q d of TakeHinted h \<Rightarrow> applyHintToType h typ | _ \<Rightarrow> ret ())
        (case typ of Obj k \<Rightarrow> add_defineTypes k | VoidType \<Rightarrow> ret ())))"

definition examineDIE :: "env \<Rightarrow> request \<Rightarrow> nat \<Rightarrow> nat \<Rightarrow> bool rcomp" where
  "examineDIE E q n d =
     (let die = e_dw E d; tag = dtag die in
      if tag = DW_TAG_compile_unit \<or> tag = DW_TAG_partial_unit then
        andthen (case DW_AT_producer die of Some p \<Rightarrow> add_producer p | None \<Rightarrow> ret ()) (ret True)
      else if DW_AT_name die = None \<and> tag \<noteq> DW_TAG_enumeration_type then ret False
      else if tag = DW_TAG_variable then
        andthen (modify (\<lambda>s. if namesFilter E (q_globals q) d \<and> get_is_None (fullname die) (found_variables s)
            then s\<lparr>found_variables := dict_set (fullname die) (Some d) (found_variables s)\<rparr> else s))
          (ret False)
      else if DW_AT_declaration die then ret False
      else if tag = DW_TAG_subprogram then
        andthen (modify (\<lambda>s. if get_is_None (fullname die) (found_functions s) \<and> namesFilter E (q_functions q) d
            then s\<lparr>found_functions := dict_set (fullname die) (Some d) (found_functions s)\<rparr> else s))
          (ret False)
      else
        andthen (if List.member typeDieTags tag then add_type E q n d else ret ())
        (ret (List.member namespaceDieTags tag \<and> namespaceFilter E q d)))"

fun enumerateDIEs :: "env \<Rightarrow> request \<Rightarrow> nat \<Rightarrow> nat \<Rightarrow> unit rcomp" where
  "enumerateDIEs E q 0 d = raise NonTermination"
| "enumerateDIEs E q (Suc n) d =
     sbind (examineDIE E q n d) (\<lambda>b.
     if b then forM (children (e_dw E d)) (enumerateDIEs E q n) else ret ())"

section \<open>Hints\<close>

definition truthy :: "string option \<Rightarrow> string option" where
  "truthy s = (case s of Some [] \<Rightarrow> None | _ \<Rightarrow> s)"

text \<open>One member under the hints for the fields.\<close>

definition hint_member :: "env \<Rightarrow> nat \<Rightarrow> (string \<times> hint) list \<Rightarrow> member \<Rightarrow> member rcomp" where
  "hint_member E n hints m =
     (case (case member_name (e_dw E) m of None \<Rightarrow> None | Some nm \<Rightarrow> map_of hints nm) of
        None \<Rightarrow> ret m
      | Some h \<Rightarrow>
          andthen (case hint_typename h of
              None \<Rightarrow> ret ()
            | Some t \<Rightarrow>
                sbind (dieToType E n (DW_AT_type (e_dw E (m_die m)))) (applyHintToType t))
          (let m = (case truthy (hint_name h) of Some nm \<Rightarrow> m\<lparr>m_name := Some nm\<rparr> | None \<Rightarrow> m);
               m = (case truthy (typeOverride h) of Some c \<Rightarrow> setCType c m | None \<Rightarrow> m)
           in ret (m\<lparr>allowUnalignedPtr := allowUnaligned h\<rparr>)))"

definition hint_members :: "env \<Rightarrow> nat \<Rightarrow> key \<Rightarrow> pytype \<Rightarrow> unit rcomp" where
  "hint_members E n k spec =
     andthen (findMembers E k)
     (andthen (updobj k (\<lambda>ob. ob\<lparr>ob_packed := pack spec,
        ob_base := (case py_base spec of Some b \<Rightarrow> b | None \<Rightarrow> ob_base ob),
        ob_mixins := (case py_mixins spec of Some ms \<Rightarrow> ms | None \<Rightarrow> ob_mixins ob),
        ob_unalignedPtrs := unalignedPtrs spec\<rparr>))
     (sbind (getobj k) (\<lambda>ob.
     sbind (foldM (\<lambda>ms m. sbind (hint_member E n (fieldHints spec) m) (\<lambda>m. ret (ms @ [m]))) []
       (ob_members ob)) (\<lambda>ms.
     updobj k (\<lambda>ob. ob\<lparr>ob_members := ms\<rparr>)))))"

fun apply_hints :: "env \<Rightarrow> nat \<Rightarrow> tref \<Rightarrow> pytype \<Rightarrow> unit rcomp" where
  "apply_hints E 0 t spec = raise NonTermination"
| "apply_hints E (Suc n) VoidType spec = ret ()"
| "apply_hints E (Suc n) (Obj k) spec =
     sbind (getobj k) (\<lambda>ob.
     if is_member_kind (ob_kind ob) then hint_members E n k spec
     else if ob_kind ob = KEnum then
       (case nameless_enum spec of
          None \<Rightarrow> ret ()
        | Some b \<Rightarrow> updobj k (\<lambda>ob. ob\<lparr>ob_nameless := b\<rparr>))
     else if ob_kind ob = KTypedef then
       sbind (baseType E n k) (\<lambda>b. case b of None \<Rightarrow> ret () | Some t \<Rightarrow> apply_hints E n t spec)
     else ret ())"

text \<open>The loop that applies hints until no more are registered.\<close>

fun apply_all_hints :: "env \<Rightarrow> nat \<Rightarrow> unit rcomp" where
  "apply_all_hints E 0 = raise NonTermination"
| "apply_all_hints E (Suc n) =
     sbind (gets applyHints) (\<lambda>toApply.
     if toApply = [] then ret ()
     else
       andthen (modify (\<lambda>s. s\<lparr>applyHints := []\<rparr>))
       (andthen (forM toApply (\<lambda>(typ, hint). apply_hints E n typ hint))
       (apply_all_hints E n)))"

section \<open>Construction\<close>

text \<open>The hints the user gave by name, for the types found under that name.\<close>

definition register_hint :: "string list \<times> pytype \<Rightarrow> unit rcomp" where
  "register_hint nh = (case nh of (name, hint) \<Rightarrow>
     sbind (gets (\<lambda>s. filter (\<lambda>k. key_name k = name) (heap_keys s))) (\<lambda>ks.
     if ks = [] then errorfunc (''no type found for '' @ cName hint)
     else forM ks (\<lambda>k.
       if (case py_elements hint of None \<Rightarrow> True | Some tags \<Rightarrow> List.member tags (key_tag k))
       then applyHintToType hint (Obj k) else ret ())))"

definition start_state :: "request \<Rightarrow> rstate" where
  "start_state q = rstate0\<lparr>
     found_variables := foldl (\<lambda>d k. dict_set k None d) [] (arg_names (q_globals q)),
     found_functions := foldl (\<lambda>d k. dict_set k None d) [] (arg_names (q_functions q))\<rparr>"

definition init_resolver :: "env \<Rightarrow> request \<Rightarrow> nat \<Rightarrow> unit rcomp" where
  "init_resolver E q n =
     andthen (modify (\<lambda>_. start_state q))
     (andthen (forM (q_roots q) (enumerateDIEs E q n))
     (andthen (forM (hintsByTypename (q_types q)) register_hint)
     (apply_all_hints E n)))"

end
