(* ===== verification/ResolverProps.thy ===== *)
theory ResolverProps
  imports Resolver
begin

text \<open>
  What the walk over the debug data finds: exactly the accepted types in the scopes it
  descends, and with names instead of filters no requested type is missed in a scope that
  encloses it.  Collecting types and applying hints writes nothing, so it keeps the order of
  the statements.
\<close>

section \<open>Where the walk goes\<close>

definition is_unit :: "env \<Rightarrow> nat \<Rightarrow> bool" where
  "is_unit E d = (dtag (e_dw E d) = DW_TAG_compile_unit \<or> dtag (e_dw E d) = DW_TAG_partial_unit)"

text \<open>An entry the walk looks into further: named (or an enumeration), not a declaration.\<close>

definition considered :: "env \<Rightarrow> nat \<Rightarrow> bool" where
  "considered E d = (\<not> is_unit E d \<and> (DW_AT_name (e_dw E d) \<noteq> None \<or> dtag (e_dw E d) = DW_TAG_enumeration_type)
     \<and> \<not> DW_AT_declaration (e_dw E d))"

definition descends :: "env \<Rightarrow> request \<Rightarrow> nat \<Rightarrow> bool" where
  "descends E q d = (is_unit E d \<or> (considered E d
     \<and> List.member namespaceDieTags (dtag (e_dw E d)) \<and> namespaceFilter E q d))"

definition wants_type :: "env \<Rightarrow> request \<Rightarrow> nat \<Rightarrow> bool" where
  "wants_type E q d = (considered E d \<and> List.member typeDieTags (dtag (e_dw E d)) \<and> typesFilter E q d \<noteq> Skip)"

inductive visited :: "env \<Rightarrow> request \<Rightarrow> nat \<Rightarrow> nat \<Rightarrow> bool" for E q where
  here: "visited E q d d"
| below: "descends E q d \<Longrightarrow> c \<in> set (children (e_dw E d)) \<Longrightarrow> visited E q c x \<Longrightarrow> visited E q d x"

inductive_simps visited_iff: "visited E q d x"

lemma tags_distinct:
  "List.member namespaceDieTags t \<Longrightarrow> t \<noteq> DW_TAG_variable \<and> t \<noteq> DW_TAG_subprogram"
  "List.member typeDieTags t \<Longrightarrow> t \<noteq> DW_TAG_variable \<and> t \<noteq> DW_TAG_subprogram"
  by (auto simp: namespaceDieTags_def typeDieTags_def)

lemma examineDIE_result: "examineDIE E q n d s = Inr (b, s') \<Longrightarrow> b = descends E q d"
  using tags_distinct(1) [of "dtag (e_dw E d)"]
  by (auto simp: examineDIE_def Let_def andthen_def sbind_eq_Inr descends_def is_unit_def considered_def
      split: if_splits)

lemma find_defineTypes: "dieToType E n d s = Inr (t, s') \<Longrightarrow> defineTypes s' = defineTypes s"
  using keepsD [OF disc_dieToType] by (fastforce simp: discovers_def same_rest_def)

lemma add_type_defineTypes:
  assumes "add_type E q n d s = Inr (u, s')"
  shows "set (defineTypes s') = set (defineTypes s) \<union> (if typesFilter E q d \<noteq> Skip then {key_of E d} else {})"
proof (cases "typesFilter E q d = Skip")
  case True
  with assms show ?thesis by (simp add: add_type_def)
next
  case False
  with assms obtain t s1 where t: "dieToType E n (Some d) s = Inr (t, s1)"
    and r: "andthen (case typesFilter E q d of TakeHinted h \<Rightarrow> applyHintToType h t | _ \<Rightarrow> ret ())
        (case t of Obj k \<Rightarrow> add_defineTypes k | VoidType \<Rightarrow> ret ()) s1 = Inr (u, s')"
    by (auto simp: add_type_def sbind_eq_Inr)
  from r dieToType_key [OF t] have "set (defineTypes s') = insert (key_of E d) (set (defineTypes s1))"
    by (auto simp: andthen_def sbind_eq_Inr add_defineTypes_def applyHintToType_def
        split: verdict.splits if_splits)
  with find_defineTypes [OF t] False show ?thesis by simp
qed

lemma examineDIE_defineTypes:
  assumes "examineDIE E q n d s = Inr (b, s')"
  shows "set (defineTypes s') = set (defineTypes s) \<union> (if wants_type E q d then {key_of E d} else {})"
proof (cases "considered E d \<and> List.member typeDieTags (dtag (e_dw E d))")
  case True
  with assms tags_distinct(2) [of "dtag (e_dw E d)"] have "add_type E q n d s = Inr ((), s')"
    by (auto simp: examineDIE_def Let_def andthen_def sbind_eq_Inr considered_def is_unit_def split: if_splits)
  from add_type_defineTypes [OF this] True show ?thesis by (simp add: wants_type_def)
next
  case False
  then have "\<not> wants_type E q d" by (auto simp: wants_type_def)
  moreover have "defineTypes s' = defineTypes s"
    using assms False
    by (auto simp: examineDIE_def Let_def andthen_def sbind_eq_Inr considered_def is_unit_def
        add_producer_def split: if_splits option.splits)
  ultimately show ?thesis by simp
qed

definition found_types :: "env \<Rightarrow> request \<Rightarrow> nat \<Rightarrow> key set" where
  "found_types E q d = {key_of E x | x. visited E q d x \<and> wants_type E q x}"

lemma found_types_step:
  "found_types E q d = (if wants_type E q d then {key_of E d} else {})
     \<union> (if descends E q d then \<Union> (found_types E q ` set (children (e_dw E d))) else {})"
  unfolding found_types_def by (subst visited_iff) auto

lemma forM_sets:
  assumes "\<And>x s u s'. x \<in> set xs \<Longrightarrow> f x s = Inr (u, s') \<Longrightarrow> set (defineTypes s') = set (defineTypes s) \<union> g x"
  shows "forM xs f s = Inr (u, s') \<Longrightarrow> set (defineTypes s') = set (defineTypes s) \<union> \<Union> (g ` set xs)"
  using assms by (induction xs arbitrary: s) (fastforce simp: sbind_eq_Inr)+

lemma walk_types:
  "enumerateDIEs E q n d s = Inr (u, s') \<Longrightarrow>
   set (defineTypes s') = set (defineTypes s) \<union> found_types E q d"
proof (induction n arbitrary: d s u s')
  case (Suc n)
  then obtain b s1 where b: "examineDIE E q n d s = Inr (b, s1)"
    and rest: "(if b then forM (children (e_dw E d)) (enumerateDIEs E q n) else ret ()) s1 = Inr (u, s')"
    by (auto simp: sbind_eq_Inr)
  note b' = examineDIE_result [OF b] and types = examineDIE_defineTypes [OF b]
  show ?case
  proof (cases "descends E q d")
    case True
    with rest b' have "forM (children (e_dw E d)) (enumerateDIEs E q n) s1 = Inr (u, s')" by simp
    from forM_sets [OF Suc.IH this] types True show ?thesis
      by (subst found_types_step) auto
  next
    case False
    with rest b' types show ?thesis by (subst found_types_step) auto
  qed
qed simp

section \<open>Requested names\<close>

text \<open>The entries from a unit down to the one asked for, each named by the scopes so far.\<close>

fun scope_path :: "env \<Rightarrow> string list \<Rightarrow> nat \<Rightarrow> nat list \<Rightarrow> bool" where
  "scope_path E name i [] = False"
| "scope_path E name i [d] = (fullname (e_dw E d) = name)"
| "scope_path E name i (d # c # ds) =
     (considered E d \<and> List.member namespaceDieTags (dtag (e_dw E d)) \<and> 0 < i \<and> i < length name
      \<and> fullname (e_dw E d) = take i name \<and> c \<in> set (children (e_dw E d))
      \<and> scope_path E name (Suc i) (c # ds))"

lemma scope_accepted:
  "name \<in> set (wanted_names q) \<Longrightarrow> 0 < i \<Longrightarrow> i < length name \<Longrightarrow> fullname (e_dw E d) = take i name \<Longrightarrow>
   q_namespace q = None \<Longrightarrow> namespaceFilter E q d"
  by (auto simp: namespaceFilter_def allNamespaces_def addNamespace_def intro!: bexI [of _ name])

lemma scope_path_visited:
  "scope_path E name i ds \<Longrightarrow> name \<in> set (wanted_names q) \<Longrightarrow> q_namespace q = None \<Longrightarrow>
   visited E q (hd ds) (last ds)"
proof (induction E name i ds rule: scope_path.induct)
  case (2 E name i d)
  then show ?case by (simp add: visited.here)
next
  case (3 E name i d c ds)
  then have "descends E q d" by (auto simp: descends_def intro: scope_accepted)
  with 3 show ?case by (auto intro: visited.below)
qed simp

section \<open>What the collection keeps\<close>

text \<open>The steps of the resolver outside the definitions of types change neither an object nor the
  statements, apart from hints; a relation that does not look at the rest is kept by them too.\<close>

locale generator_relation = resolver_relation +
  assumes R_ignores: "heap s' = heap s \<Longrightarrow> heap_keys s' = heap_keys s \<Longrightarrow> out s' = out s \<Longrightarrow>
      definedNames s' = definedNames s \<Longrightarrow> R s s'"
begin

lemma keeps_ignores: "(\<And>s. heap (f s) = heap s \<and> heap_keys (f s) = heap_keys s \<and> out (f s) = out s
      \<and> definedNames (f s) = definedNames s) \<Longrightarrow>
    keeps R (modify f)"
  by (auto simp: keeps_def intro: R_ignores)

lemma keeps_applyHintToType: "keeps R (applyHintToType h t)"
  unfolding applyHintToType_def by (rule keeps_ignores) simp

lemma keeps_add_producer: "keeps R (add_producer p)"
  unfolding add_producer_def by (rule keeps_ignores) simp

lemma keeps_verdict: "keeps R m \<Longrightarrow> keeps R m' \<Longrightarrow> (\<And>h. keeps R (f h)) \<Longrightarrow>
    keeps R (case v of Skip \<Rightarrow> m | Take \<Rightarrow> m' | TakeHinted h \<Rightarrow> f h)"
  by (simp split: verdict.split)

lemma keeps_add_type: "keeps R (add_type E q n d)"
  unfolding add_type_def by (intro keeps_all keeps_verdict keeps_applyHintToType)

lemma keeps_examine: "keeps R (examineDIE E q n d)"
  unfolding examineDIE_def Let_def
  by (intro keeps_all keeps_add_type keeps_add_producer keeps_ignores) auto

lemma keeps_enumerate: "keeps R (enumerateDIEs E q n d)"
proof (induction n arbitrary: d)
  case (Suc n)
  then show ?case by (auto intro!: keeps_all keeps_examine)
qed (auto intro: keeps_intros)

lemma keeps_hint_members: "keeps R (hint_members E n k spec)"
  unfolding hint_members_def hint_member_def Let_def
  by (intro keeps_all keeps_findMembers keeps_updobj keeps_applyHintToType) (auto simp: same_obj_def)

lemma keeps_apply_hints: "keeps R (apply_hints E n t spec)"
proof (induction n arbitrary: t)
  case (Suc n)
  then show ?case
    by (cases t) (auto simp: same_obj_def intro!: keeps_all keeps_updobj keeps_hint_members)
qed (auto intro: keeps_intros)

lemma keeps_all_hints: "keeps R (apply_all_hints E n)"
proof (induction n)
  case (Suc n)
  then show ?case
    unfolding apply_all_hints.simps by (intro keeps_all keeps_apply_hints keeps_ignores) auto
qed (auto intro: keeps_intros)

lemma keeps_init:
  assumes "init_resolver E q n s = Inr (u, s')"
  shows "R (start_state q) s'"
proof -
  have "keeps R (register_hint x)" for x
    unfolding register_hint_def by (intro keeps_all keeps_applyHintToType)
  then have "keeps R (andthen (forM (q_roots q) (enumerateDIEs E q n))
     (andthen (forM (hintsByTypename (q_types q)) register_hint) (apply_all_hints E n)))"
    by (intro keeps_all keeps_enumerate keeps_all_hints)
  with assms show ?thesis by (auto simp: init_resolver_def andthen_def dest: keepsD)
qed

end

interpretation order: generator_relation keeps_order E for E
  by unfold_locales (simp add: keeps_order_def ordered_def ready_def stable_heap [where xs = "[]"])

interpretation sizes: generator_relation "keeps_sized E" E for E
  by unfold_locales (rule keeps_sized_same [where xs = "[]"]; simp)

interpretation naming: generator_relation "keeps_named E" E for E
  by unfold_locales (simp add: keeps_named_same [where xs = "[]"])

lemma ordered_start: "ordered (start_state q)"
  using ordered_rstate0 by (simp add: start_state_def ordered_def ready_def)

lemma all_sized_start: "all_sized E (start_state q)"
  by (simp add: start_state_def all_sized_def rstate0_def)

lemma all_named_start: "all_named E (start_state q)"
  by (simp add: start_state_def all_named_def rstate0_def)

lemma init_named: "init_resolver E q n s = Inr (u, s') \<Longrightarrow> all_named E s'"
  using naming.keeps_init all_named_start unfolding keeps_named_def by blast

lemma init_ordered: "init_resolver E q n s = Inr (u, s') \<Longrightarrow> ordered s'"
  using order.keeps_init ordered_start unfolding keeps_order_def by blast

lemma init_sized: "init_resolver E q n s = Inr (u, s') \<Longrightarrow> all_sized E s'"
  using sizes.keeps_init all_sized_start unfolding keeps_sized_def by blast

section \<open>Properties\<close>

text \<open>C15: when the walk over the entries below a root returns, the types it has collected are
  exactly those of the entries that are named definitions of a kind of type, accepted by the
  type filter, and reached through units and accepted scopes only.\<close>

theorem walk_finds_exactly:
  assumes "enumerateDIEs E q n root s = Inr (u, s')"
  shows "set (defineTypes s') = set (defineTypes s)
    \<union> {key_of E x | x. visited E q root x \<and> wants_type E q x}"
  using walk_types [OF assms] by (simp add: found_types_def)

text \<open>C16: a type asked for by name is not lost to the pruning of scopes: if each enclosing scope
  is a named definition that carries the first parts of the name, the walk from its unit
  collects it.\<close>

theorem requested_type_found:
  assumes "enumerateDIEs E q n root s = Inr (u, s')" and "is_unit E root"
    and "List.member (children (e_dw E root)) (hd ds)" and "scope_path E name 1 ds"
    and "List.member (map fst (hintsByTypename (q_types q))) name" and "q_namespace q = None"
    and "considered E (last ds)" and "List.member typeDieTags (dtag (e_dw E (last ds)))"
  shows "List.member (defineTypes s') (key_of E (last ds))"
proof -
  have ds: "ds \<noteq> []" using assms(4) by auto
  have "visited E q (hd ds) (last ds)"
    using scope_path_visited [OF assms(4) _ assms(6)] assms(5) by (simp add: wanted_names_def)
  then have v: "visited E q root (last ds)"
    using assms(2,3) by (auto simp: descends_def intro: visited.below)
  have full: "fullname (e_dw E (last ds)) = name" if "scope_path E name i ds" for i
    using that by (induction E name i ds rule: scope_path.induct) auto
  have "typesFilter E q (last ds) \<noteq> Skip"
  proof (cases "q_types q")
    case (TypesFilter f)
    with assms(5) show ?thesis by (simp add: hintsByTypename_def)
  next
    case (TypesList hs)
    have "map_of (hintsByTypename (q_types q)) name \<noteq> None"
      using assms(5) by (simp add: map_of_eq_None_iff)
    with TypesList full [OF assms(4)] show ?thesis by (auto simp: typesFilter_def)
  qed
  with assms(7,8) have "wants_type E q (last ds)" by (simp add: wants_type_def)
  with walk_types [OF assms(1)] v show ?thesis by (auto simp: found_types_def)
qed

text \<open>A unit with a namespace \<open>ns\<close> that holds \<open>struct S\<close> and \<open>struct T\<close>, and a namespace \<open>other\<close>;
  \<open>ns::S\<close> is asked for.\<close>

definition ex_scopes :: dwarf where
  "ex_scopes = (\<lambda>_. mk_die 0 [])
     (2 := (mk_die DW_TAG_compile_unit [])\<lparr>children := [3, 6]\<rparr>,
      3 := (mk_die DW_TAG_namespace [''ns''])\<lparr>children := [4, 5]\<rparr>,
      4 := (mk_die DW_TAG_structure_type [''ns'', ''T''])\<lparr>DW_AT_byte_size := Some 8\<rparr>,
      5 := (mk_die DW_TAG_structure_type [''ns'', ''S''])\<lparr>DW_AT_byte_size := Some 8\<rparr>,
      6 := (mk_die DW_TAG_namespace [''other''])\<lparr>children := [7]\<rparr>,
      7 := (mk_die DW_TAG_structure_type [''other'', ''S''])\<lparr>DW_AT_byte_size := Some 8\<rparr>)"

definition ex_request :: request where
  "ex_request = \<lparr>q_types = TypesList [HintName ''ns::S''], q_functions = NoNames, q_globals = NoNames,
     q_namespace = None, q_roots = [2]\<rparr>"

definition ex_walk :: "(unit \<times> rstate) res" where
  "ex_walk = enumerateDIEs (ex_env ex_scopes) ex_request 9 2 rstate0"

lemma ex_walk_ok: "\<exists>s. ex_walk = Inr ((), s) \<and> defineTypes s = [Key [''ns'', ''S''] DW_TAG_structure_type]"
proof -
  have "case ex_walk of Inr (u, s) \<Rightarrow> defineTypes s = [Key [''ns'', ''S''] DW_TAG_structure_type]
      | Inl _ \<Rightarrow> False" by code_simp
  then show ?thesis by (auto split: sum.splits)
qed

theorem walk_finds_exactly_witness:
  "{key_of (ex_env ex_scopes) x | x. visited (ex_env ex_scopes) ex_request 2 x
     \<and> wants_type (ex_env ex_scopes) ex_request x} = {Key [''ns'', ''S''] DW_TAG_structure_type}"
proof -
  obtain s where s: "ex_walk = Inr ((), s)" "defineTypes s = [Key [''ns'', ''S''] DW_TAG_structure_type]"
    using ex_walk_ok by blast
  from walk_finds_exactly [OF s(1) [unfolded ex_walk_def]] s(2) show ?thesis
    by (simp add: rstate0_def)
qed

theorem requested_type_found_witness:
  "\<exists>s. ex_walk = Inr ((), s) \<and> List.member (defineTypes s) (key_of (ex_env ex_scopes) 5)"
proof -
  obtain s where s: "ex_walk = Inr ((), s)" using ex_walk_ok by blast
  have "List.member (defineTypes s) (key_of (ex_env ex_scopes) (last [3, 5]))"
  proof (rule requested_type_found [OF s [unfolded ex_walk_def], where name = "[''ns'', ''S'']"])
    show "is_unit (ex_env ex_scopes) 2" by (simp add: is_unit_def ex_env_def ex_scopes_def mk_die_def)
    show "List.member (children (e_dw (ex_env ex_scopes) 2)) (hd [3, 5])"
      by (simp add: ex_env_def ex_scopes_def mk_die_def)
    show "scope_path (ex_env ex_scopes) [''ns'', ''S''] 1 [3, 5]"
      by (simp add: considered_def is_unit_def namespaceDieTags_def ex_env_def ex_scopes_def mk_die_def)
    show "List.member (map fst (hintsByTypename (q_types ex_request))) [''ns'', ''S'']" by code_simp
    show "q_namespace ex_request = None" by (simp add: ex_request_def)
    show "considered (ex_env ex_scopes) (last [3, 5])"
      by (simp add: considered_def is_unit_def ex_env_def ex_scopes_def mk_die_def)
    show "List.member typeDieTags (dtag (e_dw (ex_env ex_scopes) (last [3, 5])))"
      by (simp add: typeDieTags_def ex_env_def ex_scopes_def mk_die_def)
  qed
  then have "List.member (defineTypes s) (key_of (ex_env ex_scopes) 5)" by simp
  with s show ?thesis by blast
qed

end
