(* ===== verification/Write.thy ===== *)
theory Write
  imports Resolver "HOL-Library.Product_Lexorder"
begin

text \<open>
  \<open>TypeResolver.write\<close> and \<open>FunctionDefType.writeLibUpdates\<close> (\<open>CTypeGen/__init__.py\<close>): the
  module made from what the resolver has collected.  The statements of the types are in the
  state (\<open>out\<close>); the other parts of the module are the fields of \<open>pymodule\<close>, and
  \<open>render_module\<close> gives the text.
\<close>

section \<open>Order of types\<close>

text \<open>\<open>Type.__lt__\<close>: by full name, then by tag.  It is the order that \<open>sort\<close> uses.\<close>

definition type_less :: "key \<Rightarrow> key \<Rightarrow> bool" where
  "type_less a b = (if key_name a = key_name b then key_tag a < key_tag b else key_name a < key_name b)"

instantiation key :: linorder
begin

definition less_eq_key :: "key \<Rightarrow> key \<Rightarrow> bool" where
  "less_eq_key a b = ((key_name a, key_tag a) \<le> (key_name b, key_tag b))"

definition less_key :: "key \<Rightarrow> key \<Rightarrow> bool" where
  "less_key a b = type_less a b"

instance
proof
  fix x y z :: key
  have lt: "x < y \<longleftrightarrow> (key_name x, key_tag x) < (key_name y, key_tag y)" for x y :: key
    by (auto simp: less_key_def type_less_def less_prod_def)
  show "x < y \<longleftrightarrow> x \<le> y \<and> \<not> y \<le> x"
    unfolding lt less_eq_key_def by (rule less_le_not_le)
  show "x \<le> x" by (simp add: less_eq_key_def)
  show "x \<le> y \<Longrightarrow> y \<le> z \<Longrightarrow> x \<le> z" unfolding less_eq_key_def by (rule order_trans)
  show "x \<le> y \<Longrightarrow> y \<le> x \<Longrightarrow> x = y"
    unfolding less_eq_key_def by (cases x; cases y) (auto dest: order_antisym)
  show "x \<le> y \<or> y \<le> x" unfolding less_eq_key_def by (rule linear)
qed

end

text \<open>The code compares the entries the objects were made for.\<close>

definition order_key :: "env \<Rightarrow> rstate \<Rightarrow> key \<Rightarrow> key" where
  "order_key E s k = (case heap s k of Some ob \<Rightarrow> key_of E (ob_die ob) | None \<Rightarrow> k)"

definition sorted_types :: "env \<Rightarrow> rstate \<Rightarrow> key list" where
  "sorted_types E s = sort_key (order_key E s) (defineTypes s)"

section \<open>The surroundings\<close>

text \<open>\<open>str\<close> of an imported module, and for the entry of a function \<open>object().dynaddrs().get\<close> and
  whether \<open>object().symbol\<close> finds a name: \<open>libCTypeGen\<close> reads them from the ELF object.\<close>

record host =
  h_str :: "string \<Rightarrow> string"
  h_dynaddrs :: "nat \<Rightarrow> int \<Rightarrow> string list option"
  h_symbol :: "nat \<Rightarrow> string \<Rightarrow> bool"

record pymodule =
  md_imports :: "string list"
  md_body :: "(key \<times> stmt) list"
  md_hint_aliases :: "(string \<times> string) list"
  md_tag_aliases :: "(string \<times> string) list"
  md_globals :: "(string \<times> string \<times> string) list"
  md_updates :: "(string \<times> string \<times> string list) list"
  md_protos :: "(string \<times> string) list"

section \<open>Variables, functions and types\<close>

text \<open>\<open>"... %s not found" % name\<close>, where the name is a tuple: the tuple is taken as the list of
  arguments, so it must have one component.\<close>

definition not_found :: "string \<Rightarrow> string list \<Rightarrow> unit rcomp" where
  "not_found what name =
     (case name of [x] \<Rightarrow> errorfunc (what @ '' '' @ x @ '' not found'') | _ \<Rightarrow> raise TypeError)"

definition define_variables :: "env \<Rightarrow> nat \<Rightarrow> unit rcomp" where
  "define_variables E n =
     sbind (gets found_variables) (\<lambda>vs. forM vs (\<lambda>(name, die).
       case die of
         None \<Rightarrow> not_found ''variable'' name
       | Some d \<Rightarrow>
           sbind (dieToType E n (DW_AT_type (e_dw E d))) (\<lambda>t.
           andthen (run E n (DefineType (Some t))) (ret ()))))"

definition define_functions :: "env \<Rightarrow> nat \<Rightarrow> unit rcomp" where
  "define_functions E n =
     sbind (gets found_functions) (\<lambda>fs. forM (sort_key fst fs) (\<lambda>(name, die).
       case die of
         None \<Rightarrow> not_found ''function'' name
       | Some d \<Rightarrow>
           sbind (dieToType E n (Some d)) (\<lambda>t.
           case t of
             VoidType \<Rightarrow> ret ()
           | Obj k \<Rightarrow>
               sbind (getobj k) (\<lambda>ob.
               andthen (define_obj E n (\<lambda>c. run E n c) k (ob_kind ob)) (ret ())))))"

text \<open>The loop that defines types until looking through pointers brings no new ones.\<close>

definition define_one :: "env \<Rightarrow> nat \<Rightarrow> key \<Rightarrow> unit rcomp" where
  "define_one E n k = andthen (run E n (DefineType (Some (Obj k)))) (ret ())"

fun define_types :: "env \<Rightarrow> nat \<Rightarrow> unit rcomp" where
  "define_types E 0 = raise NonTermination"
| "define_types E (Suc n) =
     sbind (gets (sorted_types E)) (\<lambda>types.
     andthen (modify (\<lambda>s. s\<lparr>defineTypes := []\<rparr>))
     (if types = [] then ret ()
      else
        andthen (forM types (define_one E n))
        (define_types E n)))"

section \<open>Aliases\<close>

text \<open>\<open>sorted( self.allHintedTypes.items() )\<close>; to compare \<open>VoidType\<close>, which has no entry, with
  another type raises.\<close>

definition sort_hinted :: "env \<Rightarrow> rstate \<Rightarrow> (tref \<times> pytype) list \<Rightarrow> (tref \<times> pytype) list res" where
  "sort_hinted E s hs =
     (if 1 < length hs \<and> list_ex (\<lambda>(t, _). t = VoidType) hs then Inl AttributeError
      else Inr (sort_key (\<lambda>(t, _). case t of Obj k \<Rightarrow> order_key E s k | VoidType \<Rightarrow> Key [] 0) hs))"

definition hint_aliases :: "env \<Rightarrow> nat \<Rightarrow> (string \<times> string) list rcomp" where
  "hint_aliases E n =
     sbind (gets (\<lambda>s. sort_hinted E s (allHintedTypes s))) (\<lambda>r.
     sbind (lift r) (\<lambda>hs.
     foldM (\<lambda>acc (typ, hint).
         sbind (ctype E n typ) (\<lambda>ct.
         if pythonName hint \<noteq> ct then
           sbind (ctype E n typ) (\<lambda>ct. ret (acc @ [(pythonName hint, ct)]))
         else ret acc))
       [] hs))"

definition TAGGED_ELEMENTS :: "dwtag list" where
  "TAGGED_ELEMENTS = [DW_TAG_structure_type, DW_TAG_union_type, DW_TAG_class_type,
     DW_TAG_enumeration_type]"

definition is_external :: "tkind \<Rightarrow> bool" where
  "is_external kd = (case kd of KExternal _ \<Rightarrow> True | _ \<Rightarrow> False)"

text \<open>The alias for one full name: only if it names one type.\<close>

definition tag_alias :: "env \<Rightarrow> rstate \<Rightarrow> string list \<Rightarrow> (string \<times> string) list" where
  "tag_alias E s name =
     (case filter (\<lambda>k. key_name k = name) (heap_keys s) of
        [k] \<Rightarrow>
          (case heap s k of
             None \<Rightarrow> []
           | Some ob \<Rightarrow>
               if \<not> is_external (ob_kind ob) \<and> ob_defined ob \<and> List.member TAGGED_ELEMENTS (key_tag k)
               then [(obj_pyName E ob False, obj_pyName E ob True)] else [])
      | _ \<Rightarrow> [])"

definition tag_aliases :: "env \<Rightarrow> rstate \<Rightarrow> (string \<times> string) list" where
  "tag_aliases E s = concat (map (tag_alias E s) (sort (remdups (map key_name (heap_keys s)))))"

section \<open>Variables and prototypes in the module\<close>

definition linkage_name :: "die \<Rightarrow> string" where
  "linkage_name d = (case DW_AT_linkage_name d of Some c \<Rightarrow> c | None \<Rightarrow> str_of (DW_AT_name d))"

definition write_globals :: "env \<Rightarrow> nat \<Rightarrow> (string \<times> string \<times> string) list rcomp" where
  "write_globals E n =
     sbind (gets found_variables) (\<lambda>vs. foldM (\<lambda>acc (_, die).
       case die of
         None \<Rightarrow> ret acc
       | Some d \<Rightarrow>
           sbind (dieToType E n (DW_AT_type (e_dw E d))) (\<lambda>t.
           sbind (ctype E n t) (\<lambda>ct.
           ret (acc @ [(asPythonId_str (join ''::'' (fullname (e_dw E d))), ct, linkage_name (e_dw E d))]))))
       [] (sort_key fst vs))"

text \<open>The dynamic symbols at the address of a function, and its own name if that is one.\<close>

definition dynamic_names :: "env \<Rightarrow> host \<Rightarrow> nat \<Rightarrow> string list" where
  "dynamic_names E H d =
     (let name = (case DW_AT_linkage_name (e_dw E d) of Some c \<Rightarrow> c | None \<Rightarrow> dname (e_dw E d));
          dynNames = (case DW_AT_low_pc (e_dw E d) of
              None \<Rightarrow> []
            | Some pc \<Rightarrow> (case h_dynaddrs H d pc of None \<Rightarrow> [] | Some ns \<Rightarrow> ns));
          names = dynNames @ (if DW_AT_external (e_dw E d) \<and> h_symbol H d name then [name] else [])
      in sort (remdups names))"

definition lib_update ::
  "env \<Rightarrow> nat \<Rightarrow> tobj \<Rightarrow> tref option \<Rightarrow> string \<Rightarrow> (string \<times> string \<times> string list) list rcomp"
where
  "lib_update E n ob base linkername =
     (if iskeyword linkername then
        andthen (errorfunc (''cannot provide access to '' @ obj_name E ob True @ '' - its dynamic name ''
          @ linkername @ '' is a python keyword'')) (ret [])
      else
        sbind (case base of None \<Rightarrow> ret ''None'' | Some b \<Rightarrow> ctype E n b) (\<lambda>restype.
        sbind (foldM (\<lambda>args child.
            sbind (dieToType E n (DW_AT_type (e_dw E child))) (\<lambda>t.
            sbind (ctype E n t) (\<lambda>ct. ret (args @ [ct]))))
          [] (params E (ob_die ob))) (\<lambda>argtypes.
        ret [(linkername, restype, argtypes)])))"

definition writeLibUpdates :: "env \<Rightarrow> host \<Rightarrow> nat \<Rightarrow> key \<Rightarrow> (string \<times> string \<times> string list) list rcomp" where
  "writeLibUpdates E H n k =
     sbind (getobj k) (\<lambda>ob.
     if ob_kind ob \<noteq> KFunctionDef then raise (PyException ''writeLibUpdates not supported for this type'')
     else
       sbind (baseType E n k) (\<lambda>base.
       foldM (\<lambda>acc linkername. sbind (lib_update E n ob base linkername) (\<lambda>u. ret (acc @ u)))
         [] (dynamic_names E H (ob_die ob))))"

definition write_functions ::
  "env \<Rightarrow> host \<Rightarrow> nat \<Rightarrow> ((string \<times> string \<times> string list) list \<times> (string \<times> string) list) rcomp"
where
  "write_functions E H n =
     sbind (gets found_functions) (\<lambda>fs. foldM (\<lambda>acc (_, die).
       case die of
         None \<Rightarrow> ret acc
       | Some d \<Rightarrow>
           sbind (dieToType E n (Some d)) (\<lambda>t.
           case t of
             VoidType \<Rightarrow> raise (PyException ''writeLibUpdates not supported for this type'')
           | Obj k \<Rightarrow>
               sbind (writeLibUpdates E H n k) (\<lambda>us.
               sbind (type_pyName E t True) (\<lambda>name.
               sbind (ctype E n t) (\<lambda>proto.
               ret (fst acc @ us, dict_set name proto (snd acc)))))))
       ([], []) (sort_key fst fs))"

section \<open>The whole module\<close>

definition import_names :: "env \<Rightarrow> host \<Rightarrow> string list" where
  "import_names E H = sort_key (h_str H) (map fst (e_existing E))"

definition write_module :: "env \<Rightarrow> host \<Rightarrow> nat \<Rightarrow> pymodule rcomp" where
  "write_module E H n =
     andthen (define_variables E n)
     (andthen (define_functions E n)
     (andthen (define_types E n)
     (sbind (hint_aliases E n) (\<lambda>aliases.
     sbind (gets (tag_aliases E)) (\<lambda>tags.
     sbind (write_globals E n) (\<lambda>globals.
     sbind (write_functions E H n) (\<lambda>(ups, protos).
     sbind (gets out) (\<lambda>body.
     ret \<lparr>md_imports = import_names E H, md_body = body, md_hint_aliases = aliases, md_tag_aliases = tags,
        md_globals = globals, md_updates = ups, md_protos = sort protos\<rparr>))))))))"

section \<open>Text\<close>

definition render_update :: "string \<times> string \<times> string list \<Rightarrow> string" where
  "render_update u = (case u of (linkername, restype, args) \<Rightarrow>
     pad 3 @ ''if hasattr(lib, '' @ quoted linkername @ ''):'' @ nl
     @ pad 6 @ ''lib.'' @ linkername @ ''.restype = '' @ restype @ nl
     @ pad 6 @ ''lib.'' @ linkername @ ''.argtypes = ''
     @ (if args = [] then ''[]''
        else ''['' @ join '','' (map (\<lambda>arg. nl @ pad 9 @ arg) args) @ '' ]'') @ nl @ nl)"

definition preamble :: string where
  "preamble = ''from ctypes import * # pylint: disable=wildcard-import'' @ nl
     @ ''from CTypeGenRun import * # pylint: disable=wildcard-import'' @ nl
     @ ''# pylint: disable=unnecessary-pass,protected-access'' @ nl @ nl @ nl"

definition render_module :: "pymodule \<Rightarrow> string" where
  "render_module md =
     preamble
     @ concat (map (\<lambda>pkg. ''import '' @ pkg @ nl) (md_imports md)) @ nl
     @ render_all (md_body md)
     @ concat (map (\<lambda>(name, ct). name @ '' = '' @ ct @ '' # python hint differs from ctype'' @ nl)
         (md_hint_aliases md))
     @ concat (map (\<lambda>(short, long). short @ '' = '' @ long @ '' # unambiguous name for tagged type'' @ nl)
         (md_tag_aliases md))
     @ ''class Globals(object):'' @ nl @ pad 3 @ ''def __init__(self, dll):'' @ nl
     @ concat (map (\<lambda>(py, ct, cname). pad 6 @ ''self.'' @ py @ '' = ( '' @ ct @ '' ).in_dll( dll, ''
         @ quoted cname @ '' )'' @ nl) (md_globals md))
     @ pad 6 @ ''pass''
     @ nl @ ''def decorateFunctions( lib ):'' @ nl
     @ concat (map render_update (md_updates md))
     @ ''   pass'' @ nl
     @ (if md_protos md = [] then []
        else nl @ ''functionTypes = {'' @ nl
          @ concat (map (\<lambda>(name, proto). ''   '' @ quoted name @ '': '' @ proto @ '','' @ nl) (md_protos md))
          @ ''}'')
     @ nl @ nl"

end
