(* ===== verification/WriteProps.thy ===== *)
theory WriteProps
  imports Write ResolverProps
begin

text \<open>
  What the generated module holds.  The relations of \<open>DefineProps\<close> are kept by every step of
  \<open>write\<close>, so the order of the statements and the sizes hold for whole modules; every structure
  asked for is written, unless the debug data has no definition of it; and the other parts of
  the module are what the tables of the resolver say.
\<close>

section \<open>What writing keeps\<close>

context resolver_relation
begin

lemma keeps_not_found: "keeps R (not_found what name)"
proof (cases "\<exists>x. name = [x]")
  case True
  then show ?thesis by (auto simp: not_found_def intro: keeps_find)
next
  case False
  then show ?thesis by (cases name) (auto simp: not_found_def intro: keeps_raise split: list.split)
qed

lemma keeps_define_found: "keeps R (sbind (getobj k) (\<lambda>ob.
    andthen (define_obj E n (\<lambda>c. run E n c) k (ob_kind ob)) (ret ())))"
proof (rule keepsI)
  fix s u s'
  assume "sbind (getobj k) (\<lambda>ob. andthen (define_obj E n (\<lambda>c. run E n c) k (ob_kind ob)) (ret ())) s = Inr (u, s')"
  then obtain ob b where ob: "heap s k = Some ob"
    and d: "define_obj E n (\<lambda>c. run E n c) k (ob_kind ob) s = Inr (b, s')"
    by (auto simp: andthen_def sbind_eq_Inr getobj_Inr)
  show "R s s'"
    by (rule keeps_define_obj [OF keeps_run run_declares d]) (use ob in auto)
qed

lemma keeps_define_variables: "keeps R (define_variables E n)"
  unfolding define_variables_def by (intro keeps_all keeps_not_found keeps_run)

lemma keeps_define_functions: "keeps R (define_functions E n)"
  unfolding define_functions_def by (intro keeps_all keeps_not_found keeps_define_found)

lemma keeps_hint_aliases: "keeps R (hint_aliases E n)"
  unfolding hint_aliases_def by (intro keeps_all keeps_ctype)

lemma keeps_write_globals: "keeps R (write_globals E n)"
  unfolding write_globals_def by (intro keeps_all keeps_ctype)

lemma keeps_writeLibUpdates: "keeps R (writeLibUpdates E H n k)"
  unfolding writeLibUpdates_def lib_update_def by (intro keeps_all keeps_ctype)

lemma keeps_write_functions: "keeps R (write_functions E H n)"
  unfolding write_functions_def by (intro keeps_all keeps_writeLibUpdates keeps_ctype)

end

text \<open>\<open>write\<close> empties the set of types to define before each round.\<close>

locale writer_relation = resolver_relation +
  assumes R_reset: "R s (s\<lparr>defineTypes := ks\<rparr>)"
begin

lemma keeps_define_types: "keeps R (define_types E n)"
proof (induction n)
  case (Suc n)
  then show ?case
    unfolding define_types.simps define_one_def
    by (intro keeps_all keeps_run) (simp add: keeps_def R_reset)
qed (auto intro: keeps_intros)

lemma keeps_write_module: "keeps R (write_module E H n)"
  unfolding write_module_def
  by (intro keeps_all keeps_define_variables keeps_define_functions keeps_define_types
      keeps_hint_aliases keeps_write_globals keeps_write_functions)

end

sublocale generator_relation \<subseteq> writer_relation
  by unfold_locales (rule R_ignores; simp)

interpretation stab: generator_relation stable E for E
  by unfold_locales (simp add: stable_heap [where xs = "[]"])

text \<open>The tables of variables and functions do not change while the module is written.\<close>

definition tables :: "rstate \<Rightarrow> rstate \<Rightarrow> bool" where
  "tables s s' = (stable s s' \<and> found_variables s' = found_variables s \<and> found_functions s' = found_functions s)"

interpretation tab: writer_relation tables E for E
proof
  fix s t u
  show "tables s s" by (simp add: tables_def stable_refl)
  show "tables s u" if "tables s t" "tables t u"
    using that by (auto simp: tables_def intro: stable_trans)
  show "stable s t" if "tables s t" using that by (simp add: tables_def)
  show "tables s t" if "discovers s t"
    using that discovers_stable [OF that] by (simp add: tables_def discovers_def same_rest_def)
qed (simp_all add: tables_def stable_def same_later, simp_all add: later_obj_def)

text \<open>The index of the table of types is kept.\<close>

definition indexed :: "rstate \<Rightarrow> rstate \<Rightarrow> bool" where
  "indexed s s' = (stable s s' \<and> (heap_ok s \<longrightarrow> heap_ok s'))"

interpretation index: generator_relation indexed E for E
proof
  fix s t u
  show "indexed s s" by (simp add: indexed_def stable_refl)
  show "indexed s u" if "indexed s t" "indexed t u"
    using that by (auto simp: indexed_def intro: stable_trans)
  show "stable s t" if "indexed s t" using that by (simp add: indexed_def)
  show "indexed s t" if "discovers s t"
    using that discovers_stable [OF that] by (simp add: indexed_def discovers_def)
qed (auto simp: indexed_def stable_def same_later heap_ok_def, auto simp: later_obj_def)

section \<open>Every requested structure is settled\<close>

text \<open>The object of a key is that of a structure, union or enumeration.\<close>

definition followed :: "key \<Rightarrow> rstate \<Rightarrow> bool" where
  "followed k s = (\<exists>ob. heap s k = Some ob \<and> tracked (ob_kind ob))"

lemma ready_followed: "ready dcl k s \<Longrightarrow> followed k s"
  by (auto simp: ready_def followed_def)

lemma stable_followed: "stable s s' \<Longrightarrow> followed k s \<Longrightarrow> followed k s'"
  by (auto simp: followed_def later_obj_def dest!: stableD)

text \<open>Only a declaration of the type was found, or something that is no type.\<close>

definition unavailable :: "env \<Rightarrow> nat \<Rightarrow> bool" where
  "unavailable E f = (DW_AT_declaration (e_dw E f) \<or> isVoid (e_dw E) (Some f) = Inr True)"

definition settled :: "env \<Rightarrow> key \<Rightarrow> rstate \<Rightarrow> bool" where
  "settled E k s = (\<exists>ob. heap s k = Some ob \<and> tracked (ob_kind ob)
     \<and> (ob_defined ob \<or> (\<exists>f. ob_defdie ob = Some f \<and> unavailable E f)))"

lemma stable_settled: "stable s s' \<Longrightarrow> settled E k s \<Longrightarrow> settled E k s'"
  by (auto simp: settled_def later_obj_def dest!: stableD)

lemma run_settles:
  assumes "run E n (DefineType (Some (Obj k))) s = Inr (b, s')" and "followed k s"
  shows "settled E k s'"
proof -
  obtain m where "n = Suc m" using assms(1) by (cases n) auto
  with assms(1) have d: "defineType E m (\<lambda>c. run E m c) (Some (Obj k)) s = Inr (b, s')" by (simp add: step_def)
  obtain ob where ob: "heap s k = Some ob" "tracked (ob_kind ob)"
    using assms(2) by (auto simp: followed_def)
  show ?thesis
  proof (cases "ob_defined ob")
    case True
    with d ob show ?thesis by (auto simp: defineType_def settled_def sbind_eq_Inr getobj_Inr)
  next
    case False
    with d ob obtain f s1 v where f: "definition_of E k s = Inr (f, s1)" "isVoid (e_dw E) (Some f) = Inr v"
      by (auto simp: defineType_def sbind_eq_Inr getobj_Inr lift_eq_Inr)
    from definition_of_obj [OF f(1) ob(1)] have s1: "heap s1 k = Some (ob\<lparr>ob_defdie := Some f\<rparr>)" .
    show ?thesis
    proof (cases v)
      case True
      with d ob False f s1 show ?thesis
        by (auto simp: defineType_def settled_def unavailable_def andthen_def sbind_eq_Inr getobj_Inr errorfunc_def)
    next
      case nv: False
      with d ob False f obtain s2 where s2: "define_obj E m (\<lambda>c. run E m c) k (ob_kind ob) s1 = Inr (b, s2)"
        "andthen (updobj k (\<lambda>ob. ob\<lparr>ob_defined := b\<rparr>)) (sbind (getobj k) (\<lambda>ob.
           andthen (if b then add_defined (obj_pyName E ob True) else ret ()) (ret b))) s2 = Inr (b, s')"
        by (auto simp: defineType_def sbind_eq_Inr getobj_Inr andthen_def split: if_splits)
      have "stable s1 s2"
        by (rule stab.keeps_define_obj [OF stab.keeps_run run_declares s2(1)]) (use s1 in auto)
      with s1 obtain ob2 where ob2: "heap s2 k = Some ob2" "ob_kind ob2 = ob_kind ob"
        by (auto simp: later_obj_def dest!: stableD)
      with s2(2) have "heap s' k = Some (ob2\<lparr>ob_defined := b\<rparr>)"
        by (auto simp: andthen_run sbind_eq_Inr getobj_Inr updobj_Inr add_defined_def split: sum.splits if_splits)
      moreover have "b \<or> (\<exists>g. ob2 = ob\<lparr>ob_defdie := Some g\<rparr> \<and> unavailable E g)"
      proof (cases b)
        case False
        with s2(1) have "define_obj E m (\<lambda>c. run E m c) k (ob_kind ob) s1 = Inr (False, s2)" by simp
        moreover have "ob_kind ob \<noteq> KEnum"
          using define_enum_enumerated [where call = "\<lambda>c. run E m c", OF stab.keeps_run _ s1, of E m b s2] s2(1) False
          by (auto simp: define_obj_def)
        ultimately show ?thesis using define_obj_False [OF _ _ s1, of E m "\<lambda>c. run E m c" "ob_kind ob" s2] ob(2) ob2
          by (auto simp: unavailable_def tracked_def)
      qed simp
      ultimately show ?thesis using ob2 ob(2) by (auto simp: settled_def)
    qed
  qed
qed

lemma stable_define_one: "keeps stable (define_one E n k)"
  unfolding define_one_def by (intro stab.keeps_intros stab.keeps_run)

lemma forM_settles:
  assumes "forM ks (define_one E n) s = Inr (u, s')" and "k \<in> set ks" and "followed k s"
  shows "settled E k s'"
  using assms
proof (induction ks arbitrary: s)
  case (Cons j ks)
  then obtain s1 where j: "define_one E n j s = Inr ((), s1)"
    and rest: "forM ks (define_one E n) s1 = Inr (u, s')"
    by (auto simp: sbind_eq_Inr)
  have st: "stable s s1" using keepsD [OF stable_define_one j] .
  have st': "stable s1 s'" using keepsD [OF stab.keeps_forM [OF stable_define_one] rest] .
  show ?case
  proof (cases "k = j")
    case True
    then obtain b where "run E n (DefineType (Some (Obj k))) s = Inr (b, s1)"
      using j by (auto simp: define_one_def andthen_def sbind_eq_Inr)
    from run_settles [OF this Cons.prems(3)] show ?thesis by (rule stable_settled [OF st'])
  next
    case False
    with Cons.IH [OF rest] Cons.prems stable_followed [OF st] show ?thesis by simp
  qed
qed simp

lemma define_types_settles:
  assumes "define_types E n s = Inr (u, s')" and "k \<in> set (defineTypes s)" and "followed k s"
  shows "settled E k s'"
proof -
  obtain m where m: "n = Suc m" using assms(1) by (cases n) auto
  have k: "k \<in> set (sorted_types E s)" using assms(2) by (simp add: sorted_types_def)
  then have "sorted_types E s \<noteq> []" by auto
  with assms(1) m obtain s1 where s1: "forM (sorted_types E s) (define_one E m) (s\<lparr>defineTypes := []\<rparr>) = Inr ((), s1)"
    and rest: "define_types E m s1 = Inr (u, s')"
    by (auto simp: andthen_def sbind_eq_Inr)
  have "followed k (s\<lparr>defineTypes := []\<rparr>)" using assms(3) by (simp add: followed_def)
  from forM_settles [OF s1 k this] have "settled E k s1" .
  then show ?thesis using keepsD [OF stab.keeps_define_types rest] by (rule stable_settled [rotated])
qed

lemma write_module_parts:
  assumes "write_module E H n s = Inr (md, s')"
  obtains s1 s2 s3 where "define_variables E n s = Inr ((), s1)" "define_functions E n s1 = Inr ((), s2)"
    "define_types E n s2 = Inr ((), s3)" "stable s3 s'" "md_body md = out s'"
proof -
  from assms obtain s1 s2 s3 where parts: "define_variables E n s = Inr ((), s1)"
    "define_functions E n s1 = Inr ((), s2)" "define_types E n s2 = Inr ((), s3)"
    and r: "sbind (hint_aliases E n) (\<lambda>aliases.
       sbind (gets (tag_aliases E)) (\<lambda>tags.
       sbind (write_globals E n) (\<lambda>globals.
       sbind (write_functions E H n) (\<lambda>(ups, protos).
       sbind (gets out) (\<lambda>body.
       ret \<lparr>md_imports = import_names E H, md_body = body, md_hint_aliases = aliases, md_tag_aliases = tags,
          md_globals = globals, md_updates = ups, md_protos = sort protos\<rparr>))))) s3 = Inr (md, s')"
    by (auto simp: write_module_def andthen_def sbind_eq_Inr)
  have "keeps stable (sbind (hint_aliases E n) (\<lambda>aliases.
       sbind (gets (tag_aliases E)) (\<lambda>tags.
       sbind (write_globals E n) (\<lambda>globals.
       sbind (write_functions E H n) (\<lambda>(ups, protos).
       sbind (gets out) (\<lambda>body.
       ret \<lparr>md_imports = import_names E H, md_body = body, md_hint_aliases = aliases, md_tag_aliases = tags,
          md_globals = globals, md_updates = ups, md_protos = sort protos\<rparr>))))))"
    by (intro stab.keeps_all stab.keeps_hint_aliases stab.keeps_write_globals stab.keeps_write_functions)
  from keepsD [OF this r] have "stable s3 s'" .
  moreover have "md_body md = out s'" using r by (auto simp: sbind_eq_Inr)
  ultimately show thesis using parts that by blast
qed

lemma write_module_settles:
  assumes "write_module E H n s = Inr (md, s')" and "k \<in> set (defineTypes s)" and "followed k s"
  shows "settled E k s'"
proof -
  from write_module_parts [OF assms(1)] obtain s1 s2 s3 where 1: "define_variables E n s = Inr ((), s1)"
    and 2: "define_functions E n s1 = Inr ((), s2)" and 3: "define_types E n s2 = Inr ((), s3)"
    and 4: "stable s3 s'" by blast
  have g: "grows s s1" "grows s1 s2"
    using keepsD [OF growth.keeps_define_variables 1] keepsD [OF growth.keeps_define_functions 2] by blast+
  then have "k \<in> set (defineTypes s2)" using assms(2) by (auto simp: grows_def)
  moreover have "followed k s2" using g assms(3) by (auto simp: grows_def intro: stable_followed)
  ultimately have "settled E k s3" using 3 by (blast intro: define_types_settles)
  with 4 show ?thesis by (rule stable_settled)
qed

section \<open>The parts of the module\<close>

text \<open>A name that was asked for and not found is reported as an error only if it is not qualified.\<close>

lemma not_found_Inr: "not_found what name s = Inr (u, s') \<Longrightarrow> length name = 1"
  by (auto simp: not_found_def split: list.splits)

lemma forM_each:
  assumes "forM xs f s = Inr (u, s')" and "x \<in> set xs"
  shows "\<exists>t v t'. f x t = Inr (v, t')"
  using assms by (induction xs arbitrary: s) (auto simp: sbind_eq_Inr)

lemma define_variables_missing:
  assumes "define_variables E n s = Inr (u, s')" and "(name, None) \<in> set (found_variables s)"
  shows "length name = 1"
proof -
  from assms(1) obtain f where f: "forM (found_variables s) f s = Inr (u, s')"
    and none: "f (name, None) = not_found ''variable'' name"
    by (auto simp: define_variables_def)
  from forM_each [OF f assms(2)] none show ?thesis by (auto dest: not_found_Inr)
qed

lemma define_functions_missing:
  assumes "define_functions E n s = Inr (u, s')" and "(name, None) \<in> set (found_functions s)"
  shows "length name = 1"
proof -
  from assms(1) obtain f where f: "forM (sort_key fst (found_functions s)) f s = Inr (u, s')"
    and none: "f (name, None) = not_found ''function'' name"
    by (auto simp: define_functions_def)
  from assms(2) have "(name, None) \<in> set (sort_key fst (found_functions s))" by simp
  from forM_each [OF f this] none show ?thesis by (auto dest: not_found_Inr)
qed

lemma write_globals_names:
  assumes "write_globals E n s = Inr (gs, s')"
  shows "map (\<lambda>(py, ct, cname). (py, cname)) gs
    = map (\<lambda>d. (asPythonId_str (join ''::'' (fullname (e_dw E d))), linkage_name (e_dw E d)))
        (List.map_filter snd (sort_key fst (found_variables s)))"
proof -
  define f where "f = (\<lambda>acc ((_ :: string list), die). case die of
         None \<Rightarrow> ret acc
       | Some d \<Rightarrow>
           sbind (dieToType E n (DW_AT_type (e_dw E d))) (\<lambda>t.
           sbind (ctype E n t) (\<lambda>ct.
           ret (acc @ [(asPythonId_str (join ''::'' (fullname (e_dw E d))), ct, linkage_name (e_dw E d))]))))"
  have "foldM f acc vs t = Inr (gs, s') \<Longrightarrow> map (\<lambda>(py, ct, cname). (py, cname)) gs
      = map (\<lambda>(py, ct, cname). (py, cname)) acc
        @ map (\<lambda>d. (asPythonId_str (join ''::'' (fullname (e_dw E d))), linkage_name (e_dw E d)))
            (List.map_filter snd vs)" for acc vs t
  proof (induction vs arbitrary: acc t)
    case (Cons v vs)
    then show ?case
      by (cases v; cases "snd v") (fastforce simp: sbind_eq_Inr f_def List.map_filter_simps)+
  qed (simp add: List.map_filter_simps)
  from this [of "[]"] assms show ?thesis by (simp add: write_globals_def f_def)
qed

lemma lib_update_Inr:
  assumes "lib_update E n ob base ln s = Inr (us, s')"
  shows "map fst us = (if iskeyword ln then [] else [ln])
    \<and> (\<forall>u \<in> set us. length (snd (snd u)) = length (params E (ob_die ob)))"
proof -
  define f where "f = (\<lambda>args child. sbind (dieToType E n (DW_AT_type (e_dw E child))) (\<lambda>t.
            sbind (ctype E n t) (\<lambda>ct. ret (args @ [ct]))))"
  have "foldM f acc cs t = Inr (args, s'') \<Longrightarrow> length args = length acc + length cs" for acc cs t args s''
    by (induction cs arbitrary: acc t) (fastforce simp: f_def sbind_eq_Inr)+
  note len = this [of "[]", simplified]
  show ?thesis
    using assms unfolding lib_update_def f_def [symmetric]
    by (auto simp: andthen_def sbind_eq_Inr split: if_splits option.splits dest: len)
qed

lemma foldM_append:
  assumes "foldM f acc xs t = Inr (r, s')"
    and "\<And>acc x t r t'. f acc x t = Inr (r, t') \<Longrightarrow> \<exists>u. r = acc @ u \<and> P x u"
  shows "\<exists>us. r = acc @ concat us \<and> list_all2 P xs us"
  using assms(1)
proof (induction xs arbitrary: acc t)
  case (Cons x xs)
  then obtain acc1 t1 where 1: "f acc x t = Inr (acc1, t1)" "foldM f acc1 xs t1 = Inr (r, s')"
    by (auto simp: sbind_eq_Inr)
  from assms(2) [OF 1(1)] obtain u where u: "acc1 = acc @ u" "P x u" by blast
  from Cons.IH [OF 1(2)] obtain us where "r = acc1 @ concat us" "list_all2 P xs us" by blast
  with u have "r = acc @ concat (u # us)" "list_all2 P (x # xs) (u # us)" by simp_all
  then show ?case by blast
qed (auto intro: exI [of _ "[]"])

lemma updates_fold:
  assumes "foldM (\<lambda>acc ln. sbind (lib_update E n ob base ln) (\<lambda>u. ret (acc @ u))) [] lns t = Inr (us, s')"
  shows "map fst us = filter (\<lambda>ln. \<not> iskeyword ln) lns
    \<and> (\<forall>u \<in> set us. length (snd (snd u)) = length (params E (ob_die ob)))"
proof -
  define P where "P = (\<lambda>ln (u :: (string \<times> string \<times> string list) list).
    map fst u = (if iskeyword ln then [] else [ln])
    \<and> (\<forall>u \<in> set u. length (snd (snd u)) = length (params E (ob_die ob))))"
  have "\<exists>uss. us = [] @ concat uss \<and> list_all2 P lns uss"
  proof (rule foldM_append [OF assms])
    fix acc ln t r t' assume "sbind (lib_update E n ob base ln) (\<lambda>u. ret (acc @ u)) t = Inr (r, t')"
    then obtain u where "lib_update E n ob base ln t = Inr (u, t')" "r = acc @ u"
      by (auto simp: sbind_eq_Inr)
    with lib_update_Inr [OF this(1)] show "\<exists>u. r = acc @ u \<and> P ln u" unfolding P_def by blast
  qed
  then obtain uss where us: "us = concat uss" and all: "list_all2 P lns uss" by auto
  from all show ?thesis
    unfolding us by (induction rule: list_all2_induct) (auto simp: P_def split: if_splits)
qed

lemma writeLibUpdates_Inr:
  assumes "writeLibUpdates E H n k s = Inr (us, s')" and "heap s k = Some ob"
  shows "map fst us = filter (\<lambda>ln. \<not> iskeyword ln) (dynamic_names E H (ob_die ob))
    \<and> (\<forall>u \<in> set us. length (snd (snd u)) = length (params E (ob_die ob)))"
proof -
  from assms have "sbind (baseType E n k) (\<lambda>base. foldM (\<lambda>acc ln. sbind (lib_update E n ob base ln)
      (\<lambda>u. ret (acc @ u))) [] (dynamic_names E H (ob_die ob))) s = Inr (us, s')"
    by (simp add: writeLibUpdates_def sbind_eq_Inr [of "getobj k"] getobj_Inr split: if_splits)
  then obtain base s1 where "foldM (\<lambda>acc ln. sbind (lib_update E n ob base ln)
      (\<lambda>u. ret (acc @ u))) [] (dynamic_names E H (ob_die ob)) s1 = Inr (us, s')"
    unfolding sbind_eq_Inr [of "baseType E n k"] by blast
  from updates_fold [OF this] show ?thesis by simp
qed

lemma dynamic_names_props:
  "sorted (dynamic_names E H d)" "distinct (dynamic_names E H d)"
  by (simp_all add: dynamic_names_def Let_def)

text \<open>The one type of a name.\<close>

lemma set_single: "distinct xs \<Longrightarrow> set xs = {x} \<Longrightarrow> xs = [x]"
  by (cases xs; cases "tl xs") auto

lemma only_key:
  assumes "heap_ok s"
  shows "filter (\<lambda>k. key_name k = name) (heap_keys s) = [k] \<longleftrightarrow>
    heap s k \<noteq> None \<and> key_name k = name \<and> (\<forall>j. heap s j \<noteq> None \<longrightarrow> key_name j = name \<longrightarrow> j = k)"
    (is "?f = _ \<longleftrightarrow> ?r")
proof -
  have set: "set ?f = {j. heap s j \<noteq> None \<and> key_name j = name}" using assms by (auto simp: heap_ok_def)
  have "distinct ?f" using assms by (simp add: heap_ok_def)
  then have "?f = [k] \<longleftrightarrow> set ?f = {k}" using set_single by (metis list.set(1) list.simps(15))
  also have "\<dots> \<longleftrightarrow> ?r" unfolding set by blast
  finally show ?thesis .
qed

lemma tag_alias_single:
  "filter (\<lambda>k. key_name k = name) (heap_keys s) = [k] \<Longrightarrow> heap s k = Some ob \<Longrightarrow>
   tag_alias E s name = (if \<not> is_external (ob_kind ob) \<and> ob_defined ob \<and> List.member TAGGED_ELEMENTS (key_tag k)
     then [(obj_pyName E ob False, obj_pyName E ob True)] else [])"
  by (simp add: tag_alias_def)

lemma tag_alias_other:
  "(\<And>k. filter (\<lambda>k. key_name k = name) (heap_keys s) \<noteq> [k]) \<Longrightarrow> tag_alias E s name = []"
  by (cases "filter (\<lambda>k. key_name k = name) (heap_keys s)") (auto simp: tag_alias_def split: list.split)

text \<open>The name of a key belongs to no other type.\<close>

definition sole :: "rstate \<Rightarrow> key \<Rightarrow> bool" where
  "sole s k = (heap s k \<noteq> None \<and> (\<forall>j. heap s j \<noteq> None \<longrightarrow> key_name j = key_name k \<longrightarrow> j = k))"

lemma tag_alias_iff:
  assumes "heap_ok s"
  shows "a \<in> set (tag_alias E s name) \<longleftrightarrow> (\<exists>k ob. heap s k = Some ob \<and> key_name k = name \<and> sole s k
    \<and> \<not> is_external (ob_kind ob) \<and> ob_defined ob \<and> List.member TAGGED_ELEMENTS (key_tag k)
    \<and> a = (obj_pyName E ob False, obj_pyName E ob True))" (is "_ \<longleftrightarrow> ?r")
proof (cases "\<exists>k. filter (\<lambda>k. key_name k = name) (heap_keys s) = [k]")
  case True
  then obtain k where k: "filter (\<lambda>k. key_name k = name) (heap_keys s) = [k]" by blast
  then have only: "heap s k \<noteq> None" "key_name k = name" "sole s k"
    and unique: "\<And>j. sole s j \<Longrightarrow> key_name j = name \<Longrightarrow> j = k"
    unfolding only_key [OF assms] sole_def by blast+
  then obtain ob where ob: "heap s k = Some ob" by blast
  show ?thesis
  proof
    assume "a \<in> set (tag_alias E s name)"
    then show ?r unfolding tag_alias_single [OF k ob]
      by (intro exI [of _ k] exI [of _ ob]) (auto simp: ob only split: if_splits)
  next
    assume ?r
    then show "a \<in> set (tag_alias E s name)"
      unfolding tag_alias_single [OF k ob] using unique ob by fastforce
  qed
next
  case False
  then have "tag_alias E s name = []" by (intro tag_alias_other) blast
  moreover have "\<not> ?r"
  proof
    assume ?r
    then obtain k where "sole s k" "key_name k = name" by blast
    with only_key [OF assms, of name k] False show False by (auto simp: sole_def)
  qed
  ultimately show ?thesis by simp
qed

text \<open>The statements a collected structure or union has in the module.\<close>

lemma requested_written:
  assumes "init_resolver E q n s0 = Inr (u, s)" and "write_module E H m s = Inr (md, s')"
    and "List.member (defineTypes s) k" and "ready False k s"
  shows "\<exists>ob f. heap s' k = Some ob \<and> ob_defdie ob = Some f
    \<and> (unavailable E f \<or> classes_of (md_body md) k = 1
       \<and> (\<exists>z. DW_AT_byte_size (e_dw E f) = Some z
          \<and> {(k, SNativeSize (obj_pyName E ob True) z), (k, SHaveDefinition (obj_pyName E ob True))} \<subseteq> set (md_body md)))"
proof -
  have st: "settled E k s'" using write_module_settles [OF assms(2)] assms(3) ready_followed [OF assms(4)] by simp
  have "stable s s'" by (rule keepsD [OF stab.keeps_write_module assms(2)])
  then have "ready False k s'" using assms(4) by (rule stable_ready)
  with st obtain ob where ob: "heap s' k = Some ob" "is_member_kind (ob_kind ob)"
    "ob_defined ob \<or> (\<exists>f. ob_defdie ob = Some f \<and> unavailable E f)" by (auto simp: settled_def ready_def)
  have body: "md_body md = out s'" using write_module_parts [OF assms(2)] by blast
  have ord: "ordered s'" using keepsD [OF order.keeps_write_module assms(2)] init_ordered [OF assms(1)]
    by (simp add: keeps_order_def)
  have "all_sized E s'" using keepsD [OF sizes.keeps_write_module assms(2)] init_sized [OF assms(1)]
    by (simp add: keeps_sized_def)
  with ob have "sized E k s' \<or> (\<exists>f. ob_defdie ob = Some f \<and> unavailable E f)"
    by (auto simp: all_sized_def told_of_def)
  then show ?thesis
  proof
    assume "sized E k s'"
    with ob obtain f z where f: "ob_declared ob" "ob_defdie ob = Some f" "DW_AT_byte_size (e_dw E f) = Some z"
      "{(k, SNativeSize (obj_pyName E ob True) z), (k, SHaveDefinition (obj_pyName E ob True))} \<subseteq> set (out s')" by (auto simp: sized_def)
    then have "ready True k s'" using ob by (simp add: ready_def)
    with ord have "classes_of (out s') k = 1" by (simp add: ordered_def)
    with f ob body show ?thesis by auto
  qed (use ob in auto)
qed

section \<open>Properties\<close>

text \<open>C8: every structure or union the resolver has collected is written: when a module comes out,
  the class of the type is in it exactly once, with the size that its definition has in the debug
  data, unless no definition of the type was found.\<close>

theorem requested_structs_written:
  assumes "init_resolver E q n s0 = Inr (u, s)" and "write_module E H m s = Inr (md, s')"
    and "List.member (defineTypes s) k" and "ready False k s"
  shows "\<exists>ob f. heap s' k = Some ob \<and> ob_defdie ob = Some f
    \<and> (unavailable E f \<or> classes_of (md_body md) k = 1
       \<and> (\<exists>z. DW_AT_byte_size (e_dw E f) = Some z
          \<and> List.member (md_body md) (k, SNativeSize (obj_pyName E ob True) z)))"
  using requested_written [OF assms] by auto

text \<open>C10: in a generated module no class is written twice, and every table of fields comes after
  the class it belongs to.\<close>

theorem module_ordered:
  assumes "init_resolver E q n s0 = Inr (u, s)" and "write_module E H m s = Inr (md, s')"
  shows "classes_of (md_body md) k \<le> 1
    \<and> (\<forall>xs x ys. md_body md = xs @ (k, x) # ys \<longrightarrow> is_fields x \<longrightarrow> classes_of xs k = 1)"
proof -
  have body: "md_body md = out s'" using write_module_parts [OF assms(2)] by blast
  have ord: "ordered s'" using keepsD [OF order.keeps_write_module assms(2)] init_ordered [OF assms(1)]
    by (simp add: keeps_order_def)
  then have le: "classes_of (out s') k \<le> 1" by (simp add: ordered_def)
  moreover have "classes_of xs k = 1" if "out s' = xs @ (k, x) # ys" "is_fields x" for xs x ys
  proof -
    have "0 < classes_of xs k" using ord that by (simp add: ordered_def fields_after_def)
    moreover have "classes_of xs k \<le> classes_of (out s') k" using that(1) by simp
    ultimately show ?thesis using le by simp
  qed
  ultimately show ?thesis unfolding body by blast
qed


text \<open>The class of the variables has an entry for each variable found, in the order of their
  names, under the Python form of the full name and looked up by the name the linker knows.\<close>

lemma globals_listed:
  assumes "write_globals E n s = Inr (gs, s')"
  shows "map (\<lambda>(py, ct, cname). (py, cname)) gs
    = map (\<lambda>d. (asPythonId_str (join ''::'' (fullname (e_dw E d))), linkage_name (e_dw E d)))
        (List.map_filter snd (sort_key fst (found_variables s)))"
  using assms by (rule write_globals_names)

text \<open>C23: the prototypes written for a function are for the dynamic symbols at its address and for
  its own name if it is an exported symbol, in order, each once, without the Python keywords,
  and each with one type per formal parameter.\<close>

theorem lib_updates_spec:
  assumes "writeLibUpdates E H n k s = Inr (us, s')" and "heap s k = Some ob"
  shows "map fst us = filter (\<lambda>ln. \<not> iskeyword ln) (dynamic_names E H (ob_die ob))
    \<and> sorted (map fst us) \<and> distinct (map fst us)
    \<and> list_all (\<lambda>u. length (snd (snd u)) = length (params E (ob_die ob))) us"
  using writeLibUpdates_Inr [OF assms] dynamic_names_props [of E H "ob_die ob"]
  by (auto simp: list_all_iff intro: sorted_filter [where f = id, simplified])

text \<open>C22: the aliases without a tag prefix are those of the defined structures, unions, classes and
  enumerations of the module itself whose full name no other type has.\<close>

theorem tag_aliases_spec:
  assumes "heap_ok s"
  shows "List.member (tag_aliases E s) a \<longleftrightarrow> (\<exists>k ob. heap s k = Some ob \<and> sole s k
    \<and> \<not> is_external (ob_kind ob) \<and> ob_defined ob \<and> List.member TAGGED_ELEMENTS (key_tag k)
    \<and> a = (obj_pyName E ob False, obj_pyName E ob True))"
proof -
  have "heap s k = Some ob \<Longrightarrow> key_name k \<in> key_name ` set (heap_keys s)" for k ob
    using assms by (auto simp: heap_ok_def)
  then show ?thesis
    by (simp add: tag_aliases_def tag_alias_iff [OF assms]) blast
qed

section \<open>Examples\<close>

definition node_request :: request where
  "node_request = \<lparr>q_types = TypesList [HintName ''n''], q_functions = NoNames, q_globals = NoNames,
     q_namespace = None, q_roots = [1]\<rparr>"

text \<open>\<open>int v; int f( int );\<close> where the symbols at the address of \<open>f\<close> are \<open>f\<close> and \<open>class\<close>.\<close>

definition ex_lib :: dwarf where
  "ex_lib = (\<lambda>_. mk_die 0 [])
     (2 := (mk_die DW_TAG_compile_unit [])\<lparr>children := [3, 4]\<rparr>,
      3 := (mk_die DW_TAG_variable [''v''])\<lparr>DW_AT_type := Some 6\<rparr>,
      4 := (mk_die DW_TAG_subprogram [''f''])\<lparr>DW_AT_type := Some 6, DW_AT_low_pc := Some 64,
             DW_AT_external := True, children := [5]\<rparr>,
      5 := (mk_die DW_TAG_formal_parameter [''f'', ''x''])\<lparr>DW_AT_type := Some 6\<rparr>,
      6 := (mk_die DW_TAG_base_type [''int''])\<lparr>DW_AT_byte_size := Some 4\<rparr>)"

definition lib_request :: request where
  "lib_request = \<lparr>q_types = TypesList [], q_functions = NamesList [Dotted ''f''],
     q_globals = NamesList [Dotted ''v'', Dotted ''ns::w''], q_namespace = None, q_roots = [2]\<rparr>"

definition ex_host :: host where
  "ex_host = \<lparr>h_str = id, h_dynaddrs = (\<lambda>d pc. if pc = 64 then Some [''f'', ''class''] else None),
     h_symbol = (\<lambda>d name. name = ''f'')\<rparr>"

definition node_state :: rstate where
  "node_state = (case init_resolver (ex_env ex_node) node_request 9 rstate0 of Inr (_, s) \<Rightarrow> s | Inl _ \<Rightarrow> rstate0)"

definition lib_state :: rstate where
  "lib_state = (case init_resolver (ex_env ex_lib) lib_request 9 rstate0 of Inr (_, s) \<Rightarrow> s | Inl _ \<Rightarrow> rstate0)"

lemma node_state: "init_resolver (ex_env ex_node) node_request 9 rstate0 = Inr ((), node_state)"
proof -
  have "case init_resolver (ex_env ex_node) node_request 9 rstate0 of Inr _ \<Rightarrow> True | Inl _ \<Rightarrow> False" by code_simp
  then show ?thesis by (auto simp: node_state_def split: sum.splits)
qed

lemma node_module: "\<exists>md s. write_module (ex_env ex_node) ex_host 12 node_state = Inr (md, s)
    \<and> map_option ob_defdie (heap s node_key) = Some (Some 1)"
proof -
  have "case write_module (ex_env ex_node) ex_host 12 node_state of
      Inr (_, s) \<Rightarrow> map_option ob_defdie (heap s node_key) = Some (Some 1) | Inl _ \<Rightarrow> False" by code_simp
  then show ?thesis by (auto split: sum.splits)
qed

theorem requested_structs_written_witness:
  "\<exists>md s. write_module (ex_env ex_node) ex_host 12 node_state = Inr (md, s)
    \<and> classes_of (md_body md) node_key = 1"
proof -
  obtain md s where r: "write_module (ex_env ex_node) ex_host 12 node_state = Inr (md, s)"
    and d: "map_option ob_defdie (heap s node_key) = Some (Some 1)" using node_module by blast
  have m: "List.member (defineTypes node_state) node_key" by code_simp
  have "case heap node_state node_key of Some ob \<Rightarrow> is_member_kind (ob_kind ob) | None \<Rightarrow> False" by code_simp
  then have k: "ready False node_key node_state" by (auto simp: ready_def split: option.splits)
  have "\<not> unavailable (ex_env ex_node) 1"
    by (simp add: unavailable_def isVoid_def deref_plain is_qualified_def qualifiers_def ex_env_def
        ex_node_def mk_die_def)
  with requested_structs_written [OF node_state r m k] d r show ?thesis by auto
qed

theorem module_ordered_witness:
  "\<exists>md s. write_module (ex_env ex_node) ex_host 12 node_state = Inr (md, s)
    \<and> classes_of (md_body md) node_key \<le> 1"
proof -
  obtain md s where r: "write_module (ex_env ex_node) ex_host 12 node_state = Inr (md, s)"
    using node_module by blast
  with module_ordered [OF node_state r] show ?thesis by blast
qed


lemma lib_globals: "\<exists>gs s. write_globals (ex_env ex_lib) 9 lib_state = Inr (gs, s)"
proof -
  have "case write_globals (ex_env ex_lib) 9 lib_state of Inr _ \<Rightarrow> True | Inl _ \<Rightarrow> False" by code_simp
  then show ?thesis by (auto split: sum.splits)
qed

lemma globals_listed_witness:
  "\<exists>gs s. write_globals (ex_env ex_lib) 9 lib_state = Inr (gs, s)
    \<and> map (\<lambda>(py, ct, cname). (py, cname)) gs = [(''v'', ''v'')]"
proof -
  obtain gs s where r: "write_globals (ex_env ex_lib) 9 lib_state = Inr (gs, s)" using lib_globals by blast
  have "map (\<lambda>d. (asPythonId_str (join ''::'' (fullname (e_dw (ex_env ex_lib) d))),
      linkage_name (e_dw (ex_env ex_lib) d)))
    (List.map_filter snd (sort_key fst (found_variables lib_state))) = [(''v'', ''v'')]" by code_simp
  with globals_listed [OF r] r show ?thesis by simp
qed

definition fun_state :: rstate where
  "fun_state = start_at ex_lib [4]"

lemma fun_updates: "\<exists>us s. writeLibUpdates (ex_env ex_lib) ex_host 9 (Key [''f''] DW_TAG_subprogram) fun_state = Inr (us, s)"
proof -
  have "case writeLibUpdates (ex_env ex_lib) ex_host 9 (Key [''f''] DW_TAG_subprogram) fun_state of
      Inr _ \<Rightarrow> True | Inl _ \<Rightarrow> False" by code_simp
  then show ?thesis by (auto split: sum.splits)
qed

theorem lib_updates_spec_witness:
  "\<exists>us s. writeLibUpdates (ex_env ex_lib) ex_host 9 (Key [''f''] DW_TAG_subprogram) fun_state = Inr (us, s)
    \<and> map fst us = [''f'']"
proof -
  obtain us s where r: "writeLibUpdates (ex_env ex_lib) ex_host 9 (Key [''f''] DW_TAG_subprogram) fun_state
      = Inr (us, s)" using fun_updates by blast
  have d: "map_option ob_die (heap fun_state (Key [''f''] DW_TAG_subprogram)) = Some 4" by code_simp
  then obtain ob where ob: "heap fun_state (Key [''f''] DW_TAG_subprogram) = Some ob" "ob_die ob = 4" by auto
  have "filter (\<lambda>ln. \<not> iskeyword ln) (dynamic_names (ex_env ex_lib) ex_host 4) = [''f'']" by code_simp
  with lib_updates_spec [OF r ob(1)] ob(2) r show ?thesis by simp
qed

theorem tag_aliases_spec_witness:
  "\<exists>s. heap_ok s \<and> List.member (tag_aliases (ex_env ex_node) s) (''n'', ''struct_n'')"
proof -
  let ?s = "\<lparr>heap = [node_key \<mapsto> (new_obj (ex_env ex_node) 1 KStruct)\<lparr>ob_defined := True\<rparr>], heap_keys = [node_key],
    out = [], errlog = [], defineTypes = [], definedNames = [], found_variables = [], found_functions = [],
    producers = [], applyHints = [], allHintedTypes = []\<rparr> :: rstate"
  let ?ob = "(new_obj (ex_env ex_node) 1 KStruct)\<lparr>ob_defined := True\<rparr>"
  have ok: "heap_ok ?s" by (simp add: heap_ok_def)
  have names: "obj_pyName (ex_env ex_node) ?ob False = ''n''"
    "obj_pyName (ex_env ex_node) ?ob True = ''struct_n''" by code_simp+
  have "heap ?s node_key = Some ?ob" "sole ?s node_key" "\<not> is_external (ob_kind ?ob)" "ob_defined ?ob"
    "List.member TAGGED_ELEMENTS (key_tag node_key)"
    by (simp_all add: sole_def is_external_def new_obj_def TAGGED_ELEMENTS_def node_key_def)
  with names have "List.member (tag_aliases (ex_env ex_node) ?s) (''n'', ''struct_n'')"
    unfolding tag_aliases_spec [OF ok] by metis
  with ok show ?thesis by blast
qed

end
