(* ===== verification/Enumerations.thy ===== *)
theory Enumerations
  imports WriteProps
begin

text \<open>
  The values of enumerations.  The module has a line \<open>NAME = type(value).value\<close> for each enumerator,
  so Python sees the value at the width of the integer type: that of the debug data, or \<open>c_uint\<close>.
\<close>

section \<open>Integer types of ctypes\<close>

text \<open>Signed or not, and the number of bits, on a platform with pointers of this size.\<close>

definition ctypes_ints :: "int \<Rightarrow> (string \<times> bool \<times> nat) list" where
  "ctypes_ints psz =
     [(''c_byte'', True, 8), (''c_ubyte'', False, 8), (''c_short'', True, 16), (''c_ushort'', False, 16),
      (''c_int'', True, 32), (''c_uint'', False, 32), (''c_long'', True, if psz = 4 then 32 else 64),
      (''c_ulong'', False, if psz = 4 then 32 else 64), (''c_longlong'', True, 64), (''c_ulonglong'', False, 64)]"

text \<open>\<open>type(value).value\<close>: no integer type of \<open>ctypes\<close> checks for overflow.\<close>

definition int_of_ctype :: "int \<Rightarrow> string \<Rightarrow> int \<Rightarrow> int option" where
  "int_of_ctype psz ty v = (case map_of (ctypes_ints psz) ty of
     None \<Rightarrow> None
   | Some (signed, bits) \<Rightarrow> Some (if signed then signed_take_bit (bits - 1) v else take_bit bits v))"

definition fits_ctype :: "int \<Rightarrow> string \<Rightarrow> int \<Rightarrow> bool" where
  "fits_ctype psz ty v = (case map_of (ctypes_ints psz) ty of
     None \<Rightarrow> False
   | Some (signed, bits) \<Rightarrow> if signed then - (2 ^ (bits - 1)) \<le> v \<and> v < 2 ^ (bits - 1) else 0 \<le> v \<and> v < 2 ^ bits)"

lemma int_of_ctype_fits: "fits_ctype psz ty v \<Longrightarrow> int_of_ctype psz ty v = Some v"
  by (auto simp: fits_ctype_def int_of_ctype_def signed_take_bit_int_eq_self take_bit_int_eq_self
      split: option.splits if_splits)

lemma int_of_uint: "int_of_ctype psz ''c_uint'' v = Some (v mod 2 ^ 32)"
  by (simp add: int_of_ctype_def ctypes_ints_def take_bit_eq_mod)

section \<open>The lines of an enumeration\<close>

text \<open>The enumerators in the debug data, by their Python names.\<close>

definition enumerators :: "dwarf \<Rightarrow> nat list \<Rightarrow> (string \<times> int option) list" where
  "enumerators D cs = map (\<lambda>c. (str_of (asPythonId (DW_AT_name (D c))), DW_AT_const_value (D c)))
     (filter (\<lambda>c. dtag (D c) = DW_TAG_enumerator) cs)"

fun line_values :: "enum_line list \<Rightarrow> (string \<times> int) list" where
  "line_values [] = []"
| "line_values (EComment _ # ls) = line_values ls"
| "line_values (EValue nm v # ls) = (nm, v) # line_values ls"

definition module_values :: "int \<Rightarrow> string \<Rightarrow> enum_line list \<Rightarrow> (string \<times> int option) list" where
  "module_values psz ty ls = map (\<lambda>(nm, v). (nm, int_of_ctype psz ty v)) (line_values ls)"

lemma line_values_comment [simp]: "line_values ((if b then [EComment c] else []) @ ls) = line_values ls"
  by simp

lemma enum_lines_values:
  "enum_lines D c cs = Inr ls \<Longrightarrow> enumerators D cs = map (\<lambda>(nm, v). (nm, Some v)) (line_values ls)"
  by (induction cs arbitrary: ls)
    (auto simp: enumerators_def Let_def bnd_eq_Inr need_eq_Inr split: if_splits)

lemma values_kept:
  assumes "enum_lines D c cs = Inr ls" and "list_all (\<lambda>(nm, v). v = None \<or> fits_ctype psz ty (the v)) (enumerators D cs)"
  shows "module_values psz ty ls = enumerators D cs"
  using assms(2) int_of_ctype_fits [of psz ty] unfolding enum_lines_values [OF assms(1)]
  by (fastforce simp: module_values_def list_all_iff)

lemma values_wrap:
  assumes "enum_lines D c cs = Inr ls"
  shows "module_values psz ''c_uint'' ls = map (\<lambda>(nm, v). (nm, map_option (\<lambda>v. v mod 2 ^ 32) v)) (enumerators D cs)"
  unfolding enum_lines_values [OF assms] by (simp add: module_values_def int_of_uint split_beta)

section \<open>Properties\<close>

text \<open>C9: every enumeration that was collected is in the module with its enumerators in order.  Python
  sees the C values if they fit the integer type of the enumeration; if the debug data has no such
  type, it sees them modulo two to the power of 32, so that negative ones are lost.\<close>

theorem enum_values_written:
  assumes init: "init_resolver E q n s0 = Inr (u, s)" and w: "write_module E H m s = Inr (md, s')"
    and k: "List.member (defineTypes s) k" and enum: "\<exists>ob. heap s k = Some ob \<and> ob_kind ob = KEnum"
  shows "\<exists>ob f. heap s' k = Some ob \<and> ob_defdie ob = Some f \<and> (unavailable E f
    \<or> (\<exists>ty nameless ls. (k, SEnum (obj_pyName E ob True) ty nameless ls) \<in> set (md_body md)
       \<and> (list_all (\<lambda>(nm, v). v = None \<or> fits_ctype (e_psz E) ty (the v)) (enumerators (e_dw E) (children (e_dw E f)))
          \<longrightarrow> module_values (e_psz E) ty ls = enumerators (e_dw E) (children (e_dw E f)))
       \<and> (case DW_AT_type (e_dw E f) of
            None \<Rightarrow> ty = ''c_uint'' \<and> module_values (e_psz E) ty ls
              = map (\<lambda>(nm, v). (nm, map_option (\<lambda>v. v mod 2 ^ 32) v)) (enumerators (e_dw E) (children (e_dw E f)))
          | Some b \<Rightarrow> \<exists>a. heap s' (key_of E b) = Some a \<and> ty = obj_pyName E a True)))"
proof -
  have "followed k s" using enum by (auto simp: followed_def)
  then have "settled E k s'" using write_module_settles [OF w] k by simp
  then obtain ob where ob: "heap s' k = Some ob" "ob_defined ob \<or> (\<exists>f. ob_defdie ob = Some f \<and> unavailable E f)"
    by (auto simp: settled_def)
  have "stable s s'" by (rule keepsD [OF stab.keeps_write_module w])
  then have kd: "ob_kind ob = KEnum" using enum ob(1) by (auto simp: later_obj_def dest!: stableD)
  have "all_sized E s'" using keepsD [OF sizes.keeps_write_module w] init_sized [OF init] by (simp add: keeps_sized_def)
  with ob kd have "enumerated E k s' \<or> (\<exists>f. ob_defdie ob = Some f \<and> unavailable E f)"
    by (auto simp: all_sized_def told_of_def)
  then show ?thesis
  proof
    assume "enumerated E k s'"
    then obtain ob2 f ty nameless c ls where ob2: "heap s' k = Some ob2" "ob_defdie ob2 = Some f"
      and out: "(k, SEnum (obj_pyName E ob2 True) ty nameless ls) \<in> set (out s')"
      and ls: "enum_lines (e_dw E) c (children (e_dw E f)) = Inr ls"
      and ty: "case DW_AT_type (e_dw E f) of None \<Rightarrow> ty = ''c_uint''
        | Some b \<Rightarrow> \<exists>a. heap s' (key_of E b) = Some a \<and> ty = obj_pyName E a True"
      unfolding enumerated_def by blast
    have body: "md_body md = out s'" using write_module_parts [OF w] by blast
    have "case DW_AT_type (e_dw E f) of
            None \<Rightarrow> ty = ''c_uint'' \<and> module_values (e_psz E) ty ls
              = map (\<lambda>(nm, v). (nm, map_option (\<lambda>v. v mod 2 ^ 32) v)) (enumerators (e_dw E) (children (e_dw E f)))
          | Some b \<Rightarrow> \<exists>a. heap s' (key_of E b) = Some a \<and> ty = obj_pyName E a True"
      using ty values_wrap [OF ls] by (auto split: option.splits)
    with ob2 out values_kept [OF ls] show ?thesis unfolding body by blast
  qed (use ob(1) in blast)
qed

text \<open>\<open>enum e { A = 1, B = -1 };\<close> without and with its integer type.\<close>

definition ex_enum :: "nat option \<Rightarrow> dwarf" where
  "ex_enum t = (\<lambda>_. mk_die 0 [])
     (1 := (mk_die DW_TAG_enumeration_type [''e''])\<lparr>DW_AT_byte_size := Some 4, DW_AT_type := t, children := [2, 3]\<rparr>,
      2 := (mk_die DW_TAG_enumerator [''e'', ''A''])\<lparr>DW_AT_const_value := Some 1\<rparr>,
      3 := (mk_die DW_TAG_enumerator [''e'', ''B''])\<lparr>DW_AT_const_value := Some (- 1)\<rparr>,
      4 := (mk_die DW_TAG_base_type [''int''])\<lparr>DW_AT_byte_size := Some 4\<rparr>)"

definition enum_request :: request where
  "enum_request = \<lparr>q_types = TypesList [HintName ''e''], q_functions = NoNames, q_globals = NoNames,
     q_namespace = None, q_roots = [1]\<rparr>"

definition enum_key :: key where
  "enum_key = Key [''e''] DW_TAG_enumeration_type"

definition enum_state :: "nat option \<Rightarrow> rstate" where
  "enum_state t = (case init_resolver (ex_env (ex_enum t)) enum_request 9 rstate0 of Inr (_, s) \<Rightarrow> s | Inl _ \<Rightarrow> rstate0)"

lemma enum_init:
  assumes "List.member [None, Some 4] t"
  shows "init_resolver (ex_env (ex_enum t)) enum_request 9 rstate0 = Inr ((), enum_state t)
    \<and> List.member (defineTypes (enum_state t)) enum_key
    \<and> (\<exists>ob. heap (enum_state t) enum_key = Some ob \<and> ob_kind ob = KEnum)"
proof -
  have "list_all (\<lambda>t. case init_resolver (ex_env (ex_enum t)) enum_request 9 rstate0 of
      Inr (_, s) \<Rightarrow> List.member (defineTypes s) enum_key
        \<and> (case heap s enum_key of Some ob \<Rightarrow> ob_kind ob = KEnum | None \<Rightarrow> False)
    | Inl _ \<Rightarrow> False) [None, Some 4]" by code_simp
  with assms have "case init_resolver (ex_env (ex_enum t)) enum_request 9 rstate0 of
      Inr (_, s) \<Rightarrow> List.member (defineTypes s) enum_key
        \<and> (case heap s enum_key of Some ob \<Rightarrow> ob_kind ob = KEnum | None \<Rightarrow> False)
    | Inl _ \<Rightarrow> False" by auto
  then show ?thesis by (auto simp: enum_state_def split: sum.splits option.splits)
qed

lemma enum_module:
  assumes "List.member [None, Some 4] t"
  shows "\<exists>md s. write_module (ex_env (ex_enum t)) ex_host 12 (enum_state t) = Inr (md, s)
    \<and> map_option ob_defdie (heap s enum_key) = Some (Some 1)
    \<and> (\<forall>a. heap s (key_of (ex_env (ex_enum t)) 4) = Some a \<longrightarrow> obj_pyName (ex_env (ex_enum t)) a True = ''c_int'')"
proof -
  have "list_all (\<lambda>t. case write_module (ex_env (ex_enum t)) ex_host 12 (enum_state t) of
      Inr (_, s) \<Rightarrow> map_option ob_defdie (heap s enum_key) = Some (Some 1)
        \<and> (case heap s (key_of (ex_env (ex_enum t)) 4) of None \<Rightarrow> True
           | Some a \<Rightarrow> obj_pyName (ex_env (ex_enum t)) a True = ''c_int'')
    | Inl _ \<Rightarrow> False) [None, Some 4]" by code_simp
  with assms have "case write_module (ex_env (ex_enum t)) ex_host 12 (enum_state t) of
      Inr (_, s) \<Rightarrow> map_option ob_defdie (heap s enum_key) = Some (Some 1)
        \<and> (case heap s (key_of (ex_env (ex_enum t)) 4) of None \<Rightarrow> True
           | Some a \<Rightarrow> obj_pyName (ex_env (ex_enum t)) a True = ''c_int'')
    | Inl _ \<Rightarrow> False" by auto
  then show ?thesis by (auto split: sum.splits option.splits)
qed

lemma ex_enum_values:
  "enumerators (e_dw (ex_env (ex_enum t))) (children (e_dw (ex_env (ex_enum t)) 1)) = [(''A'', Some 1), (''B'', Some (- 1))]"
proof -
  have "str_of (asPythonId (Some (last [''e'', ''A'']))) = ''A''" "str_of (asPythonId (Some (last [''e'', ''B'']))) = ''B''"
    by code_simp+
  then show ?thesis by (simp add: enumerators_def ex_env_def ex_enum_def mk_die_def)
qed

lemma ex_enum_available: "\<not> unavailable (ex_env (ex_enum t)) 1" "DW_AT_type (e_dw (ex_env (ex_enum t)) 1) = t"
  by (simp_all add: unavailable_def isVoid_def deref_plain is_qualified_def qualifiers_def ex_env_def ex_enum_def mk_die_def)

theorem enum_values_written_witness:
  "(\<exists>md s py nameless ls. write_module (ex_env (ex_enum None)) ex_host 12 (enum_state None) = Inr (md, s)
     \<and> (enum_key, SEnum py ''c_uint'' nameless ls) \<in> set (md_body md)
     \<and> module_values 8 ''c_uint'' ls = [(''A'', Some 1), (''B'', Some 4294967295)])
   \<and> (\<exists>md s py nameless ls. write_module (ex_env (ex_enum (Some 4))) ex_host 12 (enum_state (Some 4)) = Inr (md, s)
     \<and> (enum_key, SEnum py ''c_int'' nameless ls) \<in> set (md_body md)
     \<and> module_values 8 ''c_int'' ls = [(''A'', Some 1), (''B'', Some (- 1))])"
proof
  have t: "List.member [None, Some 4] (None :: nat option)" "List.member [None, Some 4] (Some 4 :: nat option)" by simp_all
  note vals = enum_values_written [OF conjunct1 [OF enum_init] _ conjunct1 [OF conjunct2 [OF enum_init]]
      conjunct2 [OF conjunct2 [OF enum_init]]]
  have psz: "e_psz (ex_env D) = 8" for D by (simp add: ex_env_def)
  from enum_module [OF t(1)] obtain md s where r: "write_module (ex_env (ex_enum None)) ex_host 12 (enum_state None) = Inr (md, s)"
    and d: "map_option ob_defdie (heap s enum_key) = Some (Some 1)" by blast
  from vals [OF t(1) r t(1) t(1)] d show "\<exists>md s py nameless ls. write_module (ex_env (ex_enum None)) ex_host 12 (enum_state None) = Inr (md, s)
     \<and> (enum_key, SEnum py ''c_uint'' nameless ls) \<in> set (md_body md)
     \<and> module_values 8 ''c_uint'' ls = [(''A'', Some 1), (''B'', Some 4294967295)]"
    by (fastforce simp: r ex_enum_available ex_enum_values psz simp del: One_nat_def)
  from enum_module [OF t(2)] obtain md s where r: "write_module (ex_env (ex_enum (Some 4))) ex_host 12 (enum_state (Some 4)) = Inr (md, s)"
    and d: "map_option ob_defdie (heap s enum_key) = Some (Some 1)"
    and py: "\<forall>a. heap s (key_of (ex_env (ex_enum (Some 4))) 4) = Some a \<longrightarrow> obj_pyName (ex_env (ex_enum (Some 4))) a True = ''c_int''"
    by blast
  have fit: "fits_ctype 8 ''c_int'' 1" "fits_ctype 8 ''c_int'' (- 1)" by (simp_all add: fits_ctype_def ctypes_ints_def)
  from vals [OF t(2) r t(2) t(2)] d py show "\<exists>md s py nameless ls. write_module (ex_env (ex_enum (Some 4))) ex_host 12 (enum_state (Some 4)) = Inr (md, s)
     \<and> (enum_key, SEnum py ''c_int'' nameless ls) \<in> set (md_body md)
     \<and> module_values 8 ''c_int'' ls = [(''A'', Some 1), (''B'', Some (- 1))]"
    by (fastforce simp: r ex_enum_available ex_enum_values psz fit simp del: One_nat_def)
qed

end
