(* ===== verification/Outcomes.thy ===== *)
theory Outcomes
  imports StateExn
begin

text \<open>
  How a computation may end.  \<open>yields I N m Q\<close> says that from a state in the invariant \<open>I\<close> the
  computation \<open>m\<close> raises none of the exceptions in \<open>N\<close>, and if it returns, the state is in the
  invariant again and the result satisfies \<open>Q\<close>.  The rules follow the ways of putting
  computations together, as a program logic does; \<open>Q\<close> speaks of the result only, because what the
  proofs need to know of it does not depend on the state.
\<close>

section \<open>The judgement\<close>

definition res_in :: "pyexn set \<Rightarrow> 'a res \<Rightarrow> ('a \<Rightarrow> bool) \<Rightarrow> bool" where
  "res_in N r Q = (case r of Inl e \<Rightarrow> e \<notin> N | Inr x \<Rightarrow> Q x)"

definition yields :: "('s \<Rightarrow> bool) \<Rightarrow> pyexn set \<Rightarrow> ('s, 'a) comp \<Rightarrow> ('a \<Rightarrow> bool) \<Rightarrow> bool" where
  "yields I N m Q = (\<forall>s. I s \<longrightarrow> res_in N (m s) (\<lambda>(x, s'). I s' \<and> Q x))"

lemma res_in_simps [simp]: "res_in N (Inl e) Q \<longleftrightarrow> e \<notin> N" "res_in N (Inr x) Q \<longleftrightarrow> Q x"
  by (simp_all add: res_in_def)

lemma res_in_bnd: "res_in N r Q \<Longrightarrow> (\<And>x. Q x \<Longrightarrow> res_in N (f x) P) \<Longrightarrow> res_in N (bnd r f) P"
  by (cases r) auto

lemma res_in_weaken: "res_in N r Q \<Longrightarrow> (\<And>x. Q x \<Longrightarrow> P x) \<Longrightarrow> res_in N r P"
  by (cases r) auto

lemma yieldsI: "(\<And>s. I s \<Longrightarrow> res_in N (m s) (\<lambda>(x, s'). I s' \<and> Q x)) \<Longrightarrow> yields I N m Q"
  by (simp add: yields_def)

lemma yieldsD: "yields I N m Q \<Longrightarrow> I s \<Longrightarrow> res_in N (m s) (\<lambda>(x, s'). I s' \<and> Q x)"
  by (simp add: yields_def)

lemma yields_Inl: "yields I N m Q \<Longrightarrow> I s \<Longrightarrow> m s = Inl e \<Longrightarrow> e \<notin> N"
  by (drule (1) yieldsD) simp

lemma yields_Inr: "yields I N m Q \<Longrightarrow> I s \<Longrightarrow> m s = Inr (x, s') \<Longrightarrow> I s' \<and> Q x"
  by (drule (1) yieldsD) simp

section \<open>Rules\<close>

lemma yields_weaken: "yields I N m Q \<Longrightarrow> (\<And>x. Q x \<Longrightarrow> P x) \<Longrightarrow> yields I N m P"
  unfolding yields_def by (blast intro: res_in_weaken)

lemma yields_any: "yields I N m Q \<Longrightarrow> yields I N m (\<lambda>_. True)"
  by (erule yields_weaken) simp

lemma yields_ret: "Q x \<Longrightarrow> yields I N (ret x) Q"
  by (simp add: yields_def)

lemma yields_raise: "e \<notin> N \<Longrightarrow> yields I N (raise e) Q"
  by (simp add: yields_def)

lemma yields_unfolded: "Q x \<Longrightarrow> yields I N (\<lambda>s. Inr (x, s)) Q" "e \<notin> N \<Longrightarrow> yields I N (\<lambda>s. Inl e) Q"
  by (simp_all add: yields_def)

lemma yields_sbind: "yields I N m Q \<Longrightarrow> (\<And>x. Q x \<Longrightarrow> yields I N (f x) P) \<Longrightarrow> yields I N (sbind m f) P"
proof (rule yieldsI)
  fix s assume m: "yields I N m Q" and f: "\<And>x. Q x \<Longrightarrow> yields I N (f x) P" and s: "I s"
  show "res_in N (sbind m f s) (\<lambda>(x, s'). I s' \<and> P x)"
  proof (cases "m s")
    case (Inl e)
    with yields_Inl [OF m s] show ?thesis by (simp add: sbind_def)
  next
    case (Inr r)
    obtain x s' where "r = (x, s')" by force
    with Inr yields_Inr [OF m s, of x s'] have "I s'" "Q x" "m s = Inr (x, s')" by auto
    with yieldsD [OF f] show ?thesis by (simp add: sbind_def)
  qed
qed

lemma yields_sbind_prod: "yields I N m (\<lambda>(x, y). Q x y) \<Longrightarrow> (\<And>x y. Q x y \<Longrightarrow> yields I N (f x y) P) \<Longrightarrow>
    yields I N (sbind m (\<lambda>(x, y). f x y)) P"
  by (erule yields_sbind) auto

lemma yields_andthen: "yields I N m (\<lambda>_. True) \<Longrightarrow> yields I N k P \<Longrightarrow> yields I N (andthen m k) P"
  unfolding andthen_def by (rule yields_sbind)

lemma yields_gets: "(\<And>s. I s \<Longrightarrow> Q (f s)) \<Longrightarrow> yields I N (gets f) Q"
  by (simp add: yields_def)

lemma yields_modify: "(\<And>s. I s \<Longrightarrow> I (f s)) \<Longrightarrow> yields I N (modify f) (\<lambda>_. True)"
  by (simp add: yields_def)

lemma yields_lift: "res_in N r Q \<Longrightarrow> yields I N (lift r) Q"
  by (cases r) (simp_all add: yields_def)

lemma yields_if: "(b \<Longrightarrow> yields I N m Q) \<Longrightarrow> (\<not> b \<Longrightarrow> yields I N k Q) \<Longrightarrow> yields I N (if b then m else k) Q"
  by simp

lemma yields_option: "(y = None \<Longrightarrow> yields I N m Q) \<Longrightarrow> (\<And>x. y = Some x \<Longrightarrow> yields I N (f x) Q) \<Longrightarrow>
    yields I N (case y of None \<Rightarrow> m | Some x \<Rightarrow> f x) Q"
  by (simp split: option.split)

lemma yields_prod: "(\<And>x y. p = (x, y) \<Longrightarrow> yields I N (f x y) Q) \<Longrightarrow> yields I N (case p of (x, y) \<Rightarrow> f x y) Q"
  by (simp split: prod.split)

lemma yields_forM: "(\<And>x. x \<in> set xs \<Longrightarrow> yields I N (f x) (\<lambda>_. True)) \<Longrightarrow> yields I N (forM xs f) (\<lambda>_. True)"
  by (induction xs) (auto intro: yields_sbind yields_ret)

lemma yields_foldM:
  "Q acc \<Longrightarrow> (\<And>acc x. Q acc \<Longrightarrow> x \<in> set xs \<Longrightarrow> yields I N (f acc x) Q) \<Longrightarrow> yields I N (foldM f acc xs) Q"
proof (induction xs arbitrary: acc)
  case (Cons x xs)
  have "yields I N (f acc x) Q" using Cons.prems by simp
  then show ?case unfolding foldM.simps
    by (rule yields_sbind) (rule Cons.IH, assumption, use Cons.prems(2) in simp)
qed (simp add: yields_ret)

lemma yields_allM: "(\<And>x. x \<in> set xs \<Longrightarrow> yields I N (f x) (\<lambda>_. True)) \<Longrightarrow> yields I N (allM f xs) (\<lambda>_. True)"
proof (induction xs)
  case (Cons x xs)
  then have "yields I N (f x) (\<lambda>_. True)" "yields I N (allM f xs) (\<lambda>_. True)" by simp_all
  then show ?case unfolding allM.simps by (intro yields_sbind [of I N "f x"] yields_if yields_ret) auto
qed (simp add: yields_ret)

lemma yields_need: "e \<notin> N \<Longrightarrow> (\<And>y. x = Some y \<Longrightarrow> Q y) \<Longrightarrow> res_in N (need e x) Q"
  by (cases x) simp_all

end
