(* ===== verification/Origins.thy ===== *)
theory Origins
  imports DefineProps Outcomes
begin

text \<open>
  Where the objects of the resolver come from, and what the recursions over types follow.  An
  object under a key was made for an entry with that key (\<open>origin\<close>), and all the code learns of it
  later is fixed by that entry; \<open>objs_ok\<close> says so of every object of a state.  \<open>needs\<close> lists, for
  every recursive computation, the computations it may start on other types.  With a rank that
  falls along \<open>needs\<close> as a bound for the fuel, none of the methods of \<open>TypeObjs\<close> runs out of fuel;
  and none of them fails an assertion, whatever the fuel.
\<close>

section \<open>Objects and their entries\<close>

definition def_die :: "env \<Rightarrow> nat \<Rightarrow> nat" where
  "def_die E d = (if \<not> DW_AT_declaration (e_dw E d) then d
     else case find_first (e_find E) d of Some f \<Rightarrow> f | None \<Rightarrow> d)"

definition origin :: "env \<Rightarrow> key \<Rightarrow> nat \<Rightarrow> tkind \<Rightarrow> bool" where
  "origin E k i kd = (\<exists>d. key_of E d = k
     \<and> ((\<exists>m. external_module E d = Some m \<and> kd = KExternal m \<and> i = d)
        \<or> known_entry (e_dw E) d = Inr (i, kd)))"

text \<open>What is known of the entry that defines the type under a key.\<close>

definition entry_of :: "env \<Rightarrow> key \<Rightarrow> nat \<Rightarrow> bool" where
  "entry_of E k f = (\<exists>i kd. origin E k i kd \<and> f = def_die E i)"

lemma known_entry_simps:
  "typeFromTag (dtag (dw d)) = Some kd \<Longrightarrow> known_entry dw d = Inr (d, kd)"
  "typeFromTag (dtag (dw d)) = None \<Longrightarrow> known_entry dw d =
    (case DW_AT_type (dw d) of None \<Rightarrow> Inl AttributeError | Some t \<Rightarrow> known_entry dw t)"
proof -
  show "known_entry dw d = Inr (d, kd)" if "typeFromTag (dtag (dw d)) = Some kd"
    using that by (simp add: known_entry_def unknown_tag_def run_while_unfold [of "unknown_tag dw" _ "Some d"])
  have none: "run_while (unknown_tag dw) (next_type dw) None = Inr None"
    by (simp add: unknown_tag_def run_while_unfold [of "unknown_tag dw" _ None])
  assume t: "typeFromTag (dtag (dw d)) = None"
  then have "run_while (unknown_tag dw) (next_type dw) (Some d)
      = run_while (unknown_tag dw) (next_type dw) (DW_AT_type (dw d))"
    by (subst run_while_unfold) (simp add: unknown_tag_def next_type_def)
  then show "known_entry dw d = (case DW_AT_type (dw d) of None \<Rightarrow> Inl AttributeError | Some t \<Rightarrow> known_entry dw t)"
    by (simp add: known_entry_def none split: option.split)
qed

text \<open>The entries among the children that \<open>findMembers\<close> makes members of.\<close>

definition member_dies :: "env \<Rightarrow> nat \<Rightarrow> nat list" where
  "member_dies E f = filter (\<lambda>c. \<not> DW_AT_external (e_dw E c)
     \<and> (dtag (e_dw E c) = DW_TAG_inheritance \<or> dtag (e_dw E c) = DW_TAG_member)) (children (e_dw E f))"

definition member_of :: "env \<Rightarrow> key \<Rightarrow> nat \<Rightarrow> bool" where
  "member_of E k d = (\<exists>f. entry_of E k f \<and> d \<in> set (member_dies E f))"

definition obj_ok :: "env \<Rightarrow> key \<Rightarrow> tobj \<Rightarrow> bool" where
  "obj_ok E k ob = (origin E k (ob_die ob) (ob_kind ob)
     \<and> (\<forall>f. ob_defdie ob = Some f \<longrightarrow> entry_of E k f)
     \<and> (\<forall>m\<in>set (ob_members ob). member_of E k (m_die m))
     \<and> (ob_alignment ob = 0 \<or> ob_alignment ob \<in> set alignments)
     \<and> (ob_kind ob = KArray \<longrightarrow> (\<exists>f. entry_of E k f \<and> ob_dimensions ob = getArrayDimensions (e_dw E) f)))"

text \<open>\<open>D\<close> is a condition on the types still to define and the hints still to apply.\<close>

type_synonym todo = "key list \<Rightarrow> (tref \<times> pytype) list \<Rightarrow> bool"

definition objs_ok :: "env \<Rightarrow> todo \<Rightarrow> rstate \<Rightarrow> bool" where
  "objs_ok E D s = ((\<forall>k ob. heap s k = Some ob \<longrightarrow> obj_ok E k ob) \<and> D (defineTypes s) (applyHints s))"

definition same_todo :: "rstate \<Rightarrow> rstate \<Rightarrow> bool" where
  "same_todo s s' = (defineTypes s' = defineTypes s \<and> applyHints s' = applyHints s)"

lemma objs_okD: "objs_ok E D s \<Longrightarrow> heap s k = Some ob \<Longrightarrow> obj_ok E k ob"
  by (simp add: objs_ok_def)

lemma ok_origin: "obj_ok E k ob \<Longrightarrow> origin E k (ob_die ob) (ob_kind ob)"
  by (simp add: obj_ok_def)

lemma objs_ok_heap: "objs_ok E D s \<Longrightarrow> heap s' = heap s \<Longrightarrow> same_todo s s' \<Longrightarrow> objs_ok E D s'"
  by (simp add: objs_ok_def same_todo_def)

lemma objs_ok_upd:
  "objs_ok E D s \<Longrightarrow> obj_ok E k ob \<Longrightarrow> heap s' = (heap s)(k \<mapsto> ob) \<Longrightarrow> same_todo s s' \<Longrightarrow> objs_ok E D s'"
  by (simp add: objs_ok_def same_todo_def)

lemma new_obj_ok: "origin E k i kd \<Longrightarrow> kd \<noteq> KArray \<Longrightarrow> obj_ok E k (new_obj E i kd)"
  by (simp add: obj_ok_def new_obj_def)

section \<open>What a computation needs\<close>

datatype op = Declaring | Defining | Naming | Aligning

datatype job = Op op key | Find nat | Follow nat | Empty nat | Walk nat

text \<open>What is done to the base type, and to the type itself, by kind.\<close>

definition quals :: "tkind list" where "quals = [KConst, KVolatile, KRestrict]"

definition funcs :: "tkind list" where "funcs = [KFunction, KFunctionDef]"

fun passes :: "op \<Rightarrow> tkind \<Rightarrow> op list" where
  "passes Declaring kd = (if kd = KTypedef then [Declaring, Naming]
     else if kd = KPointer \<or> List.member quals kd then [Declaring] else [])"
| "passes Defining kd = (if kd = KPointer then [Declaring] else if kd = KTypedef then [Declaring, Defining]
     else if is_member_kind kd then [] else [Defining])"
| "passes Naming kd = (if kd = KArray \<or> kd = KPointer \<or> List.member quals kd \<or> List.member funcs kd
     then [Naming] else [])"
| "passes Aligning kd = (if kd = KPointer \<or> kd = KPrim \<or> is_member_kind kd then [] else [Aligning])"

fun again :: "op \<Rightarrow> tkind \<Rightarrow> op list" where
  "again Declaring kd = (if is_member_kind kd \<or> kd = KTypedef \<or> kd = KPointer \<or> List.member quals kd
     then [] else [Defining])"
| "again Defining kd = (if is_member_kind kd \<or> kd = KTypedef then [Declaring] else [])"
| "again _ kd = []"

inductive needs :: "env \<Rightarrow> job \<Rightarrow> job \<Rightarrow> bool" for E :: env where
  needs_type: "DW_AT_type (e_dw E d) = Some t \<Longrightarrow> needs E (Follow d) (Follow t)"
| needs_typedef: "known_entry (e_dw E) d = Inr (i, KTypedef) \<Longrightarrow> DW_AT_type (e_dw E (def_die E i)) = Some t \<Longrightarrow>
    needs E (Find d) (Find t)"
| needs_base: "origin E k i kd \<Longrightarrow> DW_AT_type (e_dw E (def_die E i)) = Some b \<Longrightarrow> needs E (Op x k) (Find b)"
| needs_pass: "origin E k i kd \<Longrightarrow> origin E k i' kd' \<Longrightarrow> DW_AT_type (e_dw E (def_die E i)) = Some b \<Longrightarrow>
    List.member (passes x kd') y \<Longrightarrow> needs E (Op x k) (Op y (key_of E b))"
| needs_again: "origin E k i kd \<Longrightarrow> List.member (again x kd) y \<Longrightarrow> needs E (Op x k) (Op y k)"
| needs_param: "origin E k i kd' \<Longrightarrow> origin E k i' kd \<Longrightarrow> List.member funcs kd \<Longrightarrow> p \<in> set (params E i) \<Longrightarrow>
    DW_AT_type (e_dw E p) = Some t \<Longrightarrow> x = Defining \<or> x = Naming \<Longrightarrow> j = Find t \<or> j = Op x (key_of E t) \<Longrightarrow>
    needs E (Op x k) j"
| needs_member: "member_of E k m \<Longrightarrow> j = Empty m \<or> j = Follow m \<Longrightarrow> needs E (Op Defining k) j"
| needs_field: "member_of E k m \<Longrightarrow> DW_AT_type (e_dw E m) = Some t \<Longrightarrow>
    List.member [Defining, Naming, Aligning] y \<Longrightarrow> j = Find t \<or> j = Op y (key_of E t) \<Longrightarrow>
    needs E (Op Defining k) j"
| needs_super: "dtag (e_dw E m) = DW_TAG_inheritance \<Longrightarrow> DW_AT_type (e_dw E m) = Some t \<Longrightarrow>
    needs E (Empty m) (Find t)"
| needs_super_typedef: "dtag (e_dw E m) = DW_TAG_inheritance \<Longrightarrow> DW_AT_type (e_dw E m) = Some t \<Longrightarrow>
    origin E (key_of E t) i KTypedef \<Longrightarrow> DW_AT_type (e_dw E i) = Some u \<Longrightarrow> needs E (Empty m) (Find u)"
| needs_super_members: "dtag (e_dw E m) = DW_TAG_inheritance \<Longrightarrow> DW_AT_type (e_dw E m) = Some t \<Longrightarrow>
    member_of E (key_of E t) m' \<Longrightarrow> needs E (Empty m) (Empty m')"
| needs_entry: "needs E (Walk d) (Find d)"
| needs_child: "c \<in> set (children (e_dw E d)) \<Longrightarrow> needs E (Walk d) (Walk c)"

text \<open>The storage unit of a bit field is not empty: the padding loop moves on.\<close>

definition storage_ok :: "env \<Rightarrow> bool" where
  "storage_ok E = (\<forall>d n z. DW_AT_bit_size (e_dw E d) \<noteq> None \<longrightarrow> die_size n (e_psz E) (e_dw E) (Some d) = Inr z \<longrightarrow> 0 < z)"

definition graded :: "env \<Rightarrow> (job \<Rightarrow> nat) \<Rightarrow> bool" where
  "graded E rank = (\<forall>a b. needs E a b \<longrightarrow> rank b < rank a)"

text \<open>The exceptions to be excluded, and under what conditions they are.\<close>

definition limits :: "env \<Rightarrow> todo \<Rightarrow> pyexn set \<Rightarrow> (job \<Rightarrow> nat) \<Rightarrow> bool" where
  "limits E D N rank = (N \<subseteq> {NonTermination, AssertionError} \<and> (e_psz E = 4 \<or> e_psz E = 8)
     \<and> (NonTermination \<in> N \<longrightarrow> graded E rank \<and> storage_ok E)
     \<and> (e_deepInspect E \<longrightarrow> (\<forall>ks hs k. D ks hs \<longrightarrow> D (ks @ [k]) hs)))"

definition enough :: "pyexn set \<Rightarrow> (job \<Rightarrow> nat) \<Rightarrow> job \<Rightarrow> nat \<Rightarrow> bool" where
  "enough N rank j n = (NonTermination \<in> N \<longrightarrow> rank j + 2 \<le> n)"

lemma limits_exn [simp]: "limits E D N rank \<Longrightarrow> TypeError \<notin> N" "limits E D N rank \<Longrightarrow> AttributeError \<notin> N"
  "limits E D N rank \<Longrightarrow> PyException t \<notin> N"
  by (auto simp: limits_def)

lemma enough_step: "limits E D N rank \<Longrightarrow> enough N rank a (Suc n) \<Longrightarrow> needs E a b \<Longrightarrow> enough N rank b n"
  by (fastforce simp: limits_def enough_def graded_def)

lemma enough_down: "limits E D N rank \<Longrightarrow> enough N rank a n \<Longrightarrow> needs E a b \<Longrightarrow> enough N rank b n"
  by (fastforce simp: limits_def enough_def graded_def)

lemma enough_0: "enough N rank a 0 \<Longrightarrow> NonTermination \<notin> N"
  by (simp add: enough_def)

section \<open>Entries\<close>

lemma follow_while:
  assumes "limits E D N rank" and "\<not> b None"
  shows "res_in N (run_while b (next_type (e_dw E)) d) (\<lambda>_. True)"
proof (cases "NonTermination \<in> N")
  case True
  then have g: "graded E rank" using assms(1) by (simp add: limits_def)
  have "\<exists>r. run_while b (next_type (e_dw E)) d = Inr r"
  proof (rule run_while_measure [where P = "\<lambda>_. True" and f = "\<lambda>d. case d of None \<Rightarrow> 0 | Some i \<Rightarrow> Suc (rank (Follow i))"])
    fix s assume s: "b s"
    then obtain i where i: "s = Some i" using assms(2) by (cases s) auto
    have "DW_AT_type (e_dw E i) = Some t \<Longrightarrow> rank (Follow t) < rank (Follow i)" for t
      using g by (auto simp: graded_def intro: needs.intros)
    with i show "True \<and> (case next_type (e_dw E) s of None \<Rightarrow> 0 | Some i \<Rightarrow> Suc (rank (Follow i)))
      < (case s of None \<Rightarrow> 0 | Some i \<Rightarrow> Suc (rank (Follow i)))"
      by (auto simp: next_type_def split: option.split)
  qed simp
  then show ?thesis by auto
next
  case False
  then show ?thesis
    by (cases "run_while b (next_type (e_dw E)) d") (auto dest: run_while_Inl)
qed

lemma isVoid_in: "limits E D N rank \<Longrightarrow> res_in N (isVoid (e_dw E) d) (\<lambda>_. True)"
  unfolding isVoid_def deref_def by (rule res_in_bnd, erule follow_while) (simp_all add: is_qualified_def)

lemma known_entry_in:
  "limits E D N rank \<Longrightarrow> res_in N (known_entry (e_dw E) d) (\<lambda>(i, kd). known_entry (e_dw E) d = Inr (i, kd))"
proof -
  assume l: "limits E D N rank"
  have "res_in N (known_entry (e_dw E) d) (\<lambda>_. True)"
    unfolding known_entry_def
    by (rule res_in_bnd [OF follow_while [OF l]], simp add: unknown_tag_def)
      (intro res_in_bnd yields_need limits_exn [OF l], simp_all)
  then show ?thesis by (cases "known_entry (e_dw E) d") auto
qed

lemma baseTypeAlignment_in:
  assumes l: "limits E D N rank"
  shows "res_in N (baseTypeAlignment (e_psz E) (e_dw E) d) (\<lambda>a. a \<in> set alignments)"
proof -
  have "res_in N (alignmentFromEncoding (e_psz E) (e_dw E) d) (\<lambda>_. True)"
    unfolding alignmentFromEncoding_def Let_def
    by (rule res_in_bnd [OF follow_while [OF l]], simp add: no_encoding_def)
      (auto intro!: res_in_bnd yields_need limits_exn [OF l] split: option.split)
  then have "res_in N (baseTypeAlignment (e_psz E) (e_dw E) d) (\<lambda>_. True)"
    unfolding baseTypeAlignment_def
    by (auto intro!: yields_need limits_exn [OF l] split: option.split)
  then show ?thesis
    by (cases "baseTypeAlignment (e_psz E) (e_dw E) d") (auto intro: baseTypeAlignment_ok)
qed

lemma die_size_in:
  "limits E D N rank \<Longrightarrow> enough N rank (Follow d) n \<Longrightarrow> res_in N (die_size n (e_psz E) (e_dw E) (Some d)) (\<lambda>_. True)"
proof (induction n arbitrary: d)
  case 0
  then show ?case using enough_0 by auto
next
  case (Suc n)
  show ?case
  proof (cases "DW_AT_type (e_dw E d)")
    case None
    have "enough N rank (Follow d) (Suc n) \<Longrightarrow> res_in N (die_size n (e_psz E) (e_dw E) None) (\<lambda>_. True)"
      by (cases n) (auto simp: enough_def)
    with None Suc.prems(2) show ?thesis by (auto split: option.split intro: res_in_bnd)
  next
    case (Some t)
    then have "enough N rank (Follow t) n"
      using enough_step [OF Suc.prems] needs_type by blast
    then have "res_in N (die_size n (e_psz E) (e_dw E) (Some t)) (\<lambda>_. True)" by (rule Suc.IH [OF Suc.prems(1)])
    with Some show ?thesis by (auto split: option.split intro: res_in_bnd)
  qed
qed

section \<open>Objects\<close>

text \<open>The judgement for the resolver: the objects keep their origins.\<close>

abbreviation (input) goes :: "env \<Rightarrow> todo \<Rightarrow> pyexn set \<Rightarrow> 'a rcomp \<Rightarrow> ('a \<Rightarrow> bool) \<Rightarrow> bool" where
  "goes E D N m Q \<equiv> yields (objs_ok E D) N m Q"

lemma goes_getobj: "limits E D N rank \<Longrightarrow> goes E D N (getobj k) (obj_ok E k)"
proof (rule yieldsI)
  fix s assume "limits E D N rank" "objs_ok E D s"
  then show "res_in N (getobj k s) (\<lambda>(ob, s'). objs_ok E D s' \<and> obj_ok E k ob)"
    by (cases "heap s k") (auto simp: getobj_def dest: objs_okD)
qed

lemma goes_updobj:
  assumes "limits E D N rank" and "\<And>ob. obj_ok E k ob \<Longrightarrow> obj_ok E k (f ob)"
  shows "goes E D N (updobj k f) (\<lambda>_. True)"
proof (rule yieldsI)
  fix s assume s: "objs_ok E D s"
  then show "res_in N (updobj k f s) (\<lambda>(_, s'). objs_ok E D s' \<and> True)"
    using assms objs_ok_upd [OF s, of k "f ob" "s\<lparr>heap := (heap s)(k \<mapsto> f ob)\<rparr>" for ob]
    by (cases "heap s k") (auto simp: updobj_def getobj_def sbind_def same_todo_def dest: objs_okD)
qed

lemma goes_modify: "(\<And>s. heap (f s) = heap s \<and> same_todo s (f s)) \<Longrightarrow> goes E D N (modify f) (\<lambda>_. True)"
  by (auto intro!: yields_modify elim: objs_ok_heap)

lemma goes_errorfunc: "goes E D N (errorfunc e) (\<lambda>_. True)"
  unfolding errorfunc_def by (rule goes_modify) (simp add: same_todo_def)

lemma goes_write: "goes E D N (write_stmt k x) (\<lambda>_. True)"
  unfolding write_stmt_def by (rule goes_modify) (simp add: same_todo_def)

lemma goes_add_defined: "goes E D N (add_defined nm) (\<lambda>_. True)"
  unfolding add_defined_def by (rule goes_modify) (simp add: same_todo_def)

lemma goes_add_defineTypes: "limits E D N rank \<Longrightarrow> e_deepInspect E \<Longrightarrow> goes E D N (add_defineTypes k) (\<lambda>_. True)"
  unfolding add_defineTypes_def by (rule yields_modify) (auto simp: objs_ok_def limits_def)

lemma goes_install: "obj_ok E k ob \<Longrightarrow> goes E D N (install k ob) (\<lambda>_. True)"
  unfolding install_def by (auto simp: same_todo_def intro!: yields_modify elim: objs_ok_upd)

lemma goes_resolve: "goes E D N (resolve_definition E ob) (\<lambda>f. ob_defdie ob = Some f \<or> f = def_die E (ob_die ob))"
proof (cases "ob_defdie ob")
  case None
  show ?thesis
    unfolding resolve_definition_def None option.case Let_def def_die_def
    by (intro yields_if yields_option yields_andthen goes_errorfunc yields_ret) simp_all
next
  case (Some f)
  then show ?thesis by (simp add: resolve_definition_def yields_ret)
qed

lemma goes_definition_of:
  assumes "limits E D N rank"
  shows "goes E D N (definition_of E k) (entry_of E k)"
proof (rule yieldsI)
  fix s assume s: "objs_ok E D s"
  show "res_in N (definition_of E k s) (\<lambda>(f, s'). objs_ok E D s' \<and> entry_of E k f)"
  proof (cases "heap s k")
    case None
    with assms show ?thesis by (simp add: definition_of_def sbind_def getobj_def)
  next
    case (Some ob)
    then have ok: "obj_ok E k ob" using s by (rule objs_okD [rotated])
    have r: "goes E D N (resolve_definition E ob) (entry_of E k)"
      by (rule yields_weaken [OF goes_resolve]) (use ok in \<open>auto simp: obj_ok_def entry_of_def\<close>)
    show ?thesis
    proof (cases "resolve_definition E ob s")
      case (Inl e)
      with Some yields_Inl [OF r s] show ?thesis by (simp add: definition_of_def sbind_def getobj_def)
    next
      case (Inr fs)
      obtain f s1 where fs: "fs = (f, s1)" by force
      from yields_Inr [OF r s] Inr fs have f: "entry_of E k f" by blast
      have "discovers s s1" using keepsD [OF disc_resolve] Inr fs by blast
      with Some have s1: "heap s1 k = Some ob" "objs_ok E D s1"
        using yields_Inr [OF r s] Inr fs by (auto simp: discovers_def)
      have "obj_ok E k (ob\<lparr>ob_defdie := Some f\<rparr>)" using ok f by (simp add: obj_ok_def)
      with f show ?thesis
        using Some Inr fs s1
        by (auto simp: definition_of_def sbind_def getobj_def updobj_def andthen_def same_todo_def intro: objs_ok_upd)
    qed
  qed
qed

definition ref_of :: "env \<Rightarrow> nat option \<Rightarrow> tref" where
  "ref_of E d = (case d of None \<Rightarrow> VoidType | Some i \<Rightarrow> Obj (key_of E i))"

lemma ref_of_simps [simp]: "ref_of E None = VoidType" "ref_of E (Some i) = Obj (key_of E i)"
  by (simp_all add: ref_of_def)

lemma goes_dieToType:
  "limits E D N rank \<Longrightarrow> (\<And>i. d = Some i \<Longrightarrow> enough N rank (Find i) n) \<Longrightarrow>
   goes E D N (dieToType E n d) (\<lambda>t. t = ref_of E d)"
proof (induction n arbitrary: d)
  case 0
  then have "NonTermination \<notin> N" if "d = Some i" for i using that enough_0 by blast
  then show ?case
    by (cases d) (simp_all only: dieToType.simps ref_of_simps, simp_all add: yields_def)
next
  case (Suc n)
  show ?case
  proof (cases d)
    case None
    then show ?thesis by (simp add: yields_def)
  next
    case (Some i)
    let ?k = "key_of E i"
    have ext: "external_module E i = Some m \<Longrightarrow> origin E ?k i (KExternal m)" for m
      unfolding origin_def by blast
    have known: "known_entry (e_dw E) i = Inr (j, kd) \<Longrightarrow> origin E ?k j kd" for j kd
      unfolding origin_def by blast
    have td: "goes E D N (dieToType E n (DW_AT_type (e_dw E (def_die E j)))) (\<lambda>_. True)"
      if "known_entry (e_dw E) i = Inr (j, KTypedef)" for j
      by (rule yields_any, rule Suc.IH [OF Suc.prems(1)])
        (rule enough_step [OF Suc.prems(1) Suc.prems(2) [OF Some]], rule needs_typedef [OF that])
    have fresh: "goes E D N (resolve_definition E (new_obj E j kd)) (\<lambda>f. f = def_die E j)" for j kd
      using goes_resolve [of E D N "new_obj E j kd"] by (simp add: new_obj_def)
    have r: "goes E D N (lift (known_entry (e_dw E) i)) (\<lambda>(j, kd). known_entry (e_dw E) i = Inr (j, kd))"
      by (rule yields_lift [OF known_entry_in [OF Suc.prems(1)]])
    have new: "goes E D N (let ob = new_obj E j kd in
              if kd = KTypedef then
                sbind (resolve_definition E ob) (\<lambda>f.
                andthen (dieToType E n (DW_AT_type (e_dw E f)))
                (andthen (install ?k (ob\<lparr>ob_defdie := Some f\<rparr>)) (ret (Obj ?k))))
              else if kd = KArray then
                sbind (resolve_definition E ob) (\<lambda>f.
                andthen (install ?k (ob\<lparr>ob_defdie := Some f, ob_dimensions := getArrayDimensions (e_dw E) f\<rparr>)) (ret (Obj ?k)))
              else andthen (install ?k ob) (ret (Obj ?k))) (\<lambda>t. t = Obj ?k)"
      if j: "known_entry (e_dw E) i = Inr (j, kd)" for j kd
    proof -
      have ok: "kd \<noteq> KArray \<Longrightarrow> obj_ok E ?k (new_obj E j kd)" using known [OF j] by (rule new_obj_ok)
      have ok2: "f = def_die E j \<Longrightarrow> obj_ok E ?k ((new_obj E j kd)\<lparr>ob_defdie := Some f, ob_dimensions := getArrayDimensions (e_dw E) f\<rparr>)"
        "f = def_die E j \<Longrightarrow> kd \<noteq> KArray \<Longrightarrow> obj_ok E ?k ((new_obj E j kd)\<lparr>ob_defdie := Some f\<rparr>)" for f
        using known [OF j] by (auto simp: obj_ok_def new_obj_def entry_of_def alignments_def)
      show ?thesis
        unfolding Let_def
        by (intro yields_if yields_sbind [OF fresh] yields_andthen goes_install yields_ret refl ok ok2)
          (use j td in auto)
    qed
    show ?thesis
      unfolding Some dieToType.simps Let_def ref_of_simps
      by (intro yields_sbind [OF yields_gets, of _ "\<lambda>_. True"] TrueI yields_option
          yields_andthen goes_install new_obj_ok ext yields_ret refl yields_sbind [OF r])
        (use new [unfolded Let_def] in \<open>auto simp: split_beta\<close>)
  qed
qed

text \<open>The base type of the type under a key, and the fuel left for a reference to a type.\<close>

definition base_ref :: "env \<Rightarrow> key \<Rightarrow> tref option \<Rightarrow> bool" where
  "base_ref E k t = (\<exists>f. entry_of E k f \<and> t = map_option (\<lambda>b. Obj (key_of E b)) (DW_AT_type (e_dw E f)))"

lemma base_ref_Some: "base_ref E k (Some t) \<longleftrightarrow>
    (\<exists>f d. entry_of E k f \<and> DW_AT_type (e_dw E f) = Some d \<and> t = Obj (key_of E d))"
proof
  assume "base_ref E k (Some t)"
  then obtain f where "entry_of E k f" "Some t = map_option (\<lambda>b. Obj (key_of E b)) (DW_AT_type (e_dw E f))"
    by (auto simp: base_ref_def)
  then show "\<exists>f d. entry_of E k f \<and> DW_AT_type (e_dw E f) = Some d \<and> t = Obj (key_of E d)"
    by (cases "DW_AT_type (e_dw E f)") auto
qed (fastforce simp: base_ref_def)

definition enough_ref :: "pyexn set \<Rightarrow> (job \<Rightarrow> nat) \<Rightarrow> op \<Rightarrow> tref \<Rightarrow> nat \<Rightarrow> bool" where
  "enough_ref N rank x t n = (case t of VoidType \<Rightarrow> NonTermination \<in> N \<longrightarrow> 1 \<le> n | Obj k \<Rightarrow> enough N rank (Op x k) n)"

lemma enough_ref_simps [simp]:
  "enough_ref N rank x (Obj k) n = enough N rank (Op x k) n"
  "enough_ref N rank x VoidType n = (NonTermination \<in> N \<longrightarrow> 1 \<le> n)"
  by (simp_all add: enough_ref_def)

lemma enough_pos: "enough N rank j (Suc n) \<Longrightarrow> NonTermination \<in> N \<Longrightarrow> 1 \<le> n"
  by (simp add: enough_def)

lemma goes_baseType:
  assumes l: "limits E D N rank" and n: "enough N rank (Op x k) (Suc n)"
  shows "goes E D N (baseType E n k) (base_ref E k)"
  unfolding baseType_def
proof (rule yields_sbind [OF goes_definition_of [OF l]])
  fix f assume f: "entry_of E k f"
  show "goes E D N (case DW_AT_type (e_dw E f) of None \<Rightarrow> ret None
      | Some b \<Rightarrow> sbind (dieToType E n (Some b)) (\<lambda>t. ret (Some t))) (base_ref E k)"
  proof (intro yields_option)
    assume "DW_AT_type (e_dw E f) = None"
    with f show "goes E D N (ret None) (base_ref E k)" by (auto intro!: yields_ret exI [of _ f] simp: base_ref_def)
  next
    fix b assume b: "DW_AT_type (e_dw E f) = Some b"
    from f obtain i kd where i: "origin E k i kd" "f = def_die E i" by (auto simp: entry_of_def)
    with b have "enough N rank (Find b) n" using enough_step [OF l n] needs_base by blast
    then have t: "goes E D N (dieToType E n (Some b)) (\<lambda>t. t = Obj (key_of E b))"
      using goes_dieToType [OF l, of "Some b" n] by simp
    show "goes E D N (sbind (dieToType E n (Some b)) (\<lambda>t. ret (Some t))) (base_ref E k)"
      by (rule yields_sbind [OF t], rule yields_ret) (use f b in \<open>auto intro!: exI [of _ f] simp: base_ref_def\<close>)
  qed
qed

lemma goes_theBase:
  assumes l: "limits E D N rank" and n: "enough N rank (Op x k) (Suc n)"
  shows "goes E D N (theBase E n k) (\<lambda>t. base_ref E k (Some t))"
  unfolding theBase_def
  by (rule yields_sbind [OF goes_baseType [OF l n]], rule yields_lift, rule yields_need)
    (use l in simp_all)

lemma base_enough:
  assumes l: "limits E D N rank" and n: "enough N rank (Op x k) (Suc n)" and b: "base_ref E k (Some t)"
    and o: "origin E k i kd" and y: "List.member (passes x kd) y"
  shows "enough_ref N rank y t n"
proof -
  from b obtain f d where f: "entry_of E k f" "DW_AT_type (e_dw E f) = Some d" "t = Obj (key_of E d)"
    unfolding base_ref_Some by blast
  then obtain j kj where j: "origin E k j kj" "f = def_die E j" by (auto simp: entry_of_def)
  have "needs E (Op x k) (Op y (key_of E d))"
    by (rule needs_pass [OF j(1) o _ y]) (use f j in simp)
  with enough_step [OF l n] f(3) show ?thesis by simp
qed

lemma base_not_void: "base_ref E k (Some t) \<Longrightarrow> \<exists>k'. t = Obj k'"
  by (auto simp: base_ref_Some)

lemma goes_isVoidp: "limits E D N rank \<Longrightarrow> goes E D N (isVoidp E k) (\<lambda>_. True)"
  unfolding isVoidp_def by (rule yields_sbind [OF goes_definition_of], assumption, rule yields_lift, rule isVoid_in)

lemma goes_type_name:
  assumes "limits E D N rank"
  shows "goes E D N (type_name E t w) (\<lambda>_. True)" and "goes E D N (type_pyName E t w) (\<lambda>_. True)"
  unfolding type_name_def type_pyName_def
  by (cases t; simp only: tref.case; intro yields_ret TrueI yields_sbind [OF goes_getobj [OF assms]])+

text \<open>The type of a parameter.\<close>

lemma param_enough:
  assumes l: "limits E D N rank" and n: "enough N rank (Op x k) (Suc n)" and o: "origin E k i kd'"
    and kd: "origin E k i' kd" "List.member funcs kd" and p: "p \<in> set (params E i)" and x: "x = Defining \<or> x = Naming"
  shows "goes E D N (dieToType E n (DW_AT_type (e_dw E p))) (\<lambda>t. enough_ref N rank x t n)"
proof (cases "DW_AT_type (e_dw E p)")
  case None
  have "goes E D N (dieToType E n None) (\<lambda>t. t = ref_of E None)"
    by (rule goes_dieToType [OF l]) simp
  then show ?thesis unfolding None
    by (rule yields_weaken) (use enough_pos [OF n] in simp)
next
  case (Some t)
  then have "enough N rank (Find t) n" and e: "enough N rank (Op x (key_of E t)) n"
    using enough_step [OF l n] needs_param [OF o kd p Some x] by blast+
  then have "goes E D N (dieToType E n (Some t)) (\<lambda>u. u = Obj (key_of E t))"
    using goes_dieToType [OF l, of "Some t" n] by simp
  then show ?thesis unfolding Some by (rule yields_weaken) (use e in simp)
qed

lemma goes_ctype:
  assumes l: "limits E D N rank"
  shows "enough_ref N rank Naming t n \<Longrightarrow> goes E D N (ctype E n t) (\<lambda>_. True)"
proof (induction n arbitrary: t)
  case 0
  then show ?case by (cases t) (auto simp: yields_def dest: enough_0)
next
  case (Suc n)
  show ?case
  proof (cases t)
    case VoidType
    then show ?thesis by (simp add: yields_def)
  next
    case (Obj k)
    with Suc.prems have n: "enough N rank (Op Naming k) (Suc n)" by simp
    note base = goes_theBase [OF l n] goes_baseType [OF l n]
    have sub: "goes E D N (ctype E n u) (\<lambda>_. True)"
      if "base_ref E k (Some u)" "obj_ok E k ob" "List.member (passes Naming (ob_kind ob)) Naming" for u ob
      by (rule Suc.IH, rule base_enough [OF l n that(1) ok_origin [OF that(2)] that(3)])
    have par: "goes E D N (foldM (\<lambda>acc child.
          sbind (dieToType E n (DW_AT_type (e_dw E child))) (\<lambda>t.
          sbind (ctype E n t) (\<lambda>text. ret (acc @ '', '' @ text @ nl @ ''      ''))))
        acc (params E (ob_die ob))) (\<lambda>_. True)"
      if "obj_ok E k ob" "List.member funcs (ob_kind ob)" for ob acc
    proof (rule yields_foldM)
      fix acc child assume "child \<in> set (params E (ob_die ob))"
      then have "goes E D N (dieToType E n (DW_AT_type (e_dw E child))) (\<lambda>t. enough_ref N rank Naming t n)"
        using param_enough [OF l n ok_origin [OF that(1)] ok_origin [OF that(1)] that(2)] by simp
      then show "goes E D N (sbind (dieToType E n (DW_AT_type (e_dw E child))) (\<lambda>t.
          sbind (ctype E n t) (\<lambda>text. ret (acc @ '', '' @ text @ nl @ ''      '')))) (\<lambda>_. True)"
        by (rule yields_sbind) (intro yields_sbind [OF Suc.IH] yields_ret TrueI)
    qed simp
    show ?thesis
      unfolding Obj ctype.simps
    proof (rule yields_sbind [OF goes_getobj [OF l]], intro yields_if)
      fix ob assume ob: "obj_ok E k ob"
      note sub = sub [OF _ ob]
      show "goes E D N (ret (prim_ctype (e_psz E) (e_dw E) (ob_die ob))) (\<lambda>_. True)" by (simp add: yields_ret)
      show "goes E D N (ret (obj_pyName E ob True)) (\<lambda>_. True)" by (simp add: yields_ret)
      note rules = yields_sbind [OF base(1)] yields_sbind [OF base(2)] yields_sbind [OF goes_definition_of [OF l]]
        yields_sbind [OF goes_isVoidp [OF l]] yields_sbind [OF sub] yields_ret TrueI yields_if
        yields_option
      show "goes E D N (ctype_array (ctype E n) E n k ob) (\<lambda>_. True)" if "ob_kind ob = KArray"
        unfolding ctype_array_def by (intro rules, assumption) (simp add: that)
      show "goes E D N (ctype_pointer (ctype E n) E n k) (\<lambda>_. True)" if "ob_kind ob = KPointer"
        unfolding ctype_pointer_def
        by (intro rules yields_sbind [OF yields_lift [OF yields_need, of _ _ _ "\<lambda>_. True"]], assumption)
          (simp_all add: that limits_exn [OF l])
      show "goes E D N (ctype_function (ctype E n) E n k ob) (\<lambda>_. True)"
        if f: "ob_kind ob = KFunction \<or> ob_kind ob = KFunctionDef"
        unfolding ctype_function_def
        by (intro rules yields_sbind [OF par [OF ob]] yields_sbind [OF yields_option, of _ _ _ _ "\<lambda>_. True"] sub)
          (use f in \<open>auto simp: funcs_def\<close>)
      show "goes E D N (ctype_const (ctype E n) E n k) (\<lambda>_. True)" if f: "ob_kind ob = KConst"
        unfolding ctype_const_def
        by (intro rules yields_sbind [OF yields_option, of _ _ _ _ "\<lambda>_. True"] sub)
          (use f in \<open>auto simp: quals_def\<close>)
      show "goes E D N (ctype_volatile (ctype E n) E n k) (\<lambda>_. True)" if "ob_kind ob = KVolatile"
        unfolding ctype_volatile_def by (intro rules, assumption) (simp add: that quals_def)
      show "goes E D N (ctype_restrict (ctype E n) E n k) (\<lambda>_. True)" if "ob_kind ob = KRestrict"
        unfolding ctype_restrict_def by (intro rules, assumption) (simp add: that quals_def)
    qed
  qed
qed

lemma goes_alignment:
  assumes l: "limits E D N rank"
  shows "enough_ref N rank Aligning t n \<Longrightarrow> goes E D N (alignment E n t) (\<lambda>a. a = 0 \<or> a \<in> set alignments)"
proof (induction n arbitrary: t)
  case 0
  then show ?case by (cases t) (auto simp: yields_def dest: enough_0)
next
  case (Suc n)
  show ?case
  proof (cases t)
    case VoidType
    then show ?thesis by (simp add: yields_def limits_exn [OF l])
  next
    case (Obj k)
    with Suc.prems have n: "enough N rank (Op Aligning k) (Suc n)" by simp
    show ?thesis
      unfolding Obj alignment.simps
    proof (rule yields_sbind [OF goes_getobj [OF l]], intro yields_if)
      fix ob assume ob: "obj_ok E k ob"
      show "goes E D N (ret (e_psz E)) (\<lambda>a. a = 0 \<or> a \<in> set alignments)"
        using l by (auto intro!: yields_ret simp: limits_def alignments_def)
      show "goes E D N (lift (baseTypeAlignment (e_psz E) (e_dw E) (ob_die ob))) (\<lambda>a. a = 0 \<or> a \<in> set alignments)"
        by (rule yields_lift, rule res_in_weaken [OF baseTypeAlignment_in [OF l]]) simp
      show "goes E D N (ret (ob_alignment ob)) (\<lambda>a. a = 0 \<or> a \<in> set alignments)"
        using ob by (simp add: yields_ret obj_ok_def)
      assume k: "ob_kind ob \<noteq> KPointer" "ob_kind ob \<noteq> KPrim" "\<not> is_member_kind (ob_kind ob)"
      have "goes E D N (alignment E n u) (\<lambda>a. a = 0 \<or> a \<in> set alignments)" if "base_ref E k (Some u)" for u
        by (rule Suc.IH, rule base_enough [OF l n that ok_origin [OF ob]]) (use k in simp)
      then show "goes E D N (sbind (baseType E n k) (\<lambda>b. case b of None \<Rightarrow> ret 1 | Some b \<Rightarrow> alignment E n b))
          (\<lambda>a. a = 0 \<or> a \<in> set alignments)"
        by (intro yields_sbind [OF goes_baseType [OF l n]] yields_option yields_ret)
          (auto simp: alignments_def)
    qed
  qed
qed

section \<open>Members\<close>

lemma ok_member: "obj_ok E k ob \<Longrightarrow> m \<in> set (ob_members ob) \<Longrightarrow> member_of E k (m_die m)"
  by (simp add: obj_ok_def)

lemma goes_isEmptyBase:
  assumes l: "limits E D N rank"
  shows "enough N rank (Empty (m_die m)) n \<Longrightarrow> goes E D N (isEmptyBase E n m) (\<lambda>_. True)"
proof (induction n arbitrary: m)
  case 0
  then show ?case by (auto simp: yields_def dest: enough_0)
next
  case (Suc n)
  note exn = limits_exn [OF l]
  note step = enough_step [OF l Suc.prems]
  show ?case
    unfolding isEmptyBase.simps
  proof (intro yields_if)
    show "goes E D N (ret False) (\<lambda>_. True)" by (simp add: yields_ret)
  next
    assume inh: "\<not> dtag (e_dw E (m_die m)) \<noteq> DW_TAG_inheritance"
    have "goes E D N (dieToType E n (DW_AT_type (e_dw E (m_die m)))) (\<lambda>t. t = ref_of E (DW_AT_type (e_dw E (m_die m))))"
      by (rule goes_dieToType [OF l], rule step, rule needs_super) (use inh in simp_all)
    then show "goes E D N (sbind (dieToType E n (DW_AT_type (e_dw E (m_die m)))) (\<lambda>t.
        case t of
          VoidType \<Rightarrow> raise AttributeError
        | Obj k \<Rightarrow>
            sbind (getobj k) (\<lambda>ob.
            case ob_kind ob of
              KExternal _ \<Rightarrow> ret False
            | KTypedef \<Rightarrow>
                sbind (dieToType E n (DW_AT_type (e_dw E (ob_die ob)))) (\<lambda>u.
                if u = VoidType then raise AttributeError else ret False)
            | KStruct \<Rightarrow> allM (isEmptyBase E n) (ob_members ob)
            | KUnion \<Rightarrow> allM (isEmptyBase E n) (ob_members ob)
            | _ \<Rightarrow> raise AttributeError))) (\<lambda>_. True)"
    proof (rule yields_sbind)
      fix t assume t: "t = ref_of E (DW_AT_type (e_dw E (m_die m)))"
      show "goes E D N (case t of
          VoidType \<Rightarrow> raise AttributeError
        | Obj k \<Rightarrow>
            sbind (getobj k) (\<lambda>ob.
            case ob_kind ob of
              KExternal _ \<Rightarrow> ret False
            | KTypedef \<Rightarrow>
                sbind (dieToType E n (DW_AT_type (e_dw E (ob_die ob)))) (\<lambda>u.
                if u = VoidType then raise AttributeError else ret False)
            | KStruct \<Rightarrow> allM (isEmptyBase E n) (ob_members ob)
            | KUnion \<Rightarrow> allM (isEmptyBase E n) (ob_members ob)
            | _ \<Rightarrow> raise AttributeError)) (\<lambda>_. True)"
      proof (cases t)
        case VoidType
        then show ?thesis by (simp only: tref.case) (rule yields_raise, rule exn)
      next
        case (Obj k)
        with t obtain d where d: "DW_AT_type (e_dw E (m_die m)) = Some d" "k = key_of E d"
          by (cases "DW_AT_type (e_dw E (m_die m))") auto
        show ?thesis
          unfolding Obj tref.case
        proof (rule yields_sbind [OF goes_getobj [OF l]])
          fix ob assume ob: "obj_ok E k ob"
          have all: "goes E D N (allM (isEmptyBase E n) (ob_members ob)) (\<lambda>_. True)"
          proof (rule yields_allM, rule Suc.IH, rule step)
            fix x assume "x \<in> set (ob_members ob)"
            with needs_super_members [OF _ d(1)] ok_member [OF ob] d(2) inh
            show "needs E (Empty (m_die m)) (Empty (m_die x))" by simp
          qed
          have td: "goes E D N (dieToType E n (DW_AT_type (e_dw E (ob_die ob)))) (\<lambda>_. True)"
            if kd: "ob_kind ob = KTypedef"
            by (rule yields_any, rule goes_dieToType [OF l], rule step, rule needs_super_typedef)
              (use ob inh d kd in \<open>auto dest: ok_origin\<close>)
          show "goes E D N (case ob_kind ob of
              KExternal _ \<Rightarrow> ret False
            | KTypedef \<Rightarrow>
                sbind (dieToType E n (DW_AT_type (e_dw E (ob_die ob)))) (\<lambda>u.
                if u = VoidType then raise AttributeError else ret False)
            | KStruct \<Rightarrow> allM (isEmptyBase E n) (ob_members ob)
            | KUnion \<Rightarrow> allM (isEmptyBase E n) (ob_members ob)
            | _ \<Rightarrow> raise AttributeError) (\<lambda>_. True)"
            using all td exn(2)
            by (cases "ob_kind ob")
              (simp_all add: yields_ret yields_raise is_member_kind_def yields_sbind yields_if del: ret_run raise_run)
        qed
      qed
    qed
  qed
qed

lemma find_member_dies:
  "find_member E nm (ms, c, a, es) field = (ms', c', a', es') \<Longrightarrow>
    m_die ` set ms' \<subseteq> m_die ` set ms \<union> (if \<not> DW_AT_external (e_dw E field)
      \<and> (dtag (e_dw E field) = DW_TAG_inheritance \<or> dtag (e_dw E field) = DW_TAG_member) then {field} else {})"
  by (auto simp: find_member_def Let_def mk_member_def split: if_splits)

lemma find_members_dies:
  "foldl (find_member E nm) (ms, c, a, es) cs = (ms', c', a', es') \<Longrightarrow>
    m_die ` set ms' \<subseteq> m_die ` set ms \<union> set (filter (\<lambda>c. \<not> DW_AT_external (e_dw E c)
      \<and> (dtag (e_dw E c) = DW_TAG_inheritance \<or> dtag (e_dw E c) = DW_TAG_member)) cs)"
proof (induction cs arbitrary: ms c a es)
  case (Cons x cs)
  obtain ms1 c1 a1 es1 where 1: "find_member E nm (ms, c, a, es) x = (ms1, c1, a1, es1)"
    by (metis prod_cases4)
  with Cons.prems have "foldl (find_member E nm) (ms1, c1, a1, es1) cs = (ms', c', a', es')" by simp
  from Cons.IH [OF this] find_member_dies [OF 1] show ?case by (auto split: if_splits)
qed auto

lemma goes_findMembers:
  assumes l: "limits E D N rank"
  shows "goes E D N (findMembers E k) (\<lambda>_. True)"
  unfolding findMembers_def
proof (rule yields_sbind [OF goes_getobj [OF l]], intro yields_if yields_sbind [OF goes_definition_of [OF l]])
  fix ob f assume f: "entry_of E k f"
  obtain ms c a es where r: "foldl (find_member E (obj_name E ob True)) ([], 0, 0, []) (children (e_dw E f)) = (ms, c, a, es)"
    by (metis prod_cases4)
  then have ms: "m_die m \<in> set (member_dies E f)" if "m \<in> set ms" for m
    using find_members_dies [OF r] that by (auto simp: member_dies_def)
  with f have "member_of E k (m_die m)" if "m \<in> set ms" for m
    using that unfolding member_of_def by blast
  then show "goes E D N (case foldl (find_member E (obj_name E ob True)) ([], 0, 0, []) (children (e_dw E f)) of
         (ms, superCount, _, es) \<Rightarrow>
           andthen (updobj k (\<lambda>ob. ob\<lparr>ob_members := ms, ob_superCount := superCount\<rparr>))
           (forM es errorfunc)) (\<lambda>_. True)"
    unfolding r prod.case
    by (intro yields_andthen goes_updobj [OF l] yields_forM goes_errorfunc) (simp add: obj_ok_def)
qed (simp add: yields_ret)

end
