(* ===== verification/Completion.thy ===== *)
theory Completion
  imports Origins BitFields DefineFuel
begin

text \<open>
  How declaring and defining types may end: with the assertion on alignments of
  \<open>MemberType.define\<close> never, and without running out of fuel on graded debug data.  The rules of
  \<open>Origins\<close> are extended to the layout of members and to the methods \<open>declare\<close> and \<open>define\<close>.
\<close>

section \<open>The layout of one member\<close>

lemma raise_alignment_in:
  assumes "a = 0 \<or> a \<in> set alignments" and "salign st \<in> set alignments"
  shows "res_in N (raise_alignment a st) (\<lambda>st. salign st \<in> set alignments)"
proof (cases "a = 0")
  case True
  with assms(2) show ?thesis by (auto simp: raise_alignment_def alignments_def)
next
  case False
  with assms raise_alignment_ok [of a st] show ?thesis by (auto simp: max_def)
qed

lemma field_type_in:
  assumes l: "limits E D N rank" and a: "t_align ti = 0 \<or> t_align ti \<in> set alignments"
  shows "res_in N (field_type (e_dw E) ow m ti nxt) (\<lambda>(a, _). a = 0 \<or> a \<in> set alignments)"
  using a unfolding field_type_def Let_def
  by (auto intro!: res_in_bnd [where Q = "\<lambda>_. True"] yields_need simp: alignments_def limits_exn [OF l] split: option.split)

lemma bit_offset_in:
  assumes l: "limits E D N rank" and n: "enough N rank (Follow d) n"
  shows "res_in N (die_bit_offset n (e_psz E) (e_dw E) d) (\<lambda>_. True)"
  unfolding die_bit_offset_def
  by (auto intro!: res_in_bnd [OF die_size_in [OF l n]] res_in_bnd [where Q = "\<lambda>_. True"] yields_need
      simp: limits_exn [OF l] split: option.split)

lemma bit_loop_in:
  assumes "0 < dsize \<or> off < ee"
  shows "\<exists>r. bit_loop py t off bits dsize (ebo, ee, pads, rs) = Inr r"
proof (cases "0 < dsize")
  case True
  then show ?thesis by (rule bit_loop_returns)
next
  case False
  with assms show ?thesis by (simp add: bit_loop_def run_while_unfold)
qed

lemma bit_field_in:
  assumes "NonTermination \<in> N \<Longrightarrow> 0 < dsize \<or> off < ee"
  shows "res_in N (bit_field py t off bits dsize (ebo, ee, pads, rs)) (\<lambda>_. True)"
proof (cases "NonTermination \<in> N")
  case True
  then obtain r where "bit_loop py t off bits dsize (ebo, ee, pads, rs) = Inr r"
    using assms bit_loop_in by blast
  then show ?thesis by (simp add: bit_field_def Let_def split: prod.split)
next
  case False
  show ?thesis
    unfolding bit_field_def
    by (rule res_in_bnd [where Q = "\<lambda>_. True"])
      (use False in \<open>cases "bit_loop py t off bits dsize (ebo, ee, pads, rs)",
        auto simp: bit_loop_def Let_def dest: run_while_Inl\<close>)
qed

lemma place_field_in:
  assumes l: "limits E D N rank" and n: "enough N rank (Follow (m_die m)) n"
    and a: "salign st \<in> set alignments"
  shows "res_in N (place_field n (e_psz E) (e_dw E) ow m t st)
    (\<lambda>(m', st). salign st \<in> set alignments \<and> m_die m' = m_die m)"
proof -
  have size: "res_in N (die_size n (e_psz E) (e_dw E) (Some (m_die m)))
      (\<lambda>z. NonTermination \<in> N \<longrightarrow> DW_AT_bit_size (e_dw E (m_die m)) \<noteq> None \<longrightarrow> 0 < z)"
    using die_size_in [OF l n] l
    by (cases "die_size n (e_psz E) (e_dw E) (Some (m_die m))") (auto simp: limits_def storage_ok_def)
  have bits: "res_in N
      (bnd (need TypeError (DW_AT_bit_size (e_dw E (m_die m)))) (\<lambda>bits.
       bnd (if expected_end st \<le> off then die_size n (e_psz E) (e_dw E) (Some (m_die m)) else Inr 0) (\<lambda>dsize.
       bnd (bit_field py t off bits dsize (expected_bit_offset st, expected_end st, pre_pads m, rows st))
         (\<lambda>(ebo, ee, pads, rs). Inr (m\<lparr>pre_pads := pads\<rparr>,
            st\<lparr>expected_bit_offset := ebo, expected_end := ee, rows := rs\<rparr>)))))
    (\<lambda>(m', st). salign st \<in> set alignments \<and> m_die m' = m_die m)" for off py
  proof (rule res_in_bnd [OF yields_need [where Q = "\<lambda>b. DW_AT_bit_size (e_dw E (m_die m)) = Some b"]])
    fix b assume b: "DW_AT_bit_size (e_dw E (m_die m)) = Some b"
    have "res_in N (if expected_end st \<le> off then die_size n (e_psz E) (e_dw E) (Some (m_die m)) else Inr 0)
        (\<lambda>z. NonTermination \<in> N \<longrightarrow> 0 < z \<or> off < expected_end st)"
      using b by (auto intro: res_in_weaken [OF size])
    then show "res_in N (bnd (if expected_end st \<le> off then die_size n (e_psz E) (e_dw E) (Some (m_die m)) else Inr 0) (\<lambda>dsize.
       bnd (bit_field py t off b dsize (expected_bit_offset st, expected_end st, pre_pads m, rows st))
         (\<lambda>(ebo, ee, pads, rs). Inr (m\<lparr>pre_pads := pads\<rparr>,
            st\<lparr>expected_bit_offset := ebo, expected_end := ee, rows := rs\<rparr>))))
      (\<lambda>(m', st). salign st \<in> set alignments \<and> m_die m' = m_die m)"
      by (rule res_in_bnd) (rule res_in_bnd [OF bit_field_in], use a in auto)
  qed (simp_all add: limits_exn [OF l])
  show ?thesis
    unfolding place_field_def Let_def
  proof (rule res_in_bnd [OF bit_offset_in [OF l n]])
    fix off :: "int option"
    show "res_in N
       (case (off, ctypeOverride m) of
        (Some off, None) \<Rightarrow>
          bnd (need TypeError (DW_AT_bit_size (e_dw E (m_die m)))) (\<lambda>bits.
          bnd (if expected_end st \<le> off then die_size n (e_psz E) (e_dw E) (Some (m_die m)) else Inr 0) (\<lambda>dsize.
          bnd (bit_field (str_of (member_pyName (e_dw E) m)) t off bits dsize
                 (expected_bit_offset st, expected_end st, pre_pads m, rows st))
            (\<lambda>(ebo, ee, pads, rs).
          Inr (m\<lparr>pre_pads := pads\<rparr>,
               st\<lparr>expected_bit_offset := ebo, expected_end := ee, rows := rs\<rparr>))))
      | _ \<Rightarrow>
          if o_union ow then Inr (m, st\<lparr>rows := rows st @ [Row (str_of (member_name (e_dw E) m)) t None]\<rparr>)
          else bnd (die_size n (e_psz E) (e_dw E) (Some (m_die m))) (\<lambda>dsize.
            Inr (m, st\<lparr>rows := rows st @ [Row (str_of (member_name (e_dw E) m)) t None],
              expected_bit_offset := ((case DW_AT_data_member_location (e_dw E (m_die m)) of None \<Rightarrow> 0 | Some z \<Rightarrow> z) + dsize) * 8,
              expected_end := ((case DW_AT_data_member_location (e_dw E (m_die m)) of None \<Rightarrow> 0 | Some z \<Rightarrow> z) + dsize) * 8\<rparr>)))
      (\<lambda>(m', st). salign st \<in> set alignments \<and> m_die m' = m_die m)"
    proof (cases "\<exists>o1. off = Some o1 \<and> ctypeOverride m = None")
      case True
      with bits show ?thesis by auto
    next
      case False
      then show ?thesis
        by (cases off; cases "ctypeOverride m") (simp_all add: a res_in_bnd [OF size])
    qed
  qed
qed

lemma check_packed_align [simp]: "salign (check_packed dw m a st) = salign st"
  by (simp add: check_packed_def split: option.split)

lemma field_step_in:
  assumes l: "limits E D N rank" and n: "enough N rank (Follow (m_die m)) n"
    and a: "salign st \<in> set alignments" and ti: "t_align ti = 0 \<or> t_align ti \<in> set alignments"
  shows "res_in N (field_step n (e_psz E) (e_dw E) ow m ti nxt st)
    (\<lambda>(m', st, _). salign st \<in> set alignments \<and> m_die m' = m_die m)"
  unfolding field_step_def
proof (rule res_in_bnd [OF field_type_in [OF l ti]], clarsimp simp del: insert_iff)
  fix al t ws assume "al = 0 \<or> al \<in> set alignments"
  then show "res_in N (bnd (raise_alignment al st) (\<lambda>st.
     bnd (place_field n (e_psz E) (e_dw E) ow m t st) (\<lambda>(m, st).
     Inr (m, check_packed (e_dw E) m al st, ws)))) (\<lambda>(m', st, _). salign st \<in> set alignments \<and> m_die m' = m_die m)"
    by (intro res_in_bnd [OF raise_alignment_in [OF _ a]] res_in_bnd [OF place_field_in [OF l n]])
      (auto split: prod.split)
qed

section \<open>The fields of a structure\<close>

text \<open>The fuel a member needs, and the state of the loop.\<close>

lemma goes_is_defined: "limits E D N rank \<Longrightarrow> goes E D N (is_defined t) (\<lambda>_. True)"
  unfolding is_defined_def
  by (cases t) (auto simp only: tref.case intro!: yields_ret yields_sbind [OF goes_getobj])

lemma field_enough:
  assumes l: "limits E D N rank" and n: "enough N rank (Op Defining k) (Suc n)" and m: "member_of E k d"
  shows "goes E D N (dieToType E n (DW_AT_type (e_dw E d)))
    (\<lambda>t. enough_ref N rank Defining t n \<and> enough_ref N rank Naming t n \<and> enough_ref N rank Aligning t n)"
proof (cases "DW_AT_type (e_dw E d)")
  case None
  have "goes E D N (dieToType E n None) (\<lambda>t. t = ref_of E None)"
    by (rule goes_dieToType [OF l]) simp
  then show ?thesis unfolding None by (rule yields_weaken) (use enough_pos [OF n] in simp)
next
  case (Some t)
  note j = enough_step [OF l n needs_field [OF m Some]]
  have "enough N rank (Find t) n" by (rule j [of Defining]) simp_all
  moreover have e: "enough N rank (Op x (key_of E t)) n" if "List.member [Defining, Naming, Aligning] x" for x
    by (rule j [OF that]) simp
  ultimately have "goes E D N (dieToType E n (Some t)) (\<lambda>u. u = Obj (key_of E t))"
    using goes_dieToType [OF l, of "Some t" n] by simp
  then show ?thesis unfolding Some by (rule yields_weaken) (simp add: e)
qed

lemma goes_tyinfo:
  assumes l: "limits E D N rank" and n: "enough N rank (Op Defining k) (Suc n)" and m: "member_of E k (m_die m)"
  shows "goes E D N (tyinfo_of E n m) (\<lambda>ti. t_align ti = 0 \<or> t_align ti \<in> set alignments)"
  unfolding tyinfo_of_def
proof (rule yields_sbind [OF field_enough [OF l n m]], rule yields_sbind [OF goes_is_defined [OF l]], intro yields_if)
  fix t assume t: "enough_ref N rank Defining t n \<and> enough_ref N rank Naming t n \<and> enough_ref N rank Aligning t n"
  show "goes E D N (sbind (alignment E n t) (\<lambda>a.
       sbind (case ctypeOverride m of None \<Rightarrow> ctype E n t | Some c \<Rightarrow> ret c) (\<lambda>c.
       ret \<lparr>t_defined = True, t_align = a, t_ctype = c, t_name = []\<rparr>)))
     (\<lambda>ti. t_align ti = 0 \<or> t_align ti \<in> set alignments)"
    by (intro yields_sbind [OF goes_alignment [OF l]]
        yields_sbind [OF yields_option, of _ _ _ _ "\<lambda>_. True"] goes_ctype [OF l] yields_ret) (use t in simp_all)
  show "goes E D N (sbind (type_name E t True) (\<lambda>nm.
       ret \<lparr>t_defined = False, t_align = 0, t_ctype = [], t_name = nm\<rparr>))
     (\<lambda>ti. t_align ti = 0 \<or> t_align ti \<in> set alignments)"
    by (intro yields_sbind [OF goes_type_name(1) [OF l]] yields_ret) simp
qed

lemma goes_member_loop:
  assumes l: "limits E D N rank" and n: "enough N rank (Op Defining k) (Suc n)"
  shows "\<forall>m\<in>set ms. member_of E k (m_die m) \<Longrightarrow> salign st \<in> set alignments \<Longrightarrow>
    goes E D N (member_loop E n ow ms st)
      (\<lambda>(ms', st'). salign st' \<in> set alignments \<and> (\<forall>m\<in>set ms'. member_of E k (m_die m)))"
proof (induction ms arbitrary: st)
  case Nil
  then show ?case by (simp add: yields_def)
next
  case (Cons m ms)
  then have m: "member_of E k (m_die m)" by simp
  have e: "enough N rank (Empty (m_die m)) n" "enough N rank (Follow (m_die m)) n"
    using enough_step [OF l n] needs_member [OF m] by blast+
  have rest: "goes E D N (sbind (member_loop E n ow ms st) (\<lambda>(ms, st). ret (m' # ms, st)))
      (\<lambda>(ms', st'). salign st' \<in> set alignments \<and> (\<forall>m\<in>set ms'. member_of E k (m_die m)))"
    if "salign st \<in> set alignments" "m_die m' = m_die m" for m' st
    by (rule yields_sbind [OF Cons.IH]) (use Cons.prems m that in \<open>auto intro!: yields_ret\<close>)
  show ?case
    unfolding member_loop.simps
  proof (rule yields_sbind [OF goes_isEmptyBase [OF l e(1)]], intro yields_if)
    show "goes E D N (sbind (member_loop E n ow ms st) (\<lambda>(ms, st). ret (m # ms, st)))
      (\<lambda>(ms', st'). salign st' \<in> set alignments \<and> (\<forall>m\<in>set ms'. member_of E k (m_die m)))"
      using rest Cons.prems(2) by simp
  next
    have step: "goes E D N (lift (field_step n (e_psz E) (e_dw E) ow m ti nxt st))
        (\<lambda>(m', st, _). salign st \<in> set alignments \<and> m_die m' = m_die m)"
      if "t_align ti = 0 \<or> t_align ti \<in> set alignments" for ti nxt
      by (rule yields_lift, rule field_step_in [OF l e(2) Cons.prems(2) that])
    show "goes E D N (sbind (tyinfo_of E n m) (\<lambda>ti.
       sbind (lift (field_step n (e_psz E) (e_dw E) ow m ti
           (next_loc (e_dw E) (map (\<lambda>m. (m, ())) ms)) st)) (\<lambda>(m, st, ws).
       andthen (forM ws errorfunc)
       (sbind (member_loop E n ow ms st) (\<lambda>(ms, st). ret (m # ms, st))))))
      (\<lambda>(ms', st'). salign st' \<in> set alignments \<and> (\<forall>m\<in>set ms'. member_of E k (m_die m)))"
      by (rule yields_sbind [OF goes_tyinfo [OF l n m]], rule yields_sbind [OF step], assumption)
        (auto intro!: yields_andthen yields_forM goes_errorfunc rest)
  qed
qed

lemma trailing_pad_in:
  assumes l: "limits E D N rank" and a: "salign st \<in> set alignments"
  shows "res_in N (trailing_pad ow k c st) (\<lambda>st. salign st \<in> set alignments)"
  using a unfolding trailing_pad_def Let_def
  by (auto intro!: res_in_bnd [OF yields_need [where Q = "\<lambda>_. True"]] simp: limits_exn [OF l])

lemma finish_packed_align: "salign st \<in> set alignments \<Longrightarrow> salign (finish_packed ow st) \<in> set alignments"
  by (auto simp: finish_packed_def Let_def alignments_def split: option.split)

lemma goes_write_fields:
  assumes l: "limits E D N rank" and n: "enough N rank (Op Defining k) (Suc n)"
  shows "goes E D N (write_fields E n k) (\<lambda>_. True)"
  unfolding write_fields_def Let_def
proof (rule yields_sbind [OF goes_getobj [OF l]], intro yields_if)
  fix ob assume "obj_ok E k ob"
  show "goes E D N (updobj k (ob_alignment_update (\<lambda>_. 1))) (\<lambda>_. True)"
    by (rule goes_updobj [OF l]) (simp add: obj_ok_def alignments_def)
next
  fix ob assume ob: "obj_ok E k ob"
  have loop: "goes E D N (member_loop E n ow (ob_members ob) (layout0 (ob_packed ob)))
      (\<lambda>(ms', st'). salign st' \<in> set alignments \<and> (\<forall>m\<in>set ms'. member_of E k (m_die m)))" for ow
    by (rule goes_member_loop [OF l n]) (use ob in \<open>simp_all add: layout0_def alignments_def ok_member\<close>)
  have pad: "goes E D N (lift (trailing_pad ow c d st)) (\<lambda>st. salign st \<in> set alignments)"
    if "salign st \<in> set alignments" for ow c d st
    by (rule yields_lift, rule trailing_pad_in [OF l that])
  show "goes E D N (sbind (definition_of E k) (\<lambda>f.
       sbind (member_loop E n (owner_of E ob f) (ob_members ob) (layout0 (ob_packed ob))) (\<lambda>(ms, st).
       sbind (lift (trailing_pad (owner_of E ob f) (length ms) (ob_superCount ob) st)) (\<lambda>st.
       andthen (updobj k (\<lambda>oba. oba\<lparr>ob_members := ms, ob_alignment := salign (finish_packed (owner_of E ob f) st),
           ob_packed := packed (finish_packed (owner_of E ob f) st)\<rparr>))
       (andthen (write_stmt k (SFieldsPre (obj_pyName E ob True) (rows (finish_packed (owner_of E ob f) st))))
       (andthen (if packed (finish_packed (owner_of E ob f) st)
                 then write_stmt k (SPack (obj_pyName E ob True) (packComment (finish_packed (owner_of E ob f) st))) else ret ())
       (andthen (if filter m_anon ms \<noteq> [] then write_stmt k (SAnonymous (obj_pyName E ob True) (anon_names (e_dw E) ms))
                 else ret ())
       (write_stmt k (SFields (obj_pyName E ob True)))))))))) (\<lambda>_. True)"
    by (rule yields_sbind [OF goes_definition_of [OF l]], rule yields_sbind_prod [OF loop],
        rule yields_sbind [OF pad], (erule conjunct1),
        intro yields_andthen goes_updobj [OF l] goes_write yields_if yields_ret TrueI)
      (simp add: obj_ok_def finish_packed_align)
qed

section \<open>The methods declare and define\<close>

definition enough_opt :: "pyexn set \<Rightarrow> (job \<Rightarrow> nat) \<Rightarrow> op \<Rightarrow> tref option \<Rightarrow> nat \<Rightarrow> bool" where
  "enough_opt N rank x t n = enough_ref N rank x (case t of None \<Rightarrow> VoidType | Some t \<Rightarrow> t) n"

lemma enough_opt_simps [simp]:
  "enough_opt N rank x None n \<longleftrightarrow> enough_ref N rank x VoidType n"
  "enough_opt N rank x (Some t) n \<longleftrightarrow> enough_ref N rank x t n"
  by (simp_all add: enough_opt_def)

text \<open>What the methods ask of the calls they make.\<close>

definition calls_ok :: "env \<Rightarrow> todo \<Rightarrow> pyexn set \<Rightarrow> (job \<Rightarrow> nat) \<Rightarrow> nat \<Rightarrow> caller \<Rightarrow> bool" where
  "calls_ok E D N rank n call = (\<forall>t. (enough_opt N rank Declaring t n \<longrightarrow> goes E D N (call (DeclareType t)) (\<lambda>_. True))
     \<and> (enough_opt N rank Defining t n \<longrightarrow> goes E D N (call (DefineType t)) (\<lambda>_. True)))"

lemma goes_declare: "calls_ok E D N rank n call \<Longrightarrow> enough_opt N rank Declaring t n \<Longrightarrow> goes E D N (call (DeclareType t)) (\<lambda>_. True)"
  and goes_define: "calls_ok E D N rank n call \<Longrightarrow> enough_opt N rank Defining t n \<Longrightarrow> goes E D N (call (DefineType t)) (\<lambda>_. True)"
  by (simp_all add: calls_ok_def)

lemma base_enough_opt:
  assumes "limits E D N rank" "enough N rank (Op x k) (Suc n)" "base_ref E k t" "origin E k i kd"
    "List.member (passes x kd) y"
  shows "enough_opt N rank y t n"
  using base_enough [OF assms(1,2) _ assms(4,5)] assms(3) enough_pos [OF assms(2)] by (cases t) auto

lemma again_enough:
  assumes "limits E D N rank" "enough N rank (Op x k) (Suc n)" "origin E k i kd" "List.member (again x kd) y"
  shows "enough_opt N rank y (Some (Obj k)) n"
  using enough_step [OF assms(1,2) needs_again [OF assms(3,4)]] by simp

lemma goes_write_rest:
  assumes l: "limits E D N rank" and n: "enough N rank (Op Defining k) (Suc n)"
  shows "goes E D N (write_rest E n k) (\<lambda>_. True)"
  unfolding write_rest_def write_unaligned_def Let_def
  by (intro yields_sbind [OF goes_getobj [OF l]] yields_andthen goes_write yields_if yields_ret TrueI
      goes_write_fields [OF l n])

lemma goes_write_size: "limits E D N rank \<Longrightarrow> goes E D N (write_size E k) (\<lambda>_. True)"
  unfolding write_size_def
  by (intro yields_sbind [OF goes_getobj] yields_sbind [OF goes_definition_of]
      yields_sbind [OF yields_lift [OF yields_need, of _ _ _ "\<lambda>_. True"]] yields_andthen goes_write)
    auto

lemma goes_define_members:
  assumes l: "limits E D N rank" and n: "enough N rank (Op Defining k) (Suc n)" and c: "calls_ok E D N rank n call"
  shows "goes E D N (define_members E n call k) (\<lambda>_. True)"
  unfolding define_members_def
proof (rule yields_sbind [OF goes_getobj [OF l]], rule yields_forM)
  fix ob m assume "obj_ok E k ob" "m \<in> set (ob_members ob)"
  then have "member_of E k (m_die m)" by (rule ok_member)
  from field_enough [OF l n this]
  show "goes E D N (sbind (dieToType E n (DW_AT_type (e_dw E (m_die m)))) (\<lambda>t.
      andthen (call (DefineType (Some t))) (ret ()))) (\<lambda>_. True)"
    by (rule yields_sbind) (intro yields_andthen goes_define [OF c] yields_ret TrueI, simp)
qed

lemma goes_define_member_type:
  assumes l: "limits E D N rank" and n: "enough N rank (Op Defining k) (Suc n)" and c: "calls_ok E D N rank n call"
    and o: "origin E k i kd" "is_member_kind kd"
  shows "goes E D N (define_member_type E n call k) (\<lambda>_. True)"
  unfolding define_member_type_def
  by (intro yields_sbind [OF goes_definition_of [OF l]] yields_if yields_ret TrueI yields_andthen
      goes_findMembers [OF l] goes_declare [OF c] again_enough [OF l n o(1)] goes_define_members [OF l n c]
      goes_write_size [OF l] goes_write_rest [OF l n])
    (simp add: o(2))

lemma goes_define_struct:
  assumes l: "limits E D N rank" and n: "enough N rank (Op Defining k) (Suc n)" and c: "calls_ok E D N rank n call"
    and o: "origin E k i kd" "is_member_kind kd"
  shows "goes E D N (define_struct E n call k) (\<lambda>_. True)" "goes E D N (define_union E n call k) (\<lambda>_. True)"
  unfolding define_struct_def define_union_def
  by (intro yields_sbind [OF goes_define_member_type [OF l n c o]] yields_if yields_ret TrueI
      yields_sbind [OF goes_getobj [OF l]] yields_andthen goes_write)+

lemma goes_call_base:
  assumes l: "limits E D N rank" and n: "enough N rank (Op x k) (Suc n)" and c: "calls_ok E D N rank n call"
    and o: "origin E k i kd"
  shows "List.member (passes x kd) Defining \<Longrightarrow> base_ref E k b \<Longrightarrow> goes E D N (call (DefineType b)) (\<lambda>_. True)"
    and "List.member (passes x kd) Declaring \<Longrightarrow> base_ref E k b \<Longrightarrow> goes E D N (call (DeclareType b)) (\<lambda>_. True)"
  using goes_define [OF c] goes_declare [OF c] base_enough_opt [OF l n _ o] by blast+

lemma enum_lines_in: "limits E D N rank \<Longrightarrow> res_in N (enum_lines dw c cs) (\<lambda>_. True)"
proof (induction cs)
  case (Cons x cs)
  have "res_in N (need TypeError (DW_AT_const_value (dw x))) (\<lambda>_. True)"
    by (rule yields_need) (simp_all add: limits_exn [OF Cons.prems])
  with Cons.IH [OF Cons.prems] show ?case
    by (cases "need TypeError (DW_AT_const_value (dw x))"; cases "enum_lines dw c cs") (simp_all add: Let_def)
qed simp

lemma goes_define_enum:
  assumes l: "limits E D N rank" and n: "enough N rank (Op Defining k) (Suc n)" and c: "calls_ok E D N rank n call"
    and o: "origin E k i KEnum"
  shows "goes E D N (define_enum E n call k) (\<lambda>_. True)"
proof -
  have base: "goes E D N (if b \<noteq> None then call (DefineType b) else ret True) (\<lambda>_. True)"
    if "base_ref E k b" for b
    by (intro yields_if goes_call_base(1) [OF l n c o _ that] yields_ret) (simp_all add: is_member_kind_def)
  have int: "goes E D N (intType E n k) (\<lambda>_. True)"
    unfolding intType_def
  proof (rule yields_sbind [OF goes_definition_of [OF l]], intro yields_option yields_ret TrueI)
    fix f b assume "entry_of E k f" and b: "DW_AT_type (e_dw E f) = Some b"
    then obtain j kj where "origin E k j kj" "f = def_die E j" unfolding entry_of_def by blast
    with b have "enough N rank (Find b) n" using enough_step [OF l n] needs_base by blast
    then show "goes E D N (sbind (dieToType E n (Some b)) (\<lambda>t. type_pyName E t True)) (\<lambda>_. True)"
      by (intro yields_sbind [OF goes_dieToType [OF l]] goes_type_name [OF l]) simp
  qed
  show ?thesis
    unfolding define_enum_def
    by (intro yields_sbind [OF goes_baseType [OF l n]] yields_andthen base yields_sbind [OF int]
        yields_sbind [OF goes_getobj [OF l]] yields_sbind [OF goes_definition_of [OF l]]
        yields_sbind [OF yields_lift [OF enum_lines_in [OF l]]] goes_write yields_if yields_forM goes_add_defined
        yields_ret TrueI)
qed

lemma goes_define_pointer:
  assumes l: "limits E D N rank" and n: "enough N rank (Op Defining k) (Suc n)" and c: "calls_ok E D N rank n call"
    and o: "origin E k i KPointer"
  shows "goes E D N (define_pointer E n call k) (\<lambda>_. True)"
proof -
  have deep: "goes E D N (case b of Some (Obj kb) \<Rightarrow> sbind (definition_of E kb) (\<lambda>f.
      andthen (if DW_AT_declaration (e_dw E f) then ret () else add_defineTypes kb) (ret True)) | _ \<Rightarrow> ret True)
    (\<lambda>_. True)" if "e_deepInspect E" for b
    by (auto split: option.split tref.split simp del: ret_run
        intro!: yields_sbind [OF goes_definition_of [OF l]] yields_andthen
          goes_add_defineTypes [OF l that] yields_ret)
  show ?thesis
    unfolding define_pointer_def
    by (intro yields_sbind [OF goes_isVoidp [OF l]] yields_if yields_ret TrueI yields_sbind [OF goes_baseType [OF l n]]
        yields_andthen goes_call_base(2) [OF l n c o] deep) simp_all
qed

lemma goes_define_typedef:
  assumes l: "limits E D N rank" and n: "enough N rank (Op Defining k) (Suc n)" and c: "calls_ok E D N rank n call"
    and o: "origin E k i KTypedef"
  shows "goes E D N (define_typedef E n call k) (\<lambda>_. True)"
  unfolding define_typedef_def
  by (intro yields_sbind [OF goes_baseType [OF l n]] yields_andthen goes_call_base [OF l n c o]
      goes_declare [OF c] again_enough [OF l n o]) simp_all

lemma goes_declare_typedef:
  assumes l: "limits E D N rank" and n: "enough N rank (Op Declaring k) (Suc n)" and c: "calls_ok E D N rank n call"
    and o: "origin E k i KTypedef"
  shows "goes E D N (declare_typedef E n call k) (\<lambda>_. True)"
  unfolding declare_typedef_def
  by (intro yields_sbind [OF goes_baseType [OF l n]] yields_andthen goes_call_base(2) [OF l n c o]
      yields_sbind [OF goes_getobj [OF l]] yields_sbind [OF goes_theBase [OF l n]]
      yields_sbind [OF goes_ctype [OF l]] base_enough [OF l n _ o] yields_if yields_ret TrueI goes_write)
    simp_all

lemma goes_define_function:
  assumes l: "limits E D N rank" and n: "enough N rank (Op Defining k) (Suc n)" and c: "calls_ok E D N rank n call"
    and o: "origin E k i kd" "List.member funcs kd"
  shows "goes E D N (define_function E n call k) (\<lambda>_. True)"
proof -
  have "kd \<noteq> KPointer \<and> kd \<noteq> KTypedef \<and> \<not> is_member_kind kd"
    using o(2) by (auto simp: funcs_def is_member_kind_def)
  then have base: "goes E D N (if b \<noteq> None then call (DefineType b) else ret True) (\<lambda>_. True)"
    if "base_ref E k b" for b
    by (intro yields_if goes_call_base(1) [OF l n c o(1) _ that] yields_ret) simp_all
  have par: "goes E D N (forM (params E (ob_die ob)) (\<lambda>child.
         sbind (dieToType E n (DW_AT_type (e_dw E child))) (\<lambda>t.
         andthen (call (DefineType (Some t))) (ret ())))) (\<lambda>_. True)"
    if ob: "obj_ok E k ob" for ob
  proof (rule yields_forM)
    fix p assume "p \<in> set (params E (ob_die ob))"
    then have p: "goes E D N (dieToType E n (DW_AT_type (e_dw E p))) (\<lambda>t. enough_ref N rank Defining t n)"
      by (intro param_enough [OF l n ok_origin [OF ob] o]) simp_all
    then show "goes E D N (sbind (dieToType E n (DW_AT_type (e_dw E p))) (\<lambda>t.
         andthen (call (DefineType (Some t))) (ret ()))) (\<lambda>_. True)"
      by (rule yields_sbind) (intro yields_andthen goes_define [OF c] yields_ret TrueI, simp)
  qed
  show ?thesis
    unfolding define_function_def
    by (intro yields_sbind [OF goes_baseType [OF l n]] yields_andthen base yields_sbind [OF goes_getobj [OF l]]
        par yields_ret TrueI)
qed

lemma kind_facts [simp]: "\<not> is_member_kind KTypedef" "\<not> is_member_kind KPointer" "\<not> is_member_kind KConst"
  "\<not> is_member_kind KVolatile" "\<not> is_member_kind KRestrict" "\<not> is_member_kind KArray"
  "\<not> is_member_kind KFunction" "\<not> is_member_kind KFunctionDef" "is_member_kind KStruct" "is_member_kind KUnion"
  by (simp_all add: is_member_kind_def)

lemma goes_define_obj:
  assumes l: "limits E D N rank" and n: "enough N rank (Op Defining k) (Suc n)" and c: "calls_ok E D N rank n call"
    and o: "origin E k i kd"
  shows "goes E D N (define_obj E n call k kd) (\<lambda>_. True)"
proof -
  have base: "goes E D N (sbind (baseType E n k) (\<lambda>b. call (DefineType b))) (\<lambda>_. True)"
    if "List.member (passes Defining kd) Defining"
    by (intro yields_sbind [OF goes_baseType [OF l n]] goes_call_base(1) [OF l n c o that])
  have ret: "goes E D N (ret True) (\<lambda>_. True)" by (rule yields_ret) simp
  show ?thesis
    using o
    by (cases kd; simp only: define_obj_def tkind.case;
      intro ret goes_define_struct [OF l n c] goes_define_enum [OF l n c] goes_define_pointer [OF l n c]
        goes_define_typedef [OF l n c] goes_define_function [OF l n c] base, assumption?)
      (simp_all add: funcs_def)
qed

lemma goes_declare_obj:
  assumes l: "limits E D N rank" and n: "enough N rank (Op Declaring k) (Suc n)" and c: "calls_ok E D N rank n call"
    and o: "origin E k i kd"
  shows "goes E D N (declare_obj E n call k kd) (\<lambda>_. True)"
proof -
  have mt: "goes E D N (declare_member_type E k) (\<lambda>_. True)"
    unfolding declare_member_type_def by (intro yields_sbind [OF goes_getobj [OF l]] goes_write)
  show ?thesis
    unfolding declare_obj_def
    by (intro yields_if mt yields_sbind [OF goes_baseType [OF l n]] yields_andthen yields_ret TrueI
        goes_call_base(2) [OF l n c o] goes_define [OF c] again_enough [OF l n o]
        goes_declare_typedef [OF l n c])
      (use o in \<open>auto simp: quals_def\<close>)
qed

lemma goes_declareType:
  assumes l: "limits E D N rank" and c: "calls_ok E D N rank n call" and n: "enough_opt N rank Declaring t (Suc n)"
  shows "goes E D N (declareType E n call t) (\<lambda>_. True)"
proof (cases "\<exists>k. t = Some (Obj k)")
  case True
  then obtain k where t: "t = Some (Obj k)" by blast
  with n have n: "enough N rank (Op Declaring k) (Suc n)" by simp
  show ?thesis
    unfolding declareType_def t option.case tref.case
    by (intro yields_sbind [OF goes_getobj [OF l]] yields_if yields_ret TrueI yields_andthen
        goes_declare_obj [OF l n c] goes_updobj [OF l])
      (auto simp: obj_ok_def intro: ok_origin)
next
  case False
  then have "declareType E n call t = ret ()"
    by (auto simp: declareType_def split: option.split tref.split)
  then show ?thesis by (simp only:) (rule yields_ret, simp)
qed

lemma goes_defineType:
  assumes l: "limits E D N rank" and c: "calls_ok E D N rank n call" and n: "enough_opt N rank Defining t (Suc n)"
  shows "goes E D N (defineType E n call t) (\<lambda>_. True)"
proof (cases "\<exists>k. t = Some (Obj k)")
  case True
  then obtain k where t: "t = Some (Obj k)" by blast
  with n have n: "enough N rank (Op Defining k) (Suc n)" by simp
  show ?thesis
    unfolding defineType_def t option.case tref.case
    by (intro yields_sbind [OF goes_getobj [OF l]] yields_if yields_ret TrueI yields_andthen
        yields_sbind [OF goes_definition_of [OF l]] yields_sbind [OF yields_lift [OF isVoid_in [OF l]]]
        goes_errorfunc yields_sbind [OF goes_define_obj [OF l n c]] goes_updobj [OF l] goes_add_defined)
      (auto simp: obj_ok_def intro: ok_origin)
next
  case False
  then have "defineType E n call t = ret True"
    by (auto simp: defineType_def split: option.split tref.split)
  then show ?thesis by (simp only:) (rule yields_ret, simp)
qed

lemma runs_ok: "limits E D N rank \<Longrightarrow> calls_ok E D N rank n (\<lambda>c. run E n c)"
proof (induction n)
  case 0
  have "NonTermination \<notin> N" if "enough_opt N rank x t 0" for x t
    using that by (cases t; cases "the t") (auto dest: enough_0)
  then show ?case by (fastforce simp: calls_ok_def yields_def)
next
  case (Suc n)
  have ret: "goes E D N (ret True) (\<lambda>_. True)" by (rule yields_ret) simp
  from Suc show ?case
    unfolding calls_ok_def [of _ _ _ _ "Suc n"] run.simps step_def callee.case
    using goes_declareType goes_defineType by (blast intro: yields_andthen ret)
qed

end
