(* ===== verification/DeepInspect.thy ===== *)
theory DeepInspect
  imports Completion WriteProps
begin

text \<open>
  Looking through pointers: with \<open>deepInspect\<close>, to define a pointer puts the type behind it among the
  types still to define, and \<open>TypeResolver.write\<close> goes round until there are none.  A round that
  leaves something to do has defined a pointer that was not defined before, so there are no more
  rounds than pointers.
\<close>

section \<open>Defined pointers\<close>

definition done_ptrs :: "rstate \<Rightarrow> key set" where
  "done_ptrs s = {k. \<exists>ob. heap s k = Some ob \<and> ob_kind ob = KPointer \<and> ob_defined ob}"

text \<open>No pointer is forgotten; and either a new one is defined, or nothing is added to the types
  still to define.\<close>

definition done_more :: "rstate \<Rightarrow> rstate \<Rightarrow> bool" where
  "done_more s s' = (done_ptrs s \<subseteq> done_ptrs s')"

definition advances :: "rstate \<Rightarrow> rstate \<Rightarrow> bool" where
  "advances s s' = (done_ptrs s \<subseteq> done_ptrs s'
     \<and> (set (defineTypes s') \<subseteq> set (defineTypes s) \<or> done_ptrs s \<noteq> done_ptrs s'))"

lemma discovers_done: "discovers s t \<Longrightarrow> done_ptrs t = done_ptrs s"
proof -
  assume d: "discovers s t"
  have "heap t k = Some ob" if "heap s k = Some ob" for k ob using d that by (simp add: discovers_def)
  with discovers_defined [OF d] show ?thesis unfolding done_ptrs_def by blast
qed

lemma done_update:
  "heap s k = Some ob \<Longrightarrow> ob_kind ob' = ob_kind ob \<Longrightarrow>
   (ob_kind ob = KPointer \<Longrightarrow> ob_defined ob \<Longrightarrow> ob_defined ob') \<Longrightarrow>
   done_ptrs s \<subseteq> done_ptrs (s\<lparr>heap := (heap s)(k \<mapsto> ob')\<rparr>)"
  by (auto simp: done_ptrs_def)

lemma advances_more: "keeps advances m \<Longrightarrow> keeps done_more m"
  by (auto simp: keeps_def advances_def done_more_def)

interpretation dm: finder_relation done_more
proof
  fix s t u
  show "done_more s s" by (simp add: done_more_def)
  show "done_more s u" if "done_more s t" "done_more t u" using that by (auto simp: done_more_def)
  show "done_more s t" if "discovers s t" using discovers_done [OF that] by (simp add: done_more_def)
next
  fix s :: rstate and k ob f assume "heap s k = Some ob"
  then show "done_more s (s\<lparr>heap := (heap s)(k \<mapsto> ob\<lparr>ob_defdie := f\<rparr>)\<rparr>)"
    unfolding done_more_def by (rule done_update) simp_all
qed

interpretation adv: finder_relation advances
proof
  fix s t u
  show "advances s s" by (simp add: advances_def)
  show "advances s u" if "advances s t" "advances t u" using that by (auto simp: advances_def)
  show "advances s t" if "discovers s t"
    using discovers_done [OF that] that by (simp add: advances_def discovers_def same_rest_def)
next
  fix s :: rstate and k ob f assume "heap s k = Some ob"
  then show "advances s (s\<lparr>heap := (heap s)(k \<mapsto> ob\<lparr>ob_defdie := f\<rparr>)\<rparr>)"
    using done_update [of s k ob "ob\<lparr>ob_defdie := f\<rparr>"] by (simp add: advances_def)
qed

lemma adv_updobj:
  assumes "\<And>ob. ob_kind (f ob) = ob_kind ob \<and> (ob_kind ob = KPointer \<longrightarrow> ob_defined ob \<longrightarrow> ob_defined (f ob))"
  shows "keeps advances (updobj k f)"
proof (rule keepsI)
  fix s u s' assume "updobj k f s = Inr (u, s')"
  then obtain ob where ob: "heap s k = Some ob" "s' = s\<lparr>heap := (heap s)(k \<mapsto> f ob)\<rparr>"
    by (auto simp: updobj_Inr)
  have "done_ptrs s \<subseteq> done_ptrs s'"
    unfolding ob(2) by (rule done_update [OF ob(1)]) (simp_all add: assms)
  with ob(2) show "advances s s'" by (simp add: advances_def)
qed

lemma adv_write: "keeps advances (write_stmt k x)"
  by (auto simp: keeps_def write_stmt_def advances_def done_ptrs_def)

lemma adv_add_defined: "keeps advances (add_defined nm)"
  by (auto simp: keeps_def add_defined_def advances_def done_ptrs_def)

lemmas adv_rules = adv.keeps_more adv_updobj adv_write adv_add_defined

section \<open>Declaring and defining\<close>

lemma adv_define_members:
  assumes call: "\<And>c. keeps advances (call c)"
  shows "keeps advances (define_member_type E n call k)"
proof -
  have fields: "keeps advances (write_fields E n k)"
    unfolding write_fields_def Let_def by (intro adv_rules adv.keeps_member_loop) simp_all
  have una: "keeps advances (write_unaligned E k ob)" for ob
    unfolding write_unaligned_def Let_def by (intro adv_rules)
  have rest: "keeps advances (write_rest E n k)"
    unfolding write_rest_def by (intro adv_rules fields una)
  have size: "keeps advances (write_size E k)"
    unfolding write_size_def by (intro adv_rules)
  have members: "keeps advances (findMembers E k)" "keeps advances (define_members E n call k)"
    unfolding findMembers_def define_members_def
    by (intro adv_rules, simp) (intro adv_rules call)
  show ?thesis
    unfolding define_member_type_def by (intro adv_rules members call size rest)
qed

lemma adv_define_obj:
  assumes call: "\<And>c. keeps advances (call c)" and kd: "kd \<noteq> KPointer"
  shows "keeps advances (define_obj E n call k kd)"
proof -
  note rules = adv_rules call adv_define_members [OF call] adv.keeps_ctype adv.keeps_intType
  have "keeps advances (define_struct E n call k)" "keeps advances (define_union E n call k)"
    "keeps advances (define_enum E n call k)" "keeps advances (define_typedef E n call k)"
    "keeps advances (define_function E n call k)"
    unfolding define_struct_def define_union_def define_enum_def define_typedef_def define_function_def
    by (intro rules)+
  then show ?thesis
    using kd unfolding define_obj_def by (cases kd) (auto intro!: rules)
qed

lemma adv_declareType:
  assumes call: "\<And>c. keeps advances (call c)"
  shows "keeps advances (declareType E n call t)"
proof -
  note rules = adv_rules call adv.keeps_ctype
  have "keeps advances (declare_typedef E n call k)" "keeps advances (declare_member_type E k)" for k
    unfolding declare_typedef_def declare_member_type_def by (intro rules)+
  then have "keeps advances (declare_obj E n call k kd)" for k kd
    unfolding declare_obj_def by (auto intro!: rules)
  then show ?thesis
    unfolding declareType_def by (intro rules) simp_all
qed

lemma define_pointer_True: "define_pointer E n call k s = Inr (b, s') \<Longrightarrow> b"
proof -
  have any: "yields (\<lambda>_. True) {} m (\<lambda>_. True)" for m :: "'a rcomp"
    by (auto simp: yields_def res_in_def split: sum.split)
  have "yields (\<lambda>_. True) {} (define_pointer E n call k) (\<lambda>b. b)"
    unfolding define_pointer_def
    by (intro yields_sbind [OF any] yields_andthen [OF any] yields_if yields_ret TrueI yields_option)
      (auto intro!: yields_sbind [OF any] yields_andthen [OF any] yields_ret split: tref.split
        simp del: ret_run)
  then show "define_pointer E n call k s = Inr (b, s') \<Longrightarrow> b" by (auto dest: yields_Inr)
qed

lemma define_pointer_more:
  assumes call: "\<And>c. keeps advances (call c)"
  shows "keeps done_more (define_pointer E n call k)"
proof -
  have "keeps done_more (add_defineTypes kb)" for kb
    by (auto simp: keeps_def add_defineTypes_def done_more_def done_ptrs_def)
  then show ?thesis
    unfolding define_pointer_def by (intro dm.keeps_more advances_more [OF call])
qed

text \<open>The types behind a pointer are added while the pointer is being defined; once it is, this counts
  as progress.\<close>

lemma adv_defined:
  assumes "heap s k = Some ob" and "ob_kind ob \<noteq> KPointer \<or> b"
    and "andthen (updobj k (\<lambda>ob. ob\<lparr>ob_defined := b\<rparr>)) (sbind (getobj k) (\<lambda>ob.
           andthen (if b then add_defined (obj_pyName E ob True) else ret ()) (ret b))) s = Inr (b', s')"
  shows "advances s s'" and "ob_kind ob = KPointer \<Longrightarrow> k \<in> done_ptrs s'"
proof -
  let ?s = "s\<lparr>heap := (heap s)(k \<mapsto> ob\<lparr>ob_defined := b\<rparr>)\<rparr>"
  from assms(1,3) have r: "sbind (getobj k) (\<lambda>ob.
      andthen (if b then add_defined (obj_pyName E ob True) else ret ()) (ret b)) ?s = Inr (b', s')"
    by (auto simp: andthen_def sbind_eq_Inr updobj_Inr)
  have "keeps advances (sbind (getobj k) (\<lambda>ob.
      andthen (if b then add_defined (obj_pyName E ob True) else ret ()) (ret b)))" by (intro adv_rules)
  from keepsD [OF this r] have a: "advances ?s s'" .
  have "advances s ?s" using done_update [OF assms(1), of "ob\<lparr>ob_defined := b\<rparr>"] assms(2) by (auto simp: advances_def)
  then show "advances s s'" using a by (rule adv.R_trans)
  show "k \<in> done_ptrs s'" if "ob_kind ob = KPointer"
    using a that assms(2) by (auto simp: advances_def done_ptrs_def)
qed

text \<open>The types behind a pointer are added while the pointer is being defined; once it is, this counts
  as progress.\<close>

lemma adv_define_new:
  assumes call: "\<And>c. keeps advances (call c)" "\<And>c. keeps stable (call c)" "declares call"
    and ob: "heap s k = Some ob" "\<not> ob_defined ob" and run: "defineType E n call (Some (Obj k)) s = Inr (b, s')"
  shows "advances s s'"
proof -
  from run ob obtain f s1 v where f: "definition_of E k s = Inr (f, s1)" "isVoid (e_dw E) (Some f) = Inr v"
    by (auto simp: defineType_def sbind_eq_Inr getobj_Inr lift_eq_Inr)
  have s1: "advances s s1" using keepsD [OF adv.keeps_definition_of f(1)] .
  show ?thesis
  proof (cases v)
    case True
    with run ob f have "errorfunc (obj_name E ob True @ '' is '' @ quoted ''void''
        @ '' - cannot output definition'') s1 = Inr ((), s')"
      by (auto simp: defineType_def andthen_def sbind_eq_Inr getobj_Inr)
    from keepsD [OF adv.keeps_find(2) this] show ?thesis using adv.R_trans [OF s1] by simp
  next
    case False
    with run ob f obtain s2 where s2: "define_obj E n call k (ob_kind ob) s1 = Inr (b, s2)"
      "andthen (updobj k (\<lambda>ob. ob\<lparr>ob_defined := b\<rparr>)) (sbind (getobj k) (\<lambda>ob.
         andthen (if b then add_defined (obj_pyName E ob True) else ret ()) (ret b))) s2 = Inr (b, s')"
      by (auto simp: defineType_def sbind_eq_Inr getobj_Inr andthen_def split: if_splits)
    from definition_of_obj [OF f(1) ob(1)] have ob1: "heap s1 k = Some (ob\<lparr>ob_defdie := Some f\<rparr>)" .
    have "stable s1 s2"
      by (rule stab.keeps_define_obj [OF call(2,3) s2(1)]) (use ob1 in auto)
    with ob1 obtain ob2 where ob2: "heap s2 k = Some ob2" "ob_kind ob2 = ob_kind ob"
      by (auto simp: later_obj_def dest!: stableD)
    show ?thesis
    proof (cases "ob_kind ob = KPointer")
      case True
      with s2(1) have p: "define_pointer E n call k s1 = Inr (b, s2)" by (simp add: define_obj_def)
      have b: "ob_kind ob2 \<noteq> KPointer \<or> b" using define_pointer_True [OF p] by simp
      have "done_more s1 s2" by (rule keepsD [OF define_pointer_more [OF call(1)] p])
      then have "done_ptrs s \<subseteq> done_ptrs s'"
        using s1 adv_defined(1) [OF ob2(1) b s2(2)] by (auto simp: advances_def done_more_def)
      moreover have "k \<in> done_ptrs s'" using adv_defined(2) [OF ob2(1) b s2(2)] ob2(2) True by simp
      moreover have "k \<notin> done_ptrs s" using ob by (simp add: done_ptrs_def)
      ultimately show ?thesis by (auto simp: advances_def)
    next
      case False
      have "advances s1 s2" by (rule keepsD [OF adv_define_obj [OF call(1) False] s2(1)])
      moreover have "advances s2 s'" by (rule adv_defined(1) [OF ob2(1) _ s2(2)]) (simp add: ob2 False)
      ultimately show ?thesis using s1 by (blast intro: adv.R_trans)
    qed
  qed
qed

lemma adv_defineType:
  assumes call: "\<And>c. keeps advances (call c)" "\<And>c. keeps stable (call c)" "declares call"
  shows "keeps advances (defineType E n call t)"
proof (rule keepsI)
  fix s b s' assume run: "defineType E n call t s = Inr (b, s')"
  show "advances s s'"
  proof (cases "\<exists>k ob. t = Some (Obj k) \<and> heap s k = Some ob \<and> \<not> ob_defined ob")
    case True
    with adv_define_new [OF call] run show ?thesis by blast
  next
    case False
    with run show ?thesis
      by (auto simp: defineType_def sbind_eq_Inr getobj_Inr adv.R_refl split: option.splits tref.splits)
  qed
qed

lemma adv_run: "keeps advances (run E n c)"
proof (induction n arbitrary: c)
  case (Suc n)
  have "keeps advances (step E n (\<lambda>c. run E n c) c)"
    by (cases c) (auto simp: step_def intro!: adv.keeps_andthen adv.keeps_ret adv_declareType adv_defineType
        Suc stab.keeps_run run_declares)
  then show ?case by simp
qed (auto intro: adv.keeps_intros)

lemma adv_define_one: "keeps advances (define_one E n k)"
  unfolding define_one_def by (intro adv.keeps_andthen adv_run adv.keeps_ret)

section \<open>Rounds\<close>

text \<open>The keys of pointers are among a list; and the pointers left to define.\<close>

definition pointers_in :: "env \<Rightarrow> key list \<Rightarrow> bool" where
  "pointers_in E KS = (\<forall>k i. origin E k i KPointer \<longrightarrow> List.member KS k)"

definition left_ptrs :: "key list \<Rightarrow> rstate \<Rightarrow> nat" where
  "left_ptrs KS s = card (set KS - done_ptrs s)"

lemma left_ptrs_le: "left_ptrs KS s \<le> length KS"
  unfolding left_ptrs_def by (rule order_trans [OF card_mono card_length]) auto

lemma left_ptrs_less:
  assumes "pointers_in E KS" and "objs_ok E D s'" and "done_ptrs s \<subset> done_ptrs s'"
  shows "left_ptrs KS s' < left_ptrs KS s"
proof -
  from assms(3) obtain k where k: "k \<in> done_ptrs s'" "k \<notin> done_ptrs s" by blast
  then obtain ob where ob: "heap s' k = Some ob" "ob_kind ob = KPointer" by (auto simp: done_ptrs_def)
  then have "origin E k (ob_die ob) KPointer" using ok_origin [OF objs_okD [OF assms(2) ob(1)]] by simp
  with assms(1) have "k \<in> set KS" by (auto simp: pointers_in_def)
  with k assms(3) have "set KS - done_ptrs s' \<subset> set KS - done_ptrs s" by blast
  then show ?thesis unfolding left_ptrs_def by (intro psubset_card_mono) auto
qed

end
