(* ===== verification/Total.thy ===== *)
theory Total
  imports DeepInspect
begin

text \<open>
  How a whole run of the generator may end.  The rules of \<open>Completion\<close> are extended to the walk,
  the hints and the writer, which gives two facts on the whole program: the assertion on alignments
  never fails, and on graded debug data the generator returns or raises one of Python's exceptions,
  it does not run on.
\<close>

section \<open>The walk\<close>

lemma limits_todo:
  "limits E D N rank \<Longrightarrow> (e_deepInspect E \<Longrightarrow> (\<And>ks hs k. D' ks hs \<Longrightarrow> D' (ks @ [k]) hs)) \<Longrightarrow> limits E D' N rank"
  by (auto simp: limits_def)

text \<open>The hints still to apply are smaller than a bound.\<close>

definition hints_below :: "pyexn set \<Rightarrow> nat \<Rightarrow> todo" where
  "hints_below N H = (\<lambda>ks hs. NonTermination \<in> N \<longrightarrow> (\<forall>p\<in>set hs. size (snd p) < H))"

lemma limits_hints: "limits E D N rank \<Longrightarrow> limits E (hints_below N H) N rank"
  by (rule limits_todo) (simp_all add: hints_below_def)

lemma dict_set_subset: "set (dict_set k v d) \<subseteq> insert (k, v) (set d)"
  by (induction k v d rule: dict_set.induct) auto

lemma goes_applyHintToType:
  "(NonTermination \<in> N \<Longrightarrow> size h < H) \<Longrightarrow> goes E (hints_below N H) N (applyHintToType h t) (\<lambda>_. True)"
  unfolding applyHintToType_def
  using dict_set_subset [of t h] by (intro yields_modify) (fastforce simp: objs_ok_def hints_below_def)

text \<open>What the filter and the caller's list may give as hints.\<close>

definition request_below :: "env \<Rightarrow> request \<Rightarrow> nat \<Rightarrow> bool" where
  "request_below E q H = ((\<forall>d h. typesFilter E q d = TakeHinted h \<longrightarrow> size h < H)
     \<and> (\<forall>p\<in>set (hintsByTypename (q_types q)). size (snd p) < H))"

lemma goes_add_type:
  assumes l: "limits E (hints_below N H) N rank" and n: "enough N rank (Find d) n"
    and q: "NonTermination \<in> N \<Longrightarrow> request_below E q H"
  shows "goes E (hints_below N H) N (add_type E q n d) (\<lambda>_. True)"
proof -
  have add: "goes E (hints_below N H) N (add_defineTypes k) (\<lambda>_. True)" for k
    unfolding add_defineTypes_def by (rule yields_modify) (simp add: objs_ok_def hints_below_def)
  have hint: "goes E (hints_below N H) N (case typesFilter E q d of TakeHinted h \<Rightarrow> applyHintToType h t | _ \<Rightarrow> ret ()) (\<lambda>_. True)" for t
    using q by (cases "typesFilter E q d")
      (auto simp: request_below_def simp del: ret_run intro!: goes_applyHintToType yields_ret)
  show ?thesis
    unfolding add_type_def
    by (intro yields_if yields_ret TrueI yields_sbind [OF goes_dieToType [OF l]] yields_andthen hint)
      (use n in \<open>auto intro: add\<close>)
qed

lemma goes_examine:
  assumes l: "limits E (hints_below N H) N rank" and n: "enough N rank (Walk d) (Suc n)"
    and q: "NonTermination \<in> N \<Longrightarrow> request_below E q H"
  shows "goes E (hints_below N H) N (examineDIE E q n d) (\<lambda>_. True)"
proof -
  have "enough N rank (Find d) n" using enough_step [OF l n needs_entry] .
  note add = goes_add_type [OF l this q]
  show ?thesis
    unfolding examineDIE_def Let_def add_producer_def
    by (intro yields_if yields_andthen yields_option yields_ret TrueI goes_modify add)
      (simp_all add: same_todo_def)
qed

lemma goes_enumerate:
  assumes l: "limits E (hints_below N H) N rank" and q: "NonTermination \<in> N \<Longrightarrow> request_below E q H"
  shows "enough N rank (Walk d) n \<Longrightarrow> goes E (hints_below N H) N (enumerateDIEs E q n d) (\<lambda>_. True)"
proof (induction n arbitrary: d)
  case 0
  then show ?case by (auto simp: yields_def dest: enough_0)
next
  case (Suc n)
  have "goes E (hints_below N H) N (enumerateDIEs E q n c) (\<lambda>_. True)" if "c \<in> set (children (e_dw E d))" for c
    by (rule Suc.IH) (rule enough_step [OF l Suc.prems needs_child [OF that]])
  then show ?case
    unfolding enumerateDIEs.simps
    by (intro yields_sbind [OF goes_examine [OF l Suc.prems q]] yields_if yields_forM yields_ret TrueI)
qed

section \<open>Hints\<close>

lemma hint_size:
  assumes "map_of (fieldHints spec) nm = Some h" and "hint_typename h = Some t"
  shows "size t < size spec"
proof -
  have "(nm, h) \<in> set (fieldHints spec)" using assms(1) by (rule map_of_SomeD)
  then have "size_hint_of size h < size spec"
    by (cases spec) (auto dest!: size_list_estimation' [where f = "size_prod (\<lambda>x. 0) (size_hint_of size)", OF _ order_refl])
  moreover have "size t < size_hint_of size h" using assms(2) by (cases h) auto
  ultimately show ?thesis by simp
qed

text \<open>Plenty of fuel: enough for every job.\<close>

definition plenty :: "pyexn set \<Rightarrow> (job \<Rightarrow> nat) \<Rightarrow> nat \<Rightarrow> bool" where
  "plenty N rank n = (\<forall>j. enough N rank j n)"

lemma plentyD: "plenty N rank n \<Longrightarrow> enough N rank j n" "plenty N rank n \<Longrightarrow> enough N rank j (Suc n)"
  "plenty N rank n \<Longrightarrow> enough_ref N rank x t n" "plenty N rank n \<Longrightarrow> enough_opt N rank x r n"
  "plenty N rank n \<Longrightarrow> plenty N rank (Suc n)"
proof -
  assume p: "plenty N rank n"
  then have e: "enough N rank j n" for j by (simp add: plenty_def)
  have e': "enough N rank j (Suc n)" for j using e [of j] by (auto simp: enough_def)
  show "enough N rank j n" "enough N rank j (Suc n)" by (fact e e')+
  have v: "NonTermination \<in> N \<longrightarrow> 1 \<le> n" using e [of "Find 0"] by (auto simp: enough_def)
  with e show "enough_ref N rank x t n" for t by (cases t) simp_all
  then show "enough_opt N rank x r n" by (simp add: enough_opt_def)
  show "plenty N rank (Suc n)" using e' by (simp add: plenty_def)
qed

lemma goes_dieToType': "limits E D N rank \<Longrightarrow> plenty N rank n \<Longrightarrow> goes E D N (dieToType E n d) (\<lambda>_. True)"
  by (rule yields_any, erule goes_dieToType) (rule plentyD)

lemma goes_hint_member:
  assumes l: "limits E (hints_below N H) N rank"
    and t: "goes E (hints_below N H) N (dieToType E n (DW_AT_type (e_dw E (m_die m)))) (\<lambda>_. True)"
    and h: "NonTermination \<in> N \<Longrightarrow> size spec \<le> H"
  shows "goes E (hints_below N H) N (hint_member E n (fieldHints spec) m) (\<lambda>m'. m_die m' = m_die m)"
proof -
  have sub: "NonTermination \<in> N \<Longrightarrow> size t < H"
    if "map_of (fieldHints spec) nm = Some x" "hint_typename x = Some t" for nm x t
    using hint_size [OF that] h by simp
  have keep: "m_die (setCType c m') = m_die m'" for c m' by (simp add: setCType_def)
  show ?thesis
    unfolding hint_member_def Let_def
    by (intro yields_option yields_ret yields_andthen yields_sbind [OF t] goes_applyHintToType TrueI refl)
      (auto simp: keep split: option.splits intro: sub)
qed

lemma goes_hint_members:
  assumes l: "limits E (hints_below N H) N rank" and n: "enough N rank (Op Defining k) (Suc n)"
    and h: "NonTermination \<in> N \<Longrightarrow> size spec \<le> H"
  shows "goes E (hints_below N H) N (hint_members E n k spec) (\<lambda>_. True)"
proof -
  have t: "goes E (hints_below N H) N (dieToType E n (DW_AT_type (e_dw E (m_die m)))) (\<lambda>_. True)"
    if "obj_ok E k ob" "m \<in> set (ob_members ob)" for ob m
    by (rule yields_any, rule field_enough [OF l n ok_member [OF that]])
  have ms: "goes E (hints_below N H) N (foldM (\<lambda>ms m. sbind (hint_member E n (fieldHints spec) m) (\<lambda>m. ret (ms @ [m]))) []
       (ob_members ob)) (\<lambda>ms. \<forall>m\<in>set ms. member_of E k (m_die m))"
    if "obj_ok E k ob" for ob
    by (rule yields_foldM, simp, rule yields_sbind [OF goes_hint_member [OF l t h]], rule that, assumption, assumption,
        rule yields_ret) (use that in \<open>auto simp: ok_member\<close>)
  show ?thesis
    unfolding hint_members_def
    by (intro yields_andthen goes_findMembers [OF l] goes_updobj [OF l] yields_sbind [OF goes_getobj [OF l]]
        yields_sbind [OF ms]) (simp_all add: obj_ok_def)
qed

lemma goes_apply_hints:
  assumes l: "limits E (hints_below N H) N rank" and h: "NonTermination \<in> N \<Longrightarrow> size spec \<le> H"
  shows "enough_ref N rank Defining t n \<Longrightarrow> goes E (hints_below N H) N (apply_hints E n t spec) (\<lambda>_. True)"
proof (induction n arbitrary: t)
  case 0
  then show ?case by (cases t) (auto simp: yields_def dest: enough_0)
next
  case (Suc n)
  show ?case
  proof (cases t)
    case VoidType
    then show ?thesis by (simp add: yields_def)
  next
    case (Obj k)
    with Suc.prems have n: "enough N rank (Op Defining k) (Suc n)" by simp
    have base: "goes E (hints_below N H) N (apply_hints E n u spec) (\<lambda>_. True)"
      if "base_ref E k (Some u)" "obj_ok E k ob" "ob_kind ob = KTypedef" for u ob
      by (rule Suc.IH, rule base_enough [OF l n that(1) ok_origin [OF that(2)]]) (simp add: that(3))
    show ?thesis
      unfolding Obj apply_hints.simps
      by (rule yields_sbind [OF goes_getobj [OF l]],
          intro yields_if goes_hint_members [OF l n h] yields_option yields_ret TrueI goes_updobj [OF l]
            yields_sbind [OF goes_baseType [OF l n]] base)
        (simp_all add: obj_ok_def)
  qed
qed

text \<open>Room for \<open>H\<close> rounds of hints.\<close>

definition room :: "pyexn set \<Rightarrow> (job \<Rightarrow> nat) \<Rightarrow> nat \<Rightarrow> nat \<Rightarrow> bool" where
  "room N rank H n = (NonTermination \<in> N \<longrightarrow> H < n \<and> (\<forall>i. n \<le> i + H + 1 \<longrightarrow> plenty N rank i))"

lemma room_plenty: "room N rank H n \<Longrightarrow> plenty N rank n"
  by (auto simp: room_def plenty_def enough_def)

text \<open>Each round of hints is smaller than the one before.\<close>

lemma apply_all_hints_in:
  assumes l: "limits E D N rank"
  shows "objs_ok E (hints_below N H) s \<Longrightarrow>
    room N rank H n \<Longrightarrow>
    res_in N (apply_all_hints E n s) (\<lambda>(_, s'). \<exists>H'. objs_ok E (hints_below N H') s')"
proof (induction n arbitrary: H s)
  case 0
  then show ?case by (auto simp: room_def)
next
  case (Suc n)
  note l' = limits_hints [OF l]
  show ?case
  proof (cases "applyHints s = []")
    case True
    with Suc.prems(1) show ?thesis by auto
  next
    case False
    define H1 where "H1 = H - 1"
    let ?s = "s\<lparr>applyHints := []\<rparr>"
    have small: "size (snd p) \<le> H1" "H1 < H" if "p \<in> set (applyHints s)" "NonTermination \<in> N" for p
      using Suc.prems(1) that by (fastforce simp: objs_ok_def hints_below_def H1_def)+
    have s: "objs_ok E (hints_below N H1) ?s"
      using Suc.prems(1) by (simp add: objs_ok_def hints_below_def)
    have p: "plenty N rank n"
      using Suc.prems(2) by (auto simp: plenty_def enough_def room_def)
    then have "enough_ref N rank Defining t n" for t by (rule plentyD)
    then have each: "goes E (hints_below N H1) N (forM (applyHints s) (\<lambda>(typ, hint). apply_hints E n typ hint)) (\<lambda>_. True)"
      by (intro yields_forM) (auto intro!: goes_apply_hints [OF l'] dest: small)
    show ?thesis
    proof (cases "forM (applyHints s) (\<lambda>(typ, hint). apply_hints E n typ hint) ?s")
      case (Inl e)
      with yields_Inl [OF each s Inl] False show ?thesis by (simp add: andthen_def sbind_def)
    next
      case (Inr r)
      obtain s2 where r: "r = ((), s2)" by (cases r) auto
      from yields_Inr [OF each s] Inr r have s2: "objs_ok E (hints_below N H1) s2" by blast
      obtain p where "p \<in> set (applyHints s)" using False by (cases "applyHints s") auto
      with small(2) [of p] Suc.prems(2) have "room N rank H1 n" by (auto simp: room_def H1_def)
      from Suc.IH [OF s2 this] Inr r False show ?thesis by (simp add: andthen_def sbind_def)
    qed
  qed
qed

lemma goes_register_hint:
  assumes "\<And>h. h = snd nh \<Longrightarrow> NonTermination \<in> N \<Longrightarrow> size h < H"
  shows "goes E (hints_below N H) N (register_hint nh) (\<lambda>_. True)"
proof -
  obtain name h where nh: "nh = (name, h)" by force
  with assms have "NonTermination \<in> N \<Longrightarrow> size h < H" by simp
  then show ?thesis
    unfolding register_hint_def nh prod.case
    by (intro yields_sbind [OF yields_gets [where Q = "\<lambda>_. True"]] yields_if yields_forM goes_errorfunc
        goes_applyHintToType yields_ret TrueI)
qed

lemma init_in:
  assumes l: "limits E D N rank" and q: "NonTermination \<in> N \<Longrightarrow> request_below E q H" and n: "room N rank H n"
  shows "res_in N (init_resolver E q n s) (\<lambda>(_, s'). \<exists>H'. objs_ok E (hints_below N H') s')"
proof -
  note l' = limits_hints [OF l, of H]
  let ?pre = "andthen (forM (q_roots q) (enumerateDIEs E q n)) (forM (hintsByTypename (q_types q)) register_hint)"
  have pre: "goes E (hints_below N H) N ?pre (\<lambda>_. True)"
    by (intro yields_andthen yields_forM goes_enumerate [OF l' q] plentyD(1) [OF room_plenty [OF n]]
        goes_register_hint) (use q in \<open>auto simp: request_below_def\<close>)
  have s0: "objs_ok E (hints_below N H) (start_state q)"
    by (simp add: objs_ok_def start_state_def rstate0_def hints_below_def)
  have eq: "init_resolver E q n s = andthen ?pre (apply_all_hints E n) (start_state q)"
    by (simp add: init_resolver_def andthen_def sbind_assoc)
  show ?thesis
  proof (cases "?pre (start_state q)")
    case (Inl e)
    with yields_Inl [OF pre s0] show ?thesis unfolding eq by (simp add: andthen_run)
  next
    case (Inr r)
    obtain s1 where "r = ((), s1)" by (cases r) auto
    with Inr yields_Inr [OF pre s0] apply_all_hints_in [OF l _ n] show ?thesis
      unfolding eq by (simp add: andthen_run)
  qed
qed

section \<open>The writer\<close>

lemma run_in: "limits E D N rank \<Longrightarrow> plenty N rank n \<Longrightarrow> goes E D N (run E n (DefineType t)) (\<lambda>_. True)"
  by (rule goes_define [OF runs_ok plentyD(4)])

lemma goes_ctype': "limits E D N rank \<Longrightarrow> plenty N rank n \<Longrightarrow> goes E D N (ctype E n t) (\<lambda>_. True)"
  by (rule goes_ctype [OF _ plentyD(3)])

lemma goes_not_found: "limits E D N rank \<Longrightarrow> goes E D N (not_found what name) (\<lambda>_. True)"
  unfolding not_found_def
  by (auto split: list.split intro!: goes_errorfunc yields_raise simp: limits_exn simp del: raise_run)

lemma goes_define_variables:
  assumes l: "limits E D N rank" and n: "plenty N rank n"
  shows "goes E D N (define_variables E n) (\<lambda>_. True)"
  unfolding define_variables_def
  by (intro yields_sbind [OF yields_gets [where Q = "\<lambda>_. True"]] yields_forM yields_prod yields_option
      goes_not_found [OF l] yields_sbind [OF goes_dieToType' [OF l n]] yields_andthen run_in [OF l n] yields_ret TrueI)

lemma goes_define_found:
  assumes l: "limits E D N rank" and n: "plenty N rank n"
  shows "goes E D N (sbind (getobj k) (\<lambda>ob. andthen (define_obj E n (\<lambda>c. run E n c) k (ob_kind ob)) (ret ()))) (\<lambda>_. True)"
  by (intro yields_sbind [OF goes_getobj [OF l]] yields_andthen yields_ret TrueI
      goes_define_obj [OF l plentyD(2) [OF n] runs_ok [OF l]]) (rule ok_origin)

lemma goes_define_functions:
  assumes l: "limits E D N rank" and n: "plenty N rank n"
  shows "goes E D N (define_functions E n) (\<lambda>_. True)"
proof -
  have "goes E D N (case t of VoidType \<Rightarrow> ret () | Obj k \<Rightarrow>
      sbind (getobj k) (\<lambda>ob. andthen (define_obj E n (\<lambda>c. run E n c) k (ob_kind ob)) (ret ()))) (\<lambda>_. True)" for t
    by (cases t) (simp_all only: tref.case goes_define_found [OF l n] yields_ret)
  then show ?thesis
    unfolding define_functions_def
    by (intro yields_sbind [OF yields_gets [where Q = "\<lambda>_. True"]] yields_forM yields_prod yields_option
        goes_not_found [OF l] yields_sbind [OF goes_dieToType' [OF l n]] TrueI)
qed

lemma goes_hint_aliases:
  assumes l: "limits E D N rank" and n: "plenty N rank n"
  shows "goes E D N (hint_aliases E n) (\<lambda>_. True)"
proof -
  have sort: "res_in N (sort_hinted E s hs) (\<lambda>_. True)" for s hs
    by (simp add: sort_hinted_def limits_exn [OF l])
  show ?thesis
    unfolding hint_aliases_def
    by (intro yields_sbind [OF yields_gets [where Q = "\<lambda>r. res_in N r (\<lambda>_. True)"]] sort
        yields_sbind [OF yields_lift] yields_foldM yields_prod yields_sbind [OF goes_ctype' [OF l n]]
        yields_if yields_ret TrueI)
qed

lemma goes_write_globals:
  assumes l: "limits E D N rank" and n: "plenty N rank n"
  shows "goes E D N (write_globals E n) (\<lambda>_. True)"
  unfolding write_globals_def
  by (intro yields_sbind [OF yields_gets [where Q = "\<lambda>_. True"]] yields_foldM yields_prod yields_option
      yields_ret TrueI yields_sbind [OF goes_dieToType' [OF l n]] yields_sbind [OF goes_ctype' [OF l n]])

lemma goes_lib_updates:
  assumes l: "limits E D N rank" and n: "plenty N rank n"
  shows "goes E D N (writeLibUpdates E H n k) (\<lambda>_. True)"
proof -
  have opt: "goes E D N (case b of None \<Rightarrow> ret ''None'' | Some b \<Rightarrow> ctype E n b) (\<lambda>_. True)" for b
    by (intro yields_option yields_ret TrueI goes_ctype' [OF l n])
  have args: "goes E D N (foldM (\<lambda>args child.
            sbind (dieToType E n (DW_AT_type (e_dw E child))) (\<lambda>t.
            sbind (ctype E n t) (\<lambda>ct. ret (args @ [ct])))) [] ps) (\<lambda>_. True)" for ps
    by (intro yields_foldM TrueI yields_sbind [OF goes_dieToType' [OF l n]]
        yields_sbind [OF goes_ctype' [OF l n]] yields_ret)
  have one: "goes E D N (lib_update E n ob base ln) (\<lambda>_. True)" for ob base ln
    unfolding lib_update_def
    by (intro yields_if yields_andthen goes_errorfunc yields_ret TrueI yields_sbind [OF opt] yields_sbind [OF args])
  show ?thesis
    unfolding writeLibUpdates_def
    by (intro yields_sbind [OF goes_getobj [OF l]] yields_if yields_raise limits_exn [OF l]
        yields_sbind [OF goes_baseType [OF l plentyD(2) [OF n]]] yields_foldM TrueI yields_sbind [OF one] yields_ret)
qed

lemma goes_write_functions:
  assumes l: "limits E D N rank" and n: "plenty N rank n"
  shows "goes E D N (write_functions E H n) (\<lambda>_. True)"
proof -
  have one: "goes E D N (case t of
             VoidType \<Rightarrow> raise (PyException ''writeLibUpdates not supported for this type'')
           | Obj k \<Rightarrow>
               sbind (writeLibUpdates E H n k) (\<lambda>us.
               sbind (type_pyName E t True) (\<lambda>name.
               sbind (ctype E n t) (\<lambda>proto.
               ret (fst acc @ us, dict_set name proto (snd acc)))))) (\<lambda>_. True)"
    for t and acc :: "(string \<times> string \<times> string list) list \<times> (string \<times> string) list"
    by (cases t; simp only: tref.case;
      intro yields_raise limits_exn [OF l] yields_sbind [OF goes_lib_updates [OF l n]]
        yields_sbind [OF goes_type_name(2) [OF l]] yields_sbind [OF goes_ctype' [OF l n]] yields_ret TrueI)
  show ?thesis
    unfolding write_functions_def
    by (intro yields_sbind [OF yields_gets [where Q = "\<lambda>_. True"]] yields_foldM TrueI yields_prod yields_option
        yields_ret yields_sbind [OF goes_dieToType' [OF l n]] one)
qed

abbreviation (input) any_todo :: todo where "any_todo \<equiv> \<lambda>ks hs. True"

lemma goes_define_one: "limits E D N rank \<Longrightarrow> plenty N rank n \<Longrightarrow> goes E D N (define_one E n k) (\<lambda>_. True)"
  unfolding define_one_def by (intro yields_andthen run_in yields_ret TrueI)

text \<open>Without \<open>deepInspect\<close> defining types collects no more of them, so there is one round.\<close>

lemma define_types_once:
  assumes l: "limits E any_todo N rank" and nd: "\<not> e_deepInspect E"
    and n: "2 \<le> n" "plenty N rank (n - 1)" and s: "objs_ok E any_todo s"
  shows "res_in N (define_types E n s) (\<lambda>(_, s'). objs_ok E any_todo s')"
proof -
  from n(1) obtain m where m: "n = Suc (Suc m)" by (metis One_nat_def Suc_1 Suc_le_D not_less_eq_eq old.nat.exhaust)
  let ?none = "\<lambda>(ks :: key list) (hs :: (tref \<times> pytype) list). ks = []"
  have l': "limits E ?none N rank" using limits_todo [OF l] nd by blast
  have each: "goes E ?none N (forM ts (define_one E (Suc m))) (\<lambda>_. True)" for ts
    by (intro yields_forM goes_define_one [OF l']) (use n m in simp)
  let ?s = "s\<lparr>defineTypes := []\<rparr>" and ?ts = "sorted_types E s"
  have s1: "objs_ok E ?none ?s" using s by (simp add: objs_ok_def)
  show ?thesis
  proof (cases "?ts = []")
    case True
    then show ?thesis using s1 by (simp add: m andthen_def objs_ok_def)
  next
    case False
    show ?thesis
    proof (cases "forM ?ts (define_one E (Suc m)) ?s")
      case (Inl e)
      with yields_Inl [OF each s1] False show ?thesis by (simp add: m andthen_def sbind_run_Inl)
    next
      case (Inr r)
      obtain s2 where "r = ((), s2)" by (cases r) auto
      with Inr yields_Inr [OF each s1] False show ?thesis
        by (simp add: m andthen_def sbind_run_Inr objs_ok_def sorted_types_def)
    qed
  qed
qed

text \<open>With it, every round but the last defines a pointer that was not defined before.\<close>

lemma define_types_rounds:
  assumes l: "limits E any_todo N rank" and KS: "pointers_in E KS"
  shows "objs_ok E any_todo s \<Longrightarrow> left_ptrs KS s + 2 \<le> n \<Longrightarrow>
    (\<forall>i. n \<le> i + left_ptrs KS s + 2 \<longrightarrow> plenty N rank i) \<Longrightarrow>
    res_in N (define_types E n s) (\<lambda>(_, s'). objs_ok E any_todo s')"
proof (induction n arbitrary: s)
  case (Suc n)
  let ?s = "s\<lparr>defineTypes := []\<rparr>" and ?ts = "sorted_types E s"
  have s1: "objs_ok E any_todo ?s" using Suc.prems(1) by (simp add: objs_ok_def)
  have p: "plenty N rank n" using Suc.prems(3) by simp
  show ?case
  proof (cases "?ts = []")
    case True
    then show ?thesis using s1 by (simp add: andthen_def)
  next
    case False
    have each: "goes E any_todo N (forM ?ts (define_one E n)) (\<lambda>_. True)"
      by (intro yields_forM goes_define_one [OF l p])
    show ?thesis
    proof (cases "forM ?ts (define_one E n) ?s")
      case (Inl e)
      with yields_Inl [OF each s1] False show ?thesis by (simp add: andthen_def sbind_run_Inl)
    next
      case (Inr r)
      obtain s2 where r: "r = ((), s2)" by (cases r) auto
      with yields_Inr [OF each s1] Inr have s2: "objs_ok E any_todo s2" by blast
      have run: "define_types E (Suc n) s = define_types E n s2"
        using Inr r False by (simp add: andthen_def sbind_run_Inr)
      have "keeps advances (forM ?ts (define_one E n))" by (intro adv.keeps_forM adv_define_one)
      then have adv: "advances ?s s2" using Inr r by (auto dest: keepsD)
      have d: "done_ptrs ?s = done_ptrs s" by (simp add: done_ptrs_def)
      show ?thesis
      proof (cases "defineTypes s2 = []")
        case True
        with Suc.prems(2) obtain m where "n = Suc m" by (cases n) auto
        with True s2 run show ?thesis by (simp add: andthen_def sorted_types_def objs_ok_def)
      next
        case False
        with adv d have "done_ptrs s \<subset> done_ptrs s2" by (auto simp: advances_def)
        then have less: "left_ptrs KS s2 < left_ptrs KS s" by (rule left_ptrs_less [OF KS s2])
        show ?thesis unfolding run
          by (rule Suc.IH [OF s2]) (use less Suc.prems(2,3) in auto)
      qed
    qed
  qed
qed simp

text \<open>Fuel for the rounds.\<close>

definition rounds :: "env \<Rightarrow> key list \<Rightarrow> pyexn set \<Rightarrow> (job \<Rightarrow> nat) \<Rightarrow> nat \<Rightarrow> bool" where
  "rounds E KS N rank n = (NonTermination \<in> N \<longrightarrow>
     (if e_deepInspect E then pointers_in E KS \<and> room N rank (Suc (length KS)) n else room N rank 0 n))"

lemma room_rest: "room N rank H n \<Longrightarrow> NonTermination \<in> N \<Longrightarrow> 2 \<le> n \<and> plenty N rank (n - 1)"
proof -
  assume r: "room N rank H n" and N: "NonTermination \<in> N"
  then have "plenty N rank (n - 1)" by (simp add: room_def)
  moreover from this have "enough N rank (Find 0) (n - 1)" by (rule plentyD)
  with N have "2 \<le> n" by (simp add: enough_def)
  ultimately show ?thesis by blast
qed

lemma goes_define_types:
  assumes l: "limits E any_todo N rank" and n: "rounds E KS N rank n"
  shows "goes E any_todo N (define_types E n) (\<lambda>_. True)"
proof (cases "NonTermination \<in> N")
  case False
  then have p: "plenty N rank i" for i by (simp add: plenty_def enough_def)
  show ?thesis
  proof (induction n)
    case 0
    with False show ?case by (simp add: yields_def)
  next
    case (Suc n)
    have reset: "goes E any_todo N (modify (\<lambda>s. s\<lparr>defineTypes := []\<rparr>)) (\<lambda>_. True)"
      by (rule yields_modify) (simp add: objs_ok_def)
    show ?case
      unfolding define_types.simps
      by (intro yields_sbind [OF yields_gets [where Q = "\<lambda>_. True"]] yields_andthen reset yields_if yields_ret
          yields_forM goes_define_one [OF l p] Suc TrueI)
  qed
next
  case True
  show ?thesis
  proof (rule yieldsI)
    fix s assume s: "objs_ok E any_todo s"
    have "res_in N (define_types E n s) (\<lambda>(_, s'). objs_ok E any_todo s')"
    proof (cases "e_deepInspect E")
      case False
      with n True room_rest [of N rank 0 n] show ?thesis
        by (intro define_types_once [OF l False _ _ s]) (simp_all add: rounds_def)
    next
      case deep: True
      with n True have KS: "pointers_in E KS" and r: "room N rank (Suc (length KS)) n" by (simp_all add: rounds_def)
      show ?thesis
      proof (rule define_types_rounds [OF l KS s])
        show "left_ptrs KS s + 2 \<le> n" using r True left_ptrs_le [of KS s] by (simp add: room_def)
        show "\<forall>i. n \<le> i + left_ptrs KS s + 2 \<longrightarrow> plenty N rank i"
        proof (intro allI impI)
          fix i assume "n \<le> i + left_ptrs KS s + 2"
          then have "n \<le> i + Suc (length KS) + 1" using left_ptrs_le [of KS s] by simp
          with r True show "plenty N rank i" by (simp add: room_def)
        qed
      qed
    qed
    then show "res_in N (define_types E n s) (\<lambda>(_, s'). objs_ok E any_todo s' \<and> True)" by simp
  qed
qed

lemma goes_write_module:
  assumes l: "limits E any_todo N rank"
    and n: "plenty N rank n" "rounds E KS N rank n"
  shows "goes E any_todo N (write_module E H n) (\<lambda>_. True)"
proof -
  have g: "goes E any_todo N (gets f) (\<lambda>_. True)" for f :: "rstate \<Rightarrow> 'b" by (rule yields_gets) simp
  show ?thesis
    unfolding write_module_def
    by (intro yields_andthen goes_define_variables [OF l n(1)] goes_define_functions [OF l n(1)]
        goes_define_types [OF l n(2)] yields_sbind [OF goes_hint_aliases [OF l n(1)]] yields_sbind [OF g]
        yields_sbind [OF goes_write_globals [OF l n(1)]] yields_sbind [OF goes_write_functions [OF l n(1)]]
        yields_prod yields_ret TrueI)
qed

lemma generator_in:
  assumes l: "limits E any_todo N rank" and q: "NonTermination \<in> N \<Longrightarrow> request_below E q H"
    and n: "room N rank H n" "rounds E KS N rank n"
  shows "res_in N (andthen (init_resolver E q n) (write_module E hst n) s) (\<lambda>_. True)"
proof (cases "init_resolver E q n s")
  case (Inl e)
  with init_in [OF l q n(1), of s] show ?thesis by (simp add: andthen_run)
next
  case (Inr r)
  obtain s1 where r: "r = ((), s1)" by (cases r) auto
  with Inr init_in [OF l q n(1), of s] have s1: "objs_ok E any_todo s1" by (auto simp: objs_ok_def)
  have "goes E any_todo N (write_module E hst n) (\<lambda>_. True)"
    by (rule goes_write_module [OF l room_plenty [OF n(1)] n(2)])
  from yieldsD [OF this s1] have "res_in N (write_module E hst n s1) (\<lambda>_. True)"
    by (rule res_in_weaken) simp
  with Inr r show ?thesis by (simp add: andthen_run)
qed

section \<open>Properties\<close>

text \<open>C12: whatever is asked for and whatever the debug data holds, the generator never fails the
  assertion that the alignment of a member is a multiple of the largest alignment so far: every
  alignment it finds or records is zero or a power of two up to 16.\<close>

theorem assertion_never_fails:
  assumes "e_psz E = 4 \<or> e_psz E = 8"
  shows "andthen (init_resolver E q n) (write_module E H n) s \<noteq> Inl AssertionError"
proof -
  have "res_in {AssertionError} (andthen (init_resolver E q n) (write_module E H n) s) (\<lambda>_. True)"
    by (rule generator_in [where rank = "\<lambda>_. 0" and H = 0 and KS = "[]"])
      (use assms in \<open>simp_all add: limits_def room_def rounds_def\<close>)
  then show ?thesis by (cases "andthen (init_resolver E q n) (write_module E H n) s") auto
qed

theorem assertion_never_fails_witness:
  "andthen (init_resolver (ex_env ex_node) ex_request 9) (write_module (ex_env ex_node) ex_host 9) rstate0
    \<noteq> Inl AssertionError"
  by (rule assertion_never_fails) (simp add: ex_env_def)

text \<open>C11: the generator does not run on.  If some rank falls from each recursive computation to
  those it starts (there is none if a structure contains itself through a function or an array
  behind a pointer, on which the code does recurse for ever), and bit fields have a storage unit, then
  a whole run, from the walk to the module, returns or raises an exception of Python, with fuel beyond
  the rank and the depth of the hints; if types are looked for through pointers (\<open>deepInspect\<close>), with
  as much more as there are pointer types.\<close>

theorem generation_returns:
  assumes "graded E rank" and "\<forall>j. rank j \<le> B" and "storage_ok E" and "e_psz E = 4 \<or> e_psz E = 8"
    and "request_below E q H" and "B + H + 3 \<le> n"
    and "e_deepInspect E \<Longrightarrow> pointers_in E KS \<and> B + length KS + 4 \<le> n"
  shows "andthen (init_resolver E q n) (write_module E hst n) s \<noteq> Inl NonTermination"
proof -
  have l: "limits E any_todo {NonTermination} rank" using assms by (simp add: limits_def)
  have room: "room {NonTermination} rank K n" if "B + K + 3 \<le> n" for K
  proof -
    have "rank j + 2 \<le> i" if "n \<le> i + K + 1" for i j
    proof -
      have "rank j \<le> B" using assms(2) by blast
      with that \<open>B + K + 3 \<le> n\<close> show ?thesis by simp
    qed
    with that show ?thesis by (simp add: room_def plenty_def enough_def)
  qed
  then have "rounds E KS {NonTermination} rank n"
    using assms(6,7) by (auto simp: rounds_def intro!: room)
  with assms(5) have "res_in {NonTermination} (andthen (init_resolver E q n) (write_module E hst n) s) (\<lambda>_. True)"
    by (intro generator_in [OF l _ room [OF assms(6)]]) simp_all
  then show ?thesis by (cases "andthen (init_resolver E q n) (write_module E hst n) s") auto
qed

text \<open>\<open>struct n { struct n *next; void ( *visit )( struct n * ); };\<close> in a unit.\<close>

definition ex_list :: dwarf where
  "ex_list = (\<lambda>_. mk_die 0 [])
     (0 := (mk_die DW_TAG_compile_unit [])\<lparr>children := [8]\<rparr>,
      8 := (mk_die DW_TAG_structure_type [''n''])\<lparr>DW_AT_byte_size := Some 16, children := [2, 4]\<rparr>,
      2 := (mk_die DW_TAG_member [''next''])\<lparr>DW_AT_type := Some 3, DW_AT_data_member_location := Some 0\<rparr>,
      3 := (mk_die DW_TAG_pointer_type [''p3''])\<lparr>DW_AT_type := Some 8, DW_AT_byte_size := Some 8\<rparr>,
      4 := (mk_die DW_TAG_member [''visit''])\<lparr>DW_AT_type := Some 5, DW_AT_data_member_location := Some 8\<rparr>,
      5 := (mk_die DW_TAG_pointer_type [''p5''])\<lparr>DW_AT_type := Some 6, DW_AT_byte_size := Some 8\<rparr>,
      6 := (mk_die DW_TAG_subroutine_type [''f6''])\<lparr>children := [7]\<rparr>,
      7 := (mk_die DW_TAG_formal_parameter [''a''])\<lparr>DW_AT_type := Some 3\<rparr>)"

abbreviation (input) listE :: env where "listE \<equiv> (ex_env ex_list)\<lparr>e_deepInspect := True\<rparr>"

text \<open>The level of a type by its name: the structure, what points to it, the function, the rest.\<close>

definition ex_level :: "op \<Rightarrow> string \<Rightarrow> nat" where
  "ex_level x nm = (if nm = ''n'' then (if x = Defining then 5 else 0)
     else if List.member [''next'', ''p3'', ''a''] nm then 1
     else if nm = ''f6'' then (if x = Declaring then 3 else 2)
     else if List.member [''visit'', ''p5''] nm then 4 else 0)"

definition key_label :: "key \<Rightarrow> string" where
  "key_label k = last ([] # key_name k)"

fun ex_rank :: "job \<Rightarrow> nat" where
  "ex_rank (Op x k) = ex_level x (key_label k)"
| "ex_rank (Find d) = 0"
| "ex_rank (Empty d) = 0"
| "ex_rank (Follow d) = (if d = 2 \<or> d = 4 \<or> d = 7 then 2 else if d = 3 \<or> d = 5 then 1 else 0)"
| "ex_rank (Walk d) = (if d = 0 then 5 else if d = 8 then 4 else if d = 6 then 2 else 1)"

lemma ex_list_simps:
  "e_dw listE = ex_list" "e_deepInspect listE" "e_psz listE = 8" "external_module listE d = None"
  "def_die listE d = d"
  by (simp_all add: ex_env_def external_module_def def_die_def ex_list_def mk_die_def)

lemma ex_list_types: "DW_AT_type (ex_list d) =
    (if d = 2 \<or> d = 7 then Some 3 else if d = 3 then Some 8 else if d = 4 then Some 5 else if d = 5 then Some 6 else None)"
  by (simp add: ex_list_def mk_die_def)

lemma ex_list_kinds: "typeFromTag (dtag (ex_list d)) =
    (if d = 8 then Some KStruct else if d = 3 \<or> d = 5 then Some KPointer else if d = 6 then Some KFunction else None)"
proof -
  have "typeFromTag DW_TAG_structure_type = Some KStruct" "typeFromTag DW_TAG_pointer_type = Some KPointer"
    "typeFromTag DW_TAG_subroutine_type = Some KFunction" "typeFromTag DW_TAG_member = None"
    "typeFromTag DW_TAG_formal_parameter = None" "typeFromTag DW_TAG_compile_unit = None" "typeFromTag 0 = None"
    by (simp_all add: typeFromTag_def)
  then show ?thesis
    by (simp add: ex_list_def mk_die_def)
qed

lemma ex_list_known:
  "known_entry ex_list d =
    (if d = 8 then Inr (8, KStruct) else if d = 2 \<or> d = 3 \<or> d = 7 then Inr (3, KPointer)
     else if d = 4 \<or> d = 5 then Inr (5, KPointer) else if d = 6 then Inr (6, KFunction) else Inl AttributeError)"
proof -
  have base: "known_entry ex_list 8 = Inr (8, KStruct)" "known_entry ex_list 3 = Inr (3, KPointer)"
    "known_entry ex_list 5 = Inr (5, KPointer)" "known_entry ex_list 6 = Inr (6, KFunction)"
    by (simp_all add: known_entry_simps(1) ex_list_kinds)
  show ?thesis
  proof (cases "typeFromTag (dtag (ex_list d))")
    case None
    from known_entry_simps(2) [of ex_list d, OF this] None base show ?thesis
      by (simp add: ex_list_types ex_list_kinds split: if_splits)
  next
    case (Some kd)
    from known_entry_simps(1) [of ex_list d, OF this] Some show ?thesis
      by (auto simp: ex_list_kinds split: if_splits)
  qed
qed

lemma ex_list_names: "last ([] # fullname (ex_list d)) =
    (if d = 8 then ''n'' else if d = 2 then ''next'' else if d = 3 then ''p3'' else if d = 4 then ''visit''
     else if d = 5 then ''p5'' else if d = 6 then ''f6'' else if d = 7 then ''a'' else [])"
  by (simp add: ex_list_def mk_die_def)

lemma ex_list_label: "key_label (key_of listE d) =
    (if d = 8 then ''n'' else if d = 2 then ''next'' else if d = 3 then ''p3'' else if d = 4 then ''visit''
     else if d = 5 then ''p5'' else if d = 6 then ''f6'' else if d = 7 then ''a'' else [])"
  unfolding key_label_def key_of_def key.sel ex_list_simps by (rule ex_list_names)

lemma ex_list_plain: "dtag (ex_list d) \<noteq> DW_TAG_inheritance" "DW_AT_bit_size (ex_list d) = None"
  "dtag (ex_list 7) = DW_TAG_formal_parameter"
  by (simp_all add: ex_list_def mk_die_def)

lemma ex_list_children: "children (ex_list d) =
    (if d = 0 then [8] else if d = 8 then [2, 4] else if d = 6 then [7] else [])"
  by (simp add: ex_list_def mk_die_def)

lemma ex_list_origin:
  assumes "origin listE k i kd"
  shows "(i = 8 \<and> kd = KStruct \<and> key_label k = ''n'')
    \<or> (i = 3 \<and> kd = KPointer \<and> List.member [''next'', ''p3'', ''a''] (key_label k))
    \<or> (i = 5 \<and> kd = KPointer \<and> List.member [''visit'', ''p5''] (key_label k))
    \<or> (i = 6 \<and> kd = KFunction \<and> key_label k = ''f6'')"
proof -
  from assms obtain d where d: "k = key_of listE d" "known_entry ex_list d = Inr (i, kd)"
    by (auto simp: origin_def ex_list_simps)
  then show ?thesis by (auto simp: ex_list_known ex_list_label split: if_splits)
qed

lemma ex_list_member: "member_of listE k m \<Longrightarrow> key_label k = ''n'' \<and> (m = 2 \<or> m = 4)"
proof -
  assume "member_of listE k m"
  then obtain i kd where o: "origin listE k i kd" and m: "m \<in> set (member_dies listE i)"
    by (auto simp: member_of_def entry_of_def ex_list_simps)
  from m have "m \<in> set (children (ex_list i))" by (auto simp: member_dies_def ex_list_simps)
  moreover have "i \<noteq> 6 \<or> m \<noteq> 7" using m by (auto simp: member_dies_def ex_list_simps ex_list_plain)
  ultimately show ?thesis using ex_list_origin [OF o] by (auto simp: ex_list_children split: if_splits)
qed

lemma ex_list_base:
  assumes "origin listE k i kd" and "DW_AT_type (e_dw listE (def_die listE i)) = Some b"
  shows "(List.member [''next'', ''p3'', ''a''] (key_label k) \<and> b = 8) \<or> (List.member [''visit'', ''p5''] (key_label k) \<and> b = 6)"
  using ex_list_origin [OF assms(1)] assms(2) by (auto simp: ex_list_simps ex_list_types split: if_splits)

lemma ex_list_pointers:
  "origin listE k i kd \<Longrightarrow> List.member [''next'', ''p3'', ''a'', ''visit'', ''p5''] (key_label k) \<Longrightarrow> kd = KPointer"
  by (drule ex_list_origin) auto

lemma ex_list_graded: "graded listE ex_rank"
  unfolding graded_def
proof (intro allI impI)
  fix a b assume "needs listE a b"
  then show "ex_rank b < ex_rank a"
  proof cases
    case (needs_type d t)
    then show ?thesis by (auto simp: ex_list_simps ex_list_types split: if_splits)
  next
    case (needs_typedef d i t)
    then show ?thesis by (auto simp: ex_list_simps ex_list_known split: if_splits)
  next
    case (needs_base k i kd b x)
    from ex_list_base [OF needs_base(3,4)] needs_base(1,2) show ?thesis by (auto simp: ex_level_def)
  next
    case (needs_pass k i kd i' kd' b x y)
    from ex_list_base [OF needs_pass(3,5)] ex_list_pointers [OF needs_pass(4)] have "kd' = KPointer" by auto
    with ex_list_base [OF needs_pass(3,5)] needs_pass show ?thesis
      by (cases x) (auto simp: ex_list_label ex_level_def)
  next
    case (needs_again k i kd x y)
    with ex_list_origin [OF needs_again(3)] show ?thesis
      by (cases x) (auto simp: ex_level_def quals_def split: if_splits)
  next
    case (needs_param k i kd' i' kd p t x)
    with ex_list_origin [OF needs_param(2)] ex_list_origin [OF needs_param(3)] show ?thesis
      by (auto simp: params_def ex_list_simps ex_list_children ex_list_types ex_list_label ex_level_def funcs_def split: if_splits)
  next
    case (needs_member k m)
    with ex_list_member [OF needs_member(2)] show ?thesis by (auto simp: ex_level_def)
  next
    case (needs_field k m t y)
    with ex_list_member [OF needs_field(2)] show ?thesis
      by (auto simp: ex_list_simps ex_list_types ex_list_label ex_level_def)
  next
    case (needs_super m t)
    then show ?thesis by (simp add: ex_list_simps ex_list_plain)
  next
    case (needs_super_typedef m t i u)
    with ex_list_origin [OF needs_super_typedef(5)] show ?thesis by auto
  next
    case (needs_super_members m t m')
    then show ?thesis by (simp add: ex_list_simps ex_list_plain)
  next
    case (needs_entry d)
    then show ?thesis by simp
  next
    case (needs_child c d)
    then show ?thesis by (auto simp: ex_list_simps ex_list_children split: if_splits)
  qed
qed

lemma ex_list_pointers_in: "pointers_in listE (map (key_of listE) [2, 3, 4, 5, 7])"
  unfolding pointers_in_def
proof (intro allI impI)
  fix k i assume "origin listE k i KPointer"
  then obtain d where "k = key_of listE d" "known_entry ex_list d = Inr (i, KPointer)"
    unfolding origin_def by (auto simp: ex_list_simps)
  then show "List.member (map (key_of listE) [2, 3, 4, 5, 7]) k"
    by (auto simp: ex_list_known split: if_splits)
qed

theorem generation_returns_witness:
  "andthen (init_resolver listE \<lparr>q_types = TypesFilter (\<lambda>_. Take), q_functions = NoNames, q_globals = NoNames,
      q_namespace = None, q_roots = [0]\<rparr> 14) (write_module listE ex_host 14) rstate0 \<noteq> Inl NonTermination"
proof (rule generation_returns [OF ex_list_graded, where B = 5 and H = 0])
  show "\<forall>j. ex_rank j \<le> 5"
  proof
    fix j show "ex_rank j \<le> 5" by (cases j) (auto simp: ex_level_def)
  qed
  show "storage_ok listE" by (simp add: storage_ok_def ex_list_simps ex_list_plain)
  show "request_below listE \<lparr>q_types = TypesFilter (\<lambda>_. Take), q_functions = NoNames, q_globals = NoNames,
      q_namespace = None, q_roots = [0]\<rparr> 0"
    by (simp add: request_below_def typesFilter_def hintsByTypename_def)
  show "pointers_in listE (map (key_of listE) [2, 3, 4, 5, 7])
      \<and> 5 + length (map (key_of listE) [2, 3, 4, 5, 7]) + 4 \<le> 14"
    using ex_list_pointers_in by simp
qed (simp_all add: ex_list_simps)

end
