(* ===== verification/TypeSizes.thy ===== *)
theory TypeSizes
  imports Origins
begin

text \<open>
  What the \<open>ctypes\<close> expression of a type denotes.  \<open>texpr\<close> is the abstract syntax of the expressions
  that the methods \<open>ctype\<close> write; the theorem is that an expression has the size that the debug data
  gives the type it was written for.
\<close>

section \<open>Type expressions\<close>

datatype texpr =
  Name string | Times texpr int | Paren texpr | Pointer texpr | Func string | Qual string texpr

fun print_expr :: "texpr \<Rightarrow> string" where
  "print_expr (Name n) = n"
| "print_expr (Times e d) = print_expr e @ '' * '' @ show_int d"
| "print_expr (Paren e) = ''('' @ print_expr e @ '')''"
| "print_expr (Pointer e) = ''POINTER( '' @ print_expr e @ '' )''"
| "print_expr (Func args) = ''CFUNCTYPE( '' @ args @ '')''"
| "print_expr (Qual q e) = q @ ''( '' @ print_expr e @ '' )''"

text \<open>\<open>ctypes.sizeof\<close>, where \<open>names\<close> are the sizes of the types the module knows by name and \<open>psz\<close> is
  that of a pointer; \<open>CONST\<close> and its like are the identity (\<open>CTypeGenRun.py\<close>).\<close>

fun expr_size :: "(string \<Rightarrow> int option) \<Rightarrow> int \<Rightarrow> texpr \<Rightarrow> int option" where
  "expr_size names psz (Name n) = names n"
| "expr_size names psz (Times e d) = map_option (\<lambda>z. z * d) (expr_size names psz e)"
| "expr_size names psz (Paren e) = expr_size names psz e"
| "expr_size names psz (Pointer e) = Some psz"
| "expr_size names psz (Func args) = Some psz"
| "expr_size names psz (Qual q e) = expr_size names psz e"

section \<open>Primitive types\<close>

text \<open>The sizes of the types of \<open>ctypes\<close>, and of the types of C by the ABI, on 64 bit Linux.\<close>

definition ctypes_sizes :: "(string \<times> int) list" where
  "ctypes_sizes = [(''c_bool'', 1), (''c_char'', 1), (''c_byte'', 1), (''c_ubyte'', 1), (''c_short'', 2),
     (''c_ushort'', 2), (''c_int'', 4), (''c_uint'', 4), (''c_long'', 8), (''c_ulong'', 8), (''c_longlong'', 8),
     (''c_ulonglong'', 8), (''c_float'', 4), (''c_double'', 8), (''c_longdouble'', 16), (''c_wchar'', 4),
     (''c_void_p'', 8), (''c_char_p'', 8)]"

definition abi_sizes :: "(string \<times> int) list" where
  "abi_sizes = [(''long long unsigned int'', 8), (''unsigned long long'', 8), (''long long int'', 8),
     (''long long'', 8), (''long unsigned int'', 8), (''unsigned long'', 8), (''sizetype'', 8),
     (''short unsigned int'', 2), (''unsigned short'', 2), (''unsigned int'', 4), (''unsigned char'', 1),
     (''char16_t'', 2), (''signed char'', 1), (''char'', 1), (''long int'', 8), (''long'', 8), (''int'', 4),
     (''short int'', 2), (''short'', 2), (''__ARRAY_SIZE_TYPE__'', 8), (''float'', 4), (''_Bool'', 1),
     (''bool'', 1), (''double'', 8), (''long double'', 16), (''_Float128'', 16), (''__float128'', 16),
     (''__int128'', 16), (''__int128 unsigned'', 16), (''wchar_t'', 4), (''char32_t'', 4)]"

text \<open>The expression of a row of the table.\<close>

definition row_expr :: "string \<Rightarrow> texpr" where
  "row_expr t = (if t = ''(c_longlong * 2)'' then Paren (Times (Name ''c_longlong'') 2)
     else if t = ''(c_ulonglong * 2)'' then Paren (Times (Name ''c_ulonglong'') 2) else Name t)"

lemma table_rows:
  "list_all (\<lambda>(c_name, t, _). print_expr (row_expr t) = t
     \<and> (case map_of abi_sizes c_name of None \<Rightarrow> False
        | Some z \<Rightarrow> (case row_expr t of
            Paren (Times (Name n) d) \<Rightarrow> (case map_of ctypes_sizes n of None \<Rightarrow> False | Some y \<Rightarrow> y * d = z)
          | Name n \<Rightarrow> map_of ctypes_sizes n = Some z | _ \<Rightarrow> False))) (baseTypes 8)"
  by code_simp

lemma row_expr_size:
  assumes "map_of (baseTypes 8) c_name = Some (t, a)" and "map_of abi_sizes c_name = Some z"
    and "map_of ctypes_sizes \<subseteq>\<^sub>m names"
  shows "print_expr (row_expr t) = t \<and> expr_size names 8 (row_expr t) = Some z"
proof -
  have "(c_name, t, a) \<in> set (baseTypes 8)" using assms(1) by (rule map_of_SomeD)
  with table_rows assms(2) have p: "print_expr (row_expr t) = t" and
    r: "case row_expr t of
            Paren (Times (Name n) d) \<Rightarrow> (case map_of ctypes_sizes n of None \<Rightarrow> False | Some y \<Rightarrow> y * d = z)
          | Name n \<Rightarrow> map_of ctypes_sizes n = Some z | _ \<Rightarrow> False"
    by (fastforce simp: list_all_iff)+
  have names: "map_of ctypes_sizes n = Some y \<Longrightarrow> names n = Some y" for n y
    using assms(3) by (auto simp: map_le_def dom_def)
  have "expr_size names 8 (row_expr t) = Some z"
    using r names by (auto split: texpr.splits option.splits)
  with p show ?thesis by blast
qed


section \<open>The size of a type in the debug data\<close>

definition dsize :: "env \<Rightarrow> nat \<Rightarrow> int \<Rightarrow> bool" where
  "dsize E d z = (\<exists>m. die_size m (e_psz E) (e_dw E) (Some d) = Inr z)"

text \<open>Types that are written by their Python name.\<close>

definition named :: "tkind \<Rightarrow> bool" where
  "named kd = (\<not> List.member ([KPrim, KArray, KPointer] @ quals @ funcs) kd)"

definition py_name :: "env \<Rightarrow> nat \<Rightarrow> tkind \<Rightarrow> string" where
  "py_name E i kd = obj_pyName E (new_obj E i kd) True"

text \<open>The module knows the types of \<open>ctypes\<close>, and its own by name, with the sizes of the debug data.\<close>

definition names_ok :: "env \<Rightarrow> (string \<Rightarrow> int option) \<Rightarrow> bool" where
  "names_ok E names \<longleftrightarrow> map_of ctypes_sizes \<subseteq>\<^sub>m names
     \<and> (\<forall>i kd d z. origin E (key_of E d) i kd \<longrightarrow> named kd \<longrightarrow> dsize E d z \<longrightarrow> z \<noteq> 0 \<longrightarrow> names (py_name E i kd) = Some z)"

text \<open>The debug data: sizes are those of the ABI; arrays and qualified types have no size of their own
  and are of no function type, and they and pointers have one entry per name and tag.\<close>

definition entry_ok :: "env \<Rightarrow> key \<Rightarrow> nat \<Rightarrow> tkind \<Rightarrow> bool" where
  "entry_ok E k i kd \<longleftrightarrow>
     (kd = KPrim \<longrightarrow> (\<exists>nm z. DW_AT_name (e_dw E i) = Some nm \<and> DW_AT_byte_size (e_dw E i) = Some z
        \<and> (map_of (baseTypes 8) nm = None \<or> map_of abi_sizes nm = Some z)))
     \<and> (kd = KPointer \<longrightarrow> (\<forall>z. dsize E i z \<longrightarrow> z = e_psz E) \<and> (\<forall>f. entry_of E k f \<longrightarrow> f = i))
     \<and> (List.member (KArray # quals) kd \<longrightarrow> DW_AT_byte_size (e_dw E i) = None
        \<and> (kd = KArray \<longleftrightarrow> dtag (e_dw E i) = DW_TAG_array_type) \<and> dtag (e_dw E i) \<noteq> DW_TAG_pointer_type
        \<and> (\<forall>f. entry_of E k f \<longrightarrow> f = i)
        \<and> (\<forall>b j kj. DW_AT_type (e_dw E i) = Some b \<longrightarrow> origin E (key_of E b) j kj \<longrightarrow> \<not> List.member funcs kj))"

definition data_ok :: "env \<Rightarrow> bool" where
  "data_ok E \<longleftrightarrow> e_psz E = 8
     \<and> (\<forall>k i kd. origin E k i kd \<longrightarrow> entry_ok E k i kd)
     \<and> (\<forall>k i kd j kj. origin E k i kd \<longrightarrow> origin E k j kj \<longrightarrow> List.member funcs kd \<longrightarrow> List.member funcs kj)
     \<and> (\<forall>i kd d z. origin E (key_of E d) i kd \<longrightarrow> \<not> named kd \<longrightarrow> dsize E d z \<longrightarrow> dsize E i z)"

text \<open>A text is right for the type under a key.\<close>

definition right_text :: "env \<Rightarrow> (string \<Rightarrow> int option) \<Rightarrow> key \<Rightarrow> string \<Rightarrow> bool" where
  "right_text E names k text = (\<exists>e. text = print_expr e
     \<and> (\<forall>d z. key_of E d = k \<longrightarrow> dsize E d z \<longrightarrow> z \<noteq> 0 \<longrightarrow> (\<forall>i kd. origin E k i kd \<longrightarrow> \<not> List.member funcs kd)
        \<longrightarrow> expr_size names (e_psz E) e = Some z)
     \<and> (\<forall>i kd. origin E k i kd \<longrightarrow> List.member funcs kd \<longrightarrow> (\<exists>args. e = Func args)))"

lemma right_textI:
  assumes "data_ok E" "origin E k i kd" "\<not> List.member funcs kd" and "text = print_expr e"
    and "\<And>d z. key_of E d = k \<Longrightarrow> dsize E d z \<Longrightarrow> z \<noteq> 0 \<Longrightarrow> expr_size names (e_psz E) e = Some z"
  shows "right_text E names k text"
proof -
  have "\<not> List.member funcs kj" if "origin E k j kj" for j kj
    using assms(1-3) that unfolding data_ok_def by blast
  with assms(4,5) show ?thesis unfolding right_text_def by blast
qed

lemma dsize_step:
  assumes "dsize E i z" and "DW_AT_byte_size (e_dw E i) = None" and "dtag (e_dw E i) \<noteq> DW_TAG_pointer_type" and "z \<noteq> 0"
  shows "\<exists>b zb. DW_AT_type (e_dw E i) = Some b \<and> dsize E b zb
    \<and> z = (if dtag (e_dw E i) = DW_TAG_array_type then zb * prod_list (getArrayDimensions (e_dw E) i) else zb)"
proof -
  obtain m where m: "die_size m (e_psz E) (e_dw E) (Some i) = Inr z" using assms(1) by (auto simp: dsize_def)
  then obtain n where n: "m = Suc n" by (cases m) auto
  then obtain zb where "die_size n (e_psz E) (e_dw E) (DW_AT_type (e_dw E i)) = Inr zb"
    using m assms(2,3) by (cases "die_size n (e_psz E) (e_dw E) (DW_AT_type (e_dw E i))") auto
  moreover from this have
    "z = (if dtag (e_dw E i) = DW_TAG_array_type then foldl (*) zb (getArrayDimensions (e_dw E) i) else zb)"
    using m n assms(2,3) by (simp split: if_splits)
  ultimately have zb: "die_size n (e_psz E) (e_dw E) (DW_AT_type (e_dw E i)) = Inr zb"
    "z = (if dtag (e_dw E i) = DW_TAG_array_type then foldl (*) zb (getArrayDimensions (e_dw E) i) else zb)" by blast+
  show ?thesis
  proof (cases "DW_AT_type (e_dw E i)")
    case None
    then have "zb = 0" using zb(1) by (cases n) auto
    with zb(2) assms(4) show ?thesis by (auto simp: foldl_times_prod_list split: if_splits)
  next
    case (Some b)
    with zb show ?thesis by (auto simp: dsize_def foldl_times_prod_list)
  qed
qed

lemma same_size: "data_ok E \<Longrightarrow> origin E (key_of E d) i kd \<Longrightarrow> \<not> named kd \<Longrightarrow> dsize E d z \<Longrightarrow> dsize E i z"
  unfolding data_ok_def by blast

lemma print_foldl: "foldl (\<lambda>text d. text @ '' * '' @ show_int d) (print_expr e) ds = print_expr (foldl Times e ds)"
proof (induction ds arbitrary: e)
  case (Cons d ds)
  then show ?case using Cons.IH [of "Times e d"] by simp
qed simp

lemma size_foldl: "expr_size names psz (foldl Times e ds) = map_option (\<lambda>z. z * prod_list ds) (expr_size names psz e)"
  by (induction ds arbitrary: e) (simp_all add: option.map_comp comp_def ac_simps option.map_ident)

section \<open>Each class of types\<close>

lemma right_prim:
  assumes "data_ok E" and "names_ok E names" and "origin E k i KPrim"
  shows "right_text E names k (prim_ctype (e_psz E) (e_dw E) i)"
proof -
  have psz: "e_psz E = 8" and same: "\<And>d z. key_of E d = k \<Longrightarrow> dsize E d z \<Longrightarrow> dsize E i z"
    using assms(1,3) by (auto simp: data_ok_def named_def)
  from assms(1,3) obtain nm z where nm: "DW_AT_name (e_dw E i) = Some nm" "DW_AT_byte_size (e_dw E i) = Some z"
    "map_of (baseTypes 8) nm = None \<or> map_of abi_sizes nm = Some z"
    unfolding data_ok_def entry_ok_def by blast
  then have z: "dsize E i y \<Longrightarrow> y = z" for y
  proof -
    assume "dsize E i y"
    then obtain m where "die_size m (e_psz E) (e_dw E) (Some i) = Inr y" by (auto simp: dsize_def)
    with nm(2) show "y = z" by (cases m) auto
  qed
  have le: "map_of ctypes_sizes \<subseteq>\<^sub>m names" using assms(2) by (simp add: names_ok_def)
  have "\<exists>e. prim_ctype 8 (e_dw E) i = print_expr e \<and> expr_size names 8 e = Some z"
  proof (cases "map_of (baseTypes 8) nm")
    case None
    have "map_of ctypes_sizes ''c_byte'' = Some 1" by code_simp
    then have "names ''c_byte'' = Some 1" using le by (force simp: map_le_def)
    with None nm show ?thesis by (intro exI [of _ "Paren (Times (Name ''c_byte'') z)"]) (simp add: prim_ctype_def)
  next
    case (Some r)
    obtain t a where "r = (t, a)" by (cases r)
    with Some nm row_expr_size [of nm t a z names] le show ?thesis
      by (auto simp: prim_ctype_def intro!: exI [of _ "row_expr t"])
  qed
  then obtain e where e: "prim_ctype 8 (e_dw E) i = print_expr e" "expr_size names 8 e = Some z" by blast
  show ?thesis
    by (rule right_textI [OF assms(1,3), of _ e]) (use e psz same z in \<open>auto simp: funcs_def\<close>)
qed


lemma right_name:
  assumes "names_ok E names" and "origin E k i kd" and "named kd" and "ob_kind ob = kd" and "ob_die ob = i" and d: "data_ok E"
  shows "right_text E names k (obj_pyName E ob True)"
proof (rule right_textI [OF d assms(2), of _ "Name (py_name E i kd)"])
  have k: "ob_kind (new_obj E i kd) = kd" "ob_die (new_obj E i kd) = i" by (simp_all add: new_obj_def)
  then have "obj_name E (new_obj E i kd) True = obj_name E ob True" using assms(4,5) unfolding obj_name_def by presburger
  then have "obj_pyName E (new_obj E i kd) True = obj_pyName E ob True"
    unfolding obj_pyName_def k assms(4) Let_def by (rule arg_cong)
  then show "obj_pyName E ob True = print_expr (Name (py_name E i kd))" by (simp add: py_name_def)
qed (use assms in \<open>auto simp: names_ok_def named_def\<close>)

lemma right_array:
  assumes "data_ok E" and o: "origin E k i KArray" and f: "entry_of E k f"
    and b: "base_ref E k (Some (Obj k'))" and t: "right_text E names k' text"
  shows "right_text E names k (foldl (\<lambda>text d. text @ '' * '' @ show_int d) text (getArrayDimensions (e_dw E) f))"
proof -
  have ok: "entry_ok E k i KArray" using assms(1) o by (simp add: data_ok_def)
  then have i: "\<And>f. entry_of E k f \<Longrightarrow> f = i" "DW_AT_byte_size (e_dw E i) = None"
      "dtag (e_dw E i) = DW_TAG_array_type"
    and nofun: "\<And>b j kj. DW_AT_type (e_dw E i) = Some b \<Longrightarrow> origin E (key_of E b) j kj \<Longrightarrow> \<not> List.member funcs kj"
    by (auto simp: entry_ok_def)
  from b i(1) obtain b' where b': "DW_AT_type (e_dw E i) = Some b'" "k' = key_of E b'" by (auto simp: base_ref_Some)
  from t obtain e where e: "text = print_expr e" "\<And>d z. key_of E d = k' \<Longrightarrow> dsize E d z \<Longrightarrow> z \<noteq> 0 \<Longrightarrow>
      (\<And>i kd. origin E k' i kd \<Longrightarrow> \<not> List.member funcs kd) \<Longrightarrow> expr_size names (e_psz E) e = Some z"
    unfolding right_text_def by blast
  show ?thesis
  proof (rule right_textI [OF assms(1) o])
    show "foldl (\<lambda>text d. text @ '' * '' @ show_int d) text (getArrayDimensions (e_dw E) f)
        = print_expr (foldl Times e (getArrayDimensions (e_dw E) f))" by (simp only: e(1) print_foldl)
    fix d z assume "key_of E d = k" "dsize E d z" and z: "z \<noteq> 0"
    then have "dsize E i z" using assms(1) o by (auto simp: data_ok_def named_def)
    from dsize_step [OF this i(2)] i(3) z b' obtain zb where
      zb: "dsize E b' zb" "z = zb * prod_list (getArrayDimensions (e_dw E) i)" by auto
    have "expr_size names (e_psz E) e = Some zb"
      using e(2) [of b' zb] zb z b' nofun by auto
    with zb i(1) [OF f] show "expr_size names (e_psz E) (foldl Times e (getArrayDimensions (e_dw E) f)) = Some z"
      by (simp add: size_foldl)
  qed (simp add: funcs_def)
qed

lemma right_pointer:
  assumes "data_ok E" and o: "origin E k i KPointer" and "expr_size names (e_psz E) e = Some (e_psz E)"
  shows "right_text E names k (print_expr e)"
proof (rule right_textI [OF assms(1) o _ refl])
  fix d z assume "key_of E d = k" "dsize E d z"
  then have "dsize E i z" using assms(1) o by (auto simp: data_ok_def named_def)
  then have "z = e_psz E" using assms(1) o by (auto simp: data_ok_def entry_ok_def)
  with assms(3) show "expr_size names (e_psz E) e = Some z" by simp
qed (simp add: funcs_def)

lemma right_qual:
  assumes "data_ok E" and o: "origin E k i kd" "List.member quals kd"
    and b: "base_ref E k (Some (Obj k'))" and t: "right_text E names k' text"
  shows "right_text E names k (q @ ''( '' @ text @ '' )'')"
proof -
  have ok: "entry_ok E k i kd" using assms(1) o by (simp add: data_ok_def)
  then have i: "\<And>f. entry_of E k f \<Longrightarrow> f = i" "DW_AT_byte_size (e_dw E i) = None"
      "dtag (e_dw E i) \<noteq> DW_TAG_array_type" "dtag (e_dw E i) \<noteq> DW_TAG_pointer_type"
    and nofun: "\<And>b j kj. DW_AT_type (e_dw E i) = Some b \<Longrightarrow> origin E (key_of E b) j kj \<Longrightarrow> \<not> List.member funcs kj"
    using o(2) by (auto simp: entry_ok_def quals_def)
  from b i(1) obtain b' where b': "DW_AT_type (e_dw E i) = Some b'" "k' = key_of E b'" by (auto simp: base_ref_Some)
  from t obtain e where e: "text = print_expr e" "\<And>d z. key_of E d = k' \<Longrightarrow> dsize E d z \<Longrightarrow> z \<noteq> 0 \<Longrightarrow>
      (\<And>i kd. origin E k' i kd \<Longrightarrow> \<not> List.member funcs kd) \<Longrightarrow> expr_size names (e_psz E) e = Some z"
    unfolding right_text_def by blast
  show ?thesis
  proof (rule right_textI [OF assms(1) o(1), of _ "Qual q e"])
    fix d z assume "key_of E d = k" "dsize E d z" and z: "z \<noteq> 0"
    then have "dsize E i z" using assms(1) o by (auto simp: data_ok_def named_def quals_def)
    from dsize_step [OF this i(2,4) z] i(3) b' have "dsize E b' z" by auto
    then show "expr_size names (e_psz E) (Qual q e) = Some z" using e(2) [of b' z] z b' nofun by auto
  qed (use o(2) in \<open>auto simp: e(1) funcs_def quals_def\<close>)
qed


section \<open>All types\<close>

definition right_ref :: "env \<Rightarrow> (string \<Rightarrow> int option) \<Rightarrow> tref \<Rightarrow> string \<Rightarrow> bool" where
  "right_ref E names t text = (case t of VoidType \<Rightarrow> \<exists>e. text = print_expr e | Obj k \<Rightarrow> right_text E names k text)"

lemma right_ref_print: "right_ref E names t text \<Longrightarrow> \<exists>e. text = print_expr e"
  by (auto simp: right_ref_def right_text_def split: tref.splits)

lemma base_right: "base_ref E k (Some t) \<Longrightarrow> right_ref E names t text \<Longrightarrow>
    \<exists>k'. t = Obj k' \<and> right_text E names k' text"
  using base_not_void by (force simp: right_ref_def)

lemma names_ctypes: "names_ok E names \<Longrightarrow> names ''c_void_p'' = Some 8" "names_ok E names \<Longrightarrow> names ''c_char_p'' = Some 8"
proof -
  assume "names_ok E names"
  then have le: "map_of ctypes_sizes \<subseteq>\<^sub>m names" by (simp add: names_ok_def)
  have "map_of ctypes_sizes ''c_void_p'' = Some 8" "map_of ctypes_sizes ''c_char_p'' = Some 8" by code_simp+
  with le show "names ''c_void_p'' = Some 8" "names ''c_char_p'' = Some 8" by (force simp: map_le_def)+
qed

text \<open>One class after the other: if \<open>call\<close> is right on all types, so is the method of the class.\<close>

lemma array_right:
  assumes d: "data_ok E" and l: "limits E D {} (\<lambda>_. 0)" and call: "\<And>t. goes E D {} (call t) (right_ref E names t)"
    and ob: "obj_ok E k ob" "ob_kind ob = KArray"
  shows "goes E D {} (ctype_array call E n k ob) (right_ref E names (Obj k))"
proof -
  obtain f where f: "entry_of E k f" "ob_dimensions ob = getArrayDimensions (e_dw E) f"
    using ob by (auto simp: obj_ok_def)
  show ?thesis
    unfolding ctype_array_def f(2)
  proof (rule yields_sbind [OF goes_theBase [OF l]], simp add: enough_def, rule yields_sbind [OF call], rule yields_ret)
    fix t tx assume b: "base_ref E k (Some t)" and t: "right_ref E names t tx"
    from base_right [OF b t] obtain k' where "t = Obj k'" "right_text E names k' tx" by blast
    with right_array [OF d _ f(1)] ok_origin [OF ob(1)] ob(2) b
    show "right_ref E names (Obj k) (foldl (\<lambda>text d. text @ '' * '' @ show_int d) tx (getArrayDimensions (e_dw E) f))"
      by (simp add: right_ref_def)
  qed
qed

lemma lift_need: "yields I {} (lift (need e x)) (\<lambda>y. x = Some y)"
  by (rule yields_lift) (rule yields_need, simp_all)

lemma pointer_right:
  assumes d: "data_ok E" and nm: "names_ok E names" and l: "limits E D {} (\<lambda>_. 0)"
    and call: "\<And>t. goes E D {} (call t) (right_ref E names t)" and ob: "origin E k i KPointer"
  shows "goes E D {} (ctype_pointer call E n k) (right_ref E names (Obj k))"
proof -
  have psz: "e_psz E = 8" using d by (simp add: data_ok_def)
  have r: "right_ref E names (Obj k) (print_expr e)" if "expr_size names 8 e = Some 8" for e
    using right_pointer [OF d ob, of names e] that psz by (simp add: right_ref_def)
  have i: "entry_of E k f \<Longrightarrow> f = i" for f using d ob by (auto simp: data_ok_def entry_ok_def)
  show ?thesis
    unfolding ctype_pointer_def
  proof (rule yields_sbind [OF goes_isVoidp [OF l]], intro yields_if)
    show "goes E D {} (ret ''c_void_p'') (right_ref E names (Obj k))"
      using r [of "Name ''c_void_p''"] names_ctypes(1) [OF nm] by (intro yields_ret) simp
    show "goes E D {} (sbind (definition_of E k) (\<lambda>f. sbind (theBase E n k) (\<lambda>b. sbind (call b) (\<lambda>baseCtype.
       sbind (lift (need AttributeError (DW_AT_type (e_dw E f)))) (\<lambda>baseDie.
       ret (if dtag (e_dw E baseDie) = DW_TAG_subroutine_type then baseCtype
            else if baseCtype = ''c_char'' \<or> baseCtype = ''CONST( c_char )'' then ''c_char_p''
            else ''POINTER( '' @ baseCtype @ '' )'')))))) (right_ref E names (Obj k))"
    proof (rule yields_sbind [OF goes_definition_of [OF l]], rule yields_sbind [OF goes_theBase [OF l]],
        simp add: enough_def, rule yields_sbind [OF call], rule yields_sbind [OF lift_need], rule yields_ret)
      fix f t tx baseDie
      assume f: "entry_of E k f" and b: "base_ref E k (Some t)" and t: "right_ref E names t tx"
        and bd: "DW_AT_type (e_dw E f) = Some baseDie"
      from base_right [OF b t] obtain k' where k': "t = Obj k'" "right_text E names k' tx" by blast
      from b bd i [OF f] i k'(1) have key: "k' = key_of E baseDie" by (auto simp: base_ref_Some)
      from k'(2) obtain e where e: "tx = print_expr e"
        "\<And>i kd. origin E k' i kd \<Longrightarrow> List.member funcs kd \<Longrightarrow> \<exists>args. e = Func args"
        unfolding right_text_def by blast
      show "right_ref E names (Obj k) (if dtag (e_dw E baseDie) = DW_TAG_subroutine_type then tx
            else if tx = ''c_char'' \<or> tx = ''CONST( c_char )'' then ''c_char_p'' else ''POINTER( '' @ tx @ '' )'')"
      proof (cases "dtag (e_dw E baseDie) = DW_TAG_subroutine_type")
        case True
        then have "known_entry (e_dw E) baseDie = Inr (baseDie, KFunction)"
          by (intro known_entry_simps(1)) (simp add: typeFromTag_def)
        then have "origin E k' baseDie KFunction" unfolding origin_def key by blast
        then obtain args where "e = Func args" using e(2) by (auto simp: funcs_def)
        with True e(1) r [of e] show ?thesis by simp
      next
        case False
        then show ?thesis
          using r [of "Name ''c_char_p''"] names_ctypes(2) [OF nm] r [of "Pointer e"] e(1) by simp
      qed
    qed
  qed
qed

lemma function_right:
  assumes d: "data_ok E" and l: "limits E D {} (\<lambda>_. 0)" and call: "\<And>t. goes E D {} (call t) (right_ref E names t)"
    and ob: "origin E k i kd" "List.member funcs kd"
  shows "goes E D {} (ctype_function call E n k ob) (right_ref E names (Obj k))"
proof -
  have r: "right_ref E names (Obj k) (print_expr (Func args))" for args
    using ob unfolding right_ref_def right_text_def tref.case by blast
  have en: "enough {} (\<lambda>_. 0) j m" for j m by (simp add: enough_def)
  have ps: "goes E D {} (foldM (\<lambda>acc child.
         sbind (dieToType E n (DW_AT_type (e_dw E child))) (\<lambda>t.
         sbind (call t) (\<lambda>text. ret (acc @ '', '' @ text @ nl @ ''      ''))))
       (''CFUNCTYPE( '' @ rtext) ds) (\<lambda>acc. \<exists>args. acc = ''CFUNCTYPE( '' @ args)" for rtext ds
    by (rule yields_foldM)
      (auto intro!: yields_sbind [OF goes_dieToType [OF l en]] yields_sbind [OF call] yields_ret)
  show ?thesis
    unfolding ctype_function_def
  proof (rule yields_sbind [OF goes_baseType [OF l en]], rule yields_sbind [of _ _ _ "\<lambda>_. True"])
    fix rtype show "goes E D {} (case rtype of None \<Rightarrow> ret ''None'' | Some b \<Rightarrow> call b) (\<lambda>_. True)"
      by (intro yields_option yields_ret TrueI yields_any [OF call])
  next
    fix rtext show "goes E D {} (sbind (foldM (\<lambda>acc child.
         sbind (dieToType E n (DW_AT_type (e_dw E child))) (\<lambda>t.
         sbind (call t) (\<lambda>text. ret (acc @ '', '' @ text @ nl @ ''      ''))))
       (''CFUNCTYPE( '' @ rtext) (params E (ob_die ob))) (\<lambda>text. ret (text @ '')''))) (right_ref E names (Obj k))"
      by (rule yields_sbind [OF ps]) (use r in \<open>auto intro!: yields_ret\<close>)
  qed
qed

lemma qual_right:
  assumes d: "data_ok E" and l: "limits E D {} (\<lambda>_. 0)" and call: "\<And>t. goes E D {} (call t) (right_ref E names t)"
    and ob: "origin E k i kd" "List.member quals kd" and q: "p = q @ ''( ''"
  shows "goes E D {} (sbind (theBase E n k) (\<lambda>b. sbind (call b) (\<lambda>name. ret (p @ name @ '' )'')))) (right_ref E names (Obj k))"
proof (rule yields_sbind [OF goes_theBase [OF l]], simp add: enough_def, rule yields_sbind [OF call], rule yields_ret)
  fix t tx assume b: "base_ref E k (Some t)" and t: "right_ref E names t tx"
  from base_right [OF b t] obtain k' where "t = Obj k'" "right_text E names k' tx" by blast
  with right_qual [OF d ob, of k' names tx q] b
  show "right_ref E names (Obj k) (p @ tx @ '' )'')" by (simp add: q right_ref_def)
qed


lemma const_right:
  assumes d: "data_ok E" and l: "limits E D {} (\<lambda>_. 0)" and call: "\<And>t. goes E D {} (call t) (right_ref E names t)"
    and ob: "origin E k i KConst"
  shows "goes E D {} (ctype_const call E n k) (right_ref E names (Obj k))"
proof -
  have en: "enough {} (\<lambda>_. 0) j m" for j m by (simp add: enough_def)
  have q: "List.member quals KConst" by (simp add: quals_def)
  have void: "right_ref E names (Obj k) (''CONST( '' @ ''c_void_p'' @ '' )'')" if "base_ref E k None"
  proof -
    have i: "entry_of E k f \<Longrightarrow> f = i" "DW_AT_byte_size (e_dw E i) = None" "dtag (e_dw E i) \<noteq> DW_TAG_pointer_type" for f
      using d ob by (auto simp: data_ok_def entry_ok_def quals_def)
    from that i(1) have "DW_AT_type (e_dw E i) = None" by (auto simp: base_ref_def)
    then have z: "dsize E i z \<Longrightarrow> z = 0" for z using dsize_step [of E i z, OF _ i(2,3)] by auto
    have "dsize E i z" if "key_of E d = k" "dsize E d z" for d z
      using same_size [OF d _ _ that(2)] ob that(1) by (simp add: named_def quals_def)
    with z have "\<not> (key_of E d = k \<and> dsize E d z \<and> z \<noteq> 0)" for d z by blast
    then show ?thesis
      unfolding right_ref_def tref.case
      by (intro right_textI [OF d ob, of _ "Qual ''CONST'' (Name ''c_void_p'')"]) (auto simp: funcs_def)
  qed
  show ?thesis
    unfolding ctype_const_def
  proof (rule yields_sbind [OF goes_baseType [OF l en]])
    fix b assume b: "base_ref E k b"
    show "goes E D {} (sbind (case b of None \<Rightarrow> ret ''c_void_p'' | Some b \<Rightarrow> call b)
        (\<lambda>name. ret (''CONST( '' @ name @ '' )''))) (right_ref E names (Obj k))"
    proof (cases b)
      case None
      with b void have "right_ref E names (Obj k) (''CONST( '' @ ''c_void_p'' @ '' )'')" by blast
      then show ?thesis unfolding None option.case sbind_ret_left by (rule yields_ret)
    next
      case (Some t)
      show ?thesis unfolding Some option.case
      proof (rule yields_sbind [OF call], rule yields_ret)
        fix tx assume t: "right_ref E names t tx"
        from base_right [OF _ t] b Some obtain k' where "t = Obj k'" "right_text E names k' tx" by blast
        with right_qual [OF d ob q, of k' names tx "''CONST''"] b Some
        show "right_ref E names (Obj k) (''CONST( '' @ tx @ '' )'')" by (simp add: right_ref_def)
      qed
    qed
  qed
qed

lemma ctype_right:
  assumes d: "data_ok E" and nm: "names_ok E names" and l: "limits E D {} (\<lambda>_. 0)"
  shows "goes E D {} (ctype E n t) (right_ref E names t)"
proof (induction n arbitrary: t)
  case 0
  show ?case by (simp add: yields_def)
next
  case (Suc n)
  show ?case
  proof (cases t)
    case VoidType
    have "right_ref E names VoidType (asPythonId_str ''void'')"
      by (auto simp: right_ref_def intro!: exI [of _ "Name (asPythonId_str ''void'')"])
    then show ?thesis unfolding VoidType ctype.simps by (rule yields_ret)
  next
    case (Obj k)
    show ?thesis
      unfolding Obj ctype.simps
    proof (rule yields_sbind [OF goes_getobj [OF l]], intro yields_if)
      fix ob assume ob: "obj_ok E k ob"
      let ?R = "right_ref E names (Obj k)"
      have o: "origin E k (ob_die ob) (ob_kind ob)" using ob by (rule ok_origin)
      show "goes E D {} (ret (prim_ctype (e_psz E) (e_dw E) (ob_die ob))) ?R" if "ob_kind ob = KPrim"
        using right_prim [OF d nm, of k "ob_die ob"] o that by (auto intro!: yields_ret simp: right_ref_def)
      show "goes E D {} (ctype_array (ctype E n) E n k ob) ?R" if "ob_kind ob = KArray"
        by (rule array_right [OF d l Suc.IH ob that])
      show "goes E D {} (ctype_pointer (ctype E n) E n k) ?R" if "ob_kind ob = KPointer"
        using o that by (intro pointer_right [OF d nm l Suc.IH]) simp
      show "goes E D {} (ctype_function (ctype E n) E n k ob) ?R" if "ob_kind ob = KFunction \<or> ob_kind ob = KFunctionDef"
        by (rule function_right [OF d l Suc.IH o]) (use that in \<open>auto simp: funcs_def\<close>)
      show "goes E D {} (ctype_const (ctype E n) E n k) ?R" if "ob_kind ob = KConst"
        using o that by (intro const_right [OF d l Suc.IH]) simp
      show "goes E D {} (ctype_volatile (ctype E n) E n k) ?R" if "ob_kind ob = KVolatile"
        unfolding ctype_volatile_def
        by (rule qual_right [OF d l Suc.IH o, of _ "''VOLATILE''"]) (simp_all add: that quals_def)
      show "goes E D {} (ctype_restrict (ctype E n) E n k) ?R" if "ob_kind ob = KRestrict"
        unfolding ctype_restrict_def
        by (rule qual_right [OF d l Suc.IH o, of _ "''RESTRICT''"]) (simp_all add: that quals_def)
      show "goes E D {} (ret (obj_pyName E ob True)) ?R"
        if "ob_kind ob \<noteq> KPrim" "ob_kind ob \<noteq> KArray" "ob_kind ob \<noteq> KPointer"
          "\<not> (ob_kind ob = KFunction \<or> ob_kind ob = KFunctionDef)" "ob_kind ob \<noteq> KConst" "ob_kind ob \<noteq> KVolatile"
          "ob_kind ob \<noteq> KRestrict"
        using right_name [OF nm o] d that by (auto intro!: yields_ret simp: right_ref_def named_def quals_def funcs_def)
    qed
  qed
qed

end
