(* ===== verification/ModuleTypes.thy ===== *)
theory ModuleTypes
  imports TypeSizes Total
begin

text \<open>
  The types in a generated module: every variable is read, and every argument of a function passed,
  with a type of the size it has in the debug data.
\<close>

section \<open>What a text in the module denotes\<close>

definition denotes :: "env \<Rightarrow> (string \<Rightarrow> int option) \<Rightarrow> nat option \<Rightarrow> string \<Rightarrow> bool" where
  "denotes E names t text = (case t of None \<Rightarrow> True | Some d \<Rightarrow>
     (\<exists>e. text = print_expr e \<and> (\<forall>z. dsize E d z \<longrightarrow> z \<noteq> 0 \<longrightarrow>
        (\<forall>i kd. origin E (key_of E d) i kd \<longrightarrow> \<not> List.member funcs kd) \<longrightarrow> expr_size names (e_psz E) e = Some z)))"

lemma right_denotes: "right_ref E names (ref_of E t) text \<Longrightarrow> denotes E names t text"
  by (cases t) (auto simp: denotes_def right_ref_def right_text_def)

lemma type_denotes:
  assumes "data_ok E" and "names_ok E names" and l: "limits E any_todo {} (\<lambda>_. 0)"
  shows "goes E any_todo {} (sbind (dieToType E n t) (ctype E n)) (denotes E names t)"
proof (rule yields_sbind [OF goes_dieToType [OF l]])
  fix u assume "u = ref_of E t"
  then show "goes E any_todo {} (ctype E n u) (denotes E names t)"
    using yields_weaken [OF ctype_right [OF assms]] right_denotes by metis
qed (simp add: enough_def)

text \<open>A variable of the module, and the prototypes of a function.\<close>

definition global_ok :: "env \<Rightarrow> (string \<Rightarrow> int option) \<Rightarrow> string \<times> string \<times> string \<Rightarrow> bool" where
  "global_ok E names g = (case g of (py, ct, cname) \<Rightarrow>
     \<exists>d. cname = linkage_name (e_dw E d) \<and> denotes E names (DW_AT_type (e_dw E d)) ct)"

definition update_ok :: "env \<Rightarrow> host \<Rightarrow> (string \<Rightarrow> int option) \<Rightarrow> string \<times> string \<times> string list \<Rightarrow> bool" where
  "update_ok E H names u = (case u of (linkername, restype, args) \<Rightarrow>
     \<exists>k d f. origin E k d KFunctionDef \<and> entry_of E k f \<and> List.member (dynamic_names E H d) linkername
       \<and> (DW_AT_type (e_dw E f) = None \<longrightarrow> restype = ''None'') \<and> denotes E names (DW_AT_type (e_dw E f)) restype
       \<and> list_all2 (\<lambda>p. denotes E names (DW_AT_type (e_dw E p))) (params E d) args)"

section \<open>Writing them\<close>

lemma globals_right:
  assumes d: "data_ok E" and nm: "names_ok E names" and l: "limits E any_todo {} (\<lambda>_. 0)"
  shows "goes E any_todo {} (write_globals E n) (list_all (global_ok E names))"
  unfolding write_globals_def
proof (rule yields_sbind [OF yields_gets [where Q = "\<lambda>_. True"]], simp, rule yields_foldM, simp,
    intro yields_prod yields_option yields_ret, assumption)
  fix acc d assume acc: "list_all (global_ok E names) acc"
  show "goes E any_todo {} (sbind (dieToType E n (DW_AT_type (e_dw E d))) (\<lambda>t. sbind (ctype E n t) (\<lambda>ct.
      ret (acc @ [(asPythonId_str (join ''::'' (fullname (e_dw E d))), ct, linkage_name (e_dw E d))]))))
      (list_all (global_ok E names))"
    unfolding sbind_assoc [symmetric]
    by (rule yields_sbind [OF type_denotes [OF d nm l]], rule yields_ret) (use acc in \<open>auto simp: global_ok_def\<close>)
qed

lemma args_right:
  assumes d: "data_ok E" and nm: "names_ok E names" and l: "limits E any_todo {} (\<lambda>_. 0)"
  shows "goes E any_todo {} (foldM (\<lambda>args child.
            sbind (dieToType E n (DW_AT_type (e_dw E child))) (\<lambda>t.
            sbind (ctype E n t) (\<lambda>ct. ret (args @ [ct])))) acc ps)
      (\<lambda>args. \<exists>as. args = acc @ as \<and> list_all2 (\<lambda>p. denotes E names (DW_AT_type (e_dw E p))) ps as)"
proof (induction ps arbitrary: acc)
  case Nil
  then show ?case by (simp add: yields_def)
next
  case (Cons p ps)
  show ?case
    unfolding foldM.simps sbind_assoc [symmetric]
  proof (rule yields_sbind [of _ _ _ "\<lambda>acc'. \<exists>ct. acc' = acc @ [ct] \<and> denotes E names (DW_AT_type (e_dw E p)) ct"])
    show "goes E any_todo {} (sbind (sbind (dieToType E n (DW_AT_type (e_dw E p))) (ctype E n)) (\<lambda>ct. ret (acc @ [ct])))
      (\<lambda>acc'. \<exists>ct. acc' = acc @ [ct] \<and> denotes E names (DW_AT_type (e_dw E p)) ct)"
      by (rule yields_sbind [OF type_denotes [OF d nm l]]) (auto intro!: yields_ret)
    fix acc' assume "\<exists>ct. acc' = acc @ [ct] \<and> denotes E names (DW_AT_type (e_dw E p)) ct"
    then obtain ct where "acc' = acc @ [ct]" "denotes E names (DW_AT_type (e_dw E p)) ct" by blast
    then show "goes E any_todo {} (foldM (\<lambda>args child. sbind (sbind (dieToType E n (DW_AT_type (e_dw E child))) (ctype E n))
          (\<lambda>ct. ret (args @ [ct]))) acc' ps)
      (\<lambda>args. \<exists>as. args = acc @ as \<and> list_all2 (\<lambda>p. denotes E names (DW_AT_type (e_dw E p))) (p # ps) as)"
      using Cons.IH [of acc'] unfolding sbind_assoc [symmetric] by (elim yields_weaken) auto
  qed
qed


lemma updates_right:
  assumes d: "data_ok E" and nm: "names_ok E names" and l: "limits E any_todo {} (\<lambda>_. 0)"
  shows "goes E any_todo {} (writeLibUpdates E H n k) (list_all (update_ok E H names))"
  unfolding writeLibUpdates_def
proof (rule yields_sbind [OF goes_getobj [OF l]], intro yields_if yields_raise)
  fix ob assume ob: "obj_ok E k ob" and kd: "\<not> ob_kind ob \<noteq> KFunctionDef"
  have en: "enough {} (\<lambda>_. 0) j m" for j m by (simp add: enough_def)
  show "goes E any_todo {} (sbind (baseType E n k) (\<lambda>base.
       foldM (\<lambda>acc linkername. sbind (lib_update E n ob base linkername) (\<lambda>u. ret (acc @ u)))
         [] (dynamic_names E H (ob_die ob)))) (list_all (update_ok E H names))"
  proof (rule yields_sbind [OF goes_baseType [OF l en]], rule yields_foldM, simp)
    fix base acc ln
    assume b: "base_ref E k base" and acc: "list_all (update_ok E H names) acc"
      and ln: "ln \<in> set (dynamic_names E H (ob_die ob))"
    from b obtain f where f: "entry_of E k f" "base = map_option (\<lambda>b. Obj (key_of E b)) (DW_AT_type (e_dw E f))"
      by (auto simp: base_ref_def)
    have rt: "goes E any_todo {} (case base of None \<Rightarrow> ret ''None'' | Some b \<Rightarrow> ctype E n b)
        (\<lambda>r. (DW_AT_type (e_dw E f) = None \<longrightarrow> r = ''None'') \<and> denotes E names (DW_AT_type (e_dw E f)) r)"
    proof (cases "DW_AT_type (e_dw E f)")
      case None
      then show ?thesis by (simp add: f(2) yields_def denotes_def)
    next
      case (Some t)
      have "denotes E names (Some t) x" if "right_ref E names (Obj (key_of E t)) x" for x
        using right_denotes [of E names "Some t"] that by simp
      with Some show ?thesis by (simp add: f(2) yields_weaken [OF ctype_right [OF d nm l]])
    qed
    show "goes E any_todo {} (sbind (lib_update E n ob base ln) (\<lambda>u. ret (acc @ u))) (list_all (update_ok E H names))"
    proof (rule yields_sbind [of _ _ _ "list_all (update_ok E H names)"], unfold lib_update_def, intro yields_if)
      show "goes E any_todo {} (andthen (errorfunc (''cannot provide access to '' @ obj_name E ob True @ '' - its dynamic name ''
          @ ln @ '' is a python keyword'')) (ret [])) (list_all (update_ok E H names))"
        by (intro yields_andthen goes_errorfunc yields_ret) simp
      show "goes E any_todo {} (sbind (case base of None \<Rightarrow> ret ''None'' | Some b \<Rightarrow> ctype E n b) (\<lambda>restype.
        sbind (foldM (\<lambda>args child.
            sbind (dieToType E n (DW_AT_type (e_dw E child))) (\<lambda>t.
            sbind (ctype E n t) (\<lambda>ct. ret (args @ [ct]))))
          [] (params E (ob_die ob))) (\<lambda>argtypes.
        ret [(ln, restype, argtypes)]))) (list_all (update_ok E H names))"
      proof (rule yields_sbind [OF rt], rule yields_sbind [OF args_right [OF d nm l]], rule yields_ret)
        fix r as
        assume "(DW_AT_type (e_dw E f) = None \<longrightarrow> r = ''None'') \<and> denotes E names (DW_AT_type (e_dw E f)) r"
          and "\<exists>as'. as = [] @ as' \<and> list_all2 (\<lambda>p. denotes E names (DW_AT_type (e_dw E p))) (params E (ob_die ob)) as'"
        then have "update_ok E H names (ln, r, as)"
          unfolding update_ok_def prod.case
          by (intro exI [of _ k] exI [of _ "ob_die ob"] exI [of _ f]) (use ok_origin [OF ob] kd f(1) ln in auto)
        then show "list_all (update_ok E H names) [(ln, r, as)]" by simp
      qed
    qed (use acc in \<open>auto intro!: yields_ret\<close>)
  qed
qed simp

lemma functions_right:
  assumes d: "data_ok E" and nm: "names_ok E names" and l: "limits E any_todo {} (\<lambda>_. 0)"
  shows "goes E any_todo {} (write_functions E H n) (\<lambda>(ups, protos). list_all (update_ok E H names) ups)"
proof -
  have pl: "plenty {} (\<lambda>_. 0) n" by (simp add: plenty_def enough_def)
  have one: "goes E any_todo {} (case t of
             VoidType \<Rightarrow> raise (PyException ''writeLibUpdates not supported for this type'')
           | Obj k \<Rightarrow>
               sbind (writeLibUpdates E H n k) (\<lambda>us.
               sbind (type_pyName E t True) (\<lambda>name.
               sbind (ctype E n t) (\<lambda>proto.
               ret (fst acc @ us, dict_set name proto (snd acc)))))) (\<lambda>(ups, protos). list_all (update_ok E H names) ups)"
    if "list_all (update_ok E H names) (fst acc)" for t acc
    using that
    by (cases t; simp only: tref.case; intro yields_raise yields_sbind [OF updates_right [OF d nm l]]
        yields_sbind [OF goes_type_name(2) [OF l]] yields_sbind [OF goes_ctype' [OF l pl]] yields_ret) auto
  show ?thesis
    unfolding write_functions_def
    by (rule yields_sbind [OF yields_gets [where Q = "\<lambda>_. True"]], simp, rule yields_foldM, simp,
        intro yields_prod yields_option yields_ret yields_sbind [OF goes_dieToType' [OF l pl]] one) (auto split: prod.splits)
qed


lemma module_right:
  assumes d: "data_ok E" and nm: "names_ok E names" and l: "limits E any_todo {} (\<lambda>_. 0)"
  shows "goes E any_todo {} (write_module E H n)
    (\<lambda>md. list_all (global_ok E names) (md_globals md) \<and> list_all (update_ok E H names) (md_updates md))"
proof -
  have pl: "plenty {} (\<lambda>_. 0) n" by (simp add: plenty_def enough_def)
  have rn: "rounds E [] {} (\<lambda>_. 0) n" by (simp add: rounds_def)
  have g: "goes E any_todo {} (gets f) (\<lambda>_. True)" for f :: "rstate \<Rightarrow> 'b" by (rule yields_gets) simp
  show ?thesis
    unfolding write_module_def
    by (intro yields_andthen goes_define_variables [OF l pl] goes_define_functions [OF l pl]
        goes_define_types [OF l rn] yields_sbind [OF goes_hint_aliases [OF l pl]] yields_sbind [OF g]
        yields_sbind [OF globals_right [OF d nm l]] yields_sbind_prod [OF functions_right [OF d nm l]]
        yields_ret) simp
qed

section \<open>Properties\<close>

text \<open>C5: in a generated module every variable is read with a type of the size that the debug data gives
  it, and the prototypes of a function have, for every parameter and for the result, a type of the size in
  the debug data: through arrays, qualifiers, pointers and the names the module defines.\<close>

theorem module_types_sized:
  assumes "data_ok E" and "names_ok E names"
    and run: "andthen (init_resolver E q n) (write_module E H n) s0 = Inr (md, s)"
  shows "list_all (global_ok E names) (md_globals md) \<and> list_all (update_ok E H names) (md_updates md)"
proof -
  have l: "limits E any_todo {} (\<lambda>_. 0)" using assms(1) by (simp add: limits_def data_ok_def)
  obtain s1 where s1: "init_resolver E q n s0 = Inr ((), s1)" "write_module E H n s1 = Inr (md, s)"
    using run by (auto simp: andthen_run split: sum.splits)
  have "res_in {} (init_resolver E q n s0) (\<lambda>(_, s'). \<exists>H'. objs_ok E (hints_below {} H') s')"
    by (rule init_in [OF l]) (simp_all add: room_def)
  then have "objs_ok E any_todo s1" using s1(1) by (auto simp: objs_ok_def)
  from yields_Inr [OF module_right [OF assms(1,2) l] this s1(2)] show ?thesis by blast
qed


text \<open>\<open>int v[ 3 ]; int f( const char * );\<close>\<close>

definition ex_typed :: dwarf where
  "ex_typed = (\<lambda>_. mk_die 0 [])
     (2 := (mk_die DW_TAG_compile_unit [])\<lparr>children := [3, 4]\<rparr>,
      3 := (mk_die DW_TAG_variable [''v''])\<lparr>DW_AT_type := Some 7\<rparr>,
      4 := (mk_die DW_TAG_subprogram [''f''])\<lparr>DW_AT_type := Some 6, DW_AT_low_pc := Some 64,
             DW_AT_external := True, children := [5]\<rparr>,
      5 := (mk_die DW_TAG_formal_parameter [''f'', ''x''])\<lparr>DW_AT_type := Some 8\<rparr>,
      6 := (mk_die DW_TAG_base_type [''int''])\<lparr>DW_AT_byte_size := Some 4\<rparr>,
      7 := (mk_die DW_TAG_array_type [])\<lparr>DW_AT_type := Some 6, children := [9]\<rparr>,
      8 := (mk_die DW_TAG_pointer_type [])\<lparr>DW_AT_type := Some 10, DW_AT_byte_size := Some 8\<rparr>,
      9 := (mk_die DW_TAG_subrange_type [])\<lparr>DW_AT_count := Some 3\<rparr>,
      10 := (mk_die DW_TAG_const_type [])\<lparr>DW_AT_type := Some 11\<rparr>,
      11 := (mk_die DW_TAG_base_type [''char''])\<lparr>DW_AT_byte_size := Some 1\<rparr>)"

text \<open>The entry of a type, its kind and its size.\<close>

definition ex_entries :: "(nat \<times> nat \<times> tkind \<times> int) list" where
  "ex_entries = [(3, 7, KArray, 12), (4, 4, KFunctionDef, 4), (5, 8, KPointer, 8), (6, 6, KPrim, 4),
     (7, 7, KArray, 12), (8, 8, KPointer, 8), (10, 10, KConst, 1), (11, 11, KPrim, 1)]"

lemma ex_other: "d = 3 \<or> d = 4 \<or> d = 5 \<or> d = 6 \<or> d = 7 \<or> d = 8 \<or> d = 10 \<or> d = 11 \<or>
    (dtag (ex_typed d) = 0 \<or> dtag (ex_typed d) = DW_TAG_compile_unit \<or> dtag (ex_typed d) = DW_TAG_subrange_type)
    \<and> DW_AT_type (ex_typed d) = None"
  by (simp add: ex_typed_def mk_die_def)

lemma ex_tags: "list_all (\<lambda>(d, _). \<not> List.member [0, DW_TAG_compile_unit, DW_TAG_subrange_type] (dtag (ex_typed d))) ex_entries"
  by code_simp

lemma ex_known: "known_entry ex_typed d = Inr (i, kd) \<Longrightarrow> \<exists>z. (d, i, kd, z) \<in> set ex_entries"
proof -
  assume r: "known_entry ex_typed d = Inr (i, kd)"
  have "d = 3 \<or> d = 4 \<or> d = 5 \<or> d = 6 \<or> d = 7 \<or> d = 8 \<or> d = 10 \<or> d = 11 \<or>
      typeFromTag (dtag (ex_typed d)) = None \<and> DW_AT_type (ex_typed d) = None"
    using ex_other [of d] by (auto simp: typeFromTag_def)
  moreover have "known_entry ex_typed 3 = known_entry ex_typed 7" "known_entry ex_typed 5 = known_entry ex_typed 8"
    by (subst known_entry_simps(2); simp add: ex_typed_def mk_die_def typeFromTag_def)+
  moreover have "known_entry ex_typed 4 = Inr (4, KFunctionDef)" "known_entry ex_typed 6 = Inr (6, KPrim)"
    "known_entry ex_typed 7 = Inr (7, KArray)" "known_entry ex_typed 8 = Inr (8, KPointer)"
    "known_entry ex_typed 10 = Inr (10, KConst)" "known_entry ex_typed 11 = Inr (11, KPrim)"
    by (rule known_entry_simps(1); simp add: ex_typed_def mk_die_def typeFromTag_def)+
  ultimately show ?thesis using r known_entry_simps(2) [of ex_typed d] by (auto simp: ex_entries_def)
qed

lemma ex_keys:
  "list_all (\<lambda>(d, i, kd, z). list_all (\<lambda>(d', i', kd', z').
     key_of (ex_env ex_typed) d = key_of (ex_env ex_typed) d' \<longrightarrow> d' = d) ex_entries) ex_entries"
  by code_simp

lemma ex_key: "key_of (ex_env ex_typed) d = key_of (ex_env ex_typed) d' \<Longrightarrow> (d', i, kd, z) \<in> set ex_entries \<Longrightarrow> d = d'"
proof -
  assume k: "key_of (ex_env ex_typed) d = key_of (ex_env ex_typed) d'" and d': "(d', i, kd, z) \<in> set ex_entries"
  have "\<exists>j kj y. (d, j, kj, y) \<in> set ex_entries"
  proof (rule ccontr)
    assume n: "\<not> (\<exists>j kj y. (d, j, kj, y) \<in> set ex_entries)"
    have m: "map fst ex_entries = [3, 4, 5, 6, 7, 8, 10, 11]" by code_simp
    have "d \<notin> set (map fst ex_entries)" using n by auto
    then have "d \<noteq> 3 \<and> d \<noteq> 4 \<and> d \<noteq> 5 \<and> d \<noteq> 6 \<and> d \<noteq> 7 \<and> d \<noteq> 8 \<and> d \<noteq> 10 \<and> d \<noteq> 11"
      unfolding m by simp
    then have "List.member [0, DW_TAG_compile_unit, DW_TAG_subrange_type] (dtag (ex_typed d))" using ex_other [of d] by auto
    moreover have "\<not> List.member [0, DW_TAG_compile_unit, DW_TAG_subrange_type] (dtag (ex_typed d'))"
      using ex_tags d' unfolding list_all_iff by fastforce
    ultimately show False using k by (simp add: key_of_def ex_env_def)
  qed
  with ex_keys k d' show ?thesis unfolding list_all_iff by fastforce
qed

lemma ex_origin: "origin (ex_env ex_typed) (key_of (ex_env ex_typed) d) i kd \<Longrightarrow> \<exists>z. (d, i, kd, z) \<in> set ex_entries"
proof -
  assume "origin (ex_env ex_typed) (key_of (ex_env ex_typed) d) i kd"
  then obtain d' where d': "key_of (ex_env ex_typed) d' = key_of (ex_env ex_typed) d" "known_entry ex_typed d' = Inr (i, kd)"
    by (auto simp: origin_def external_module_def ex_env_def split: if_splits)
  from ex_known [OF d'(2)] obtain z where "(d', i, kd, z) \<in> set ex_entries" by blast
  with ex_key [of d d'] d'(1) show ?thesis by auto
qed

lemma ex_sizes: "list_all (\<lambda>(d, i, kd, z). die_size 9 8 ex_typed (Some d) = Inr z \<and> die_size 9 8 ex_typed (Some i) = Inr z) ex_entries"
  by code_simp

lemma ex_dsize: "(d, i, kd, z) \<in> set ex_entries \<Longrightarrow> dsize (ex_env ex_typed) d y \<longleftrightarrow> y = z"
  "(d, i, kd, z) \<in> set ex_entries \<Longrightarrow> dsize (ex_env ex_typed) i y \<longleftrightarrow> y = z"
proof -
  have det: "dsize (ex_env ex_typed) d y \<longleftrightarrow> y = z" if d: "die_size 9 8 ex_typed (Some d) = Inr z" for d
  proof -
    have "y = z" if "die_size m 8 ex_typed (Some d) = Inr y" for m y
      using size_fuel.run_determ [where psz = 8 and dw = ex_typed and n = 9 and m = m and x = "Some d"]
      unfolding d that by simp
    moreover have "e_psz (ex_env ex_typed) = 8" "e_dw (ex_env ex_typed) = ex_typed" by (simp_all add: ex_env_def)
    ultimately show ?thesis unfolding dsize_def using d by metis
  qed
  assume "(d, i, kd, z) \<in> set ex_entries"
  with ex_sizes have "case (d, i, kd, z) of (d, i, kd, z) \<Rightarrow>
      die_size 9 8 ex_typed (Some d) = Inr z \<and> die_size 9 8 ex_typed (Some i) = Inr z"
    unfolding list_all_iff by (rule bspec)
  then have z: "die_size 9 8 ex_typed (Some d) = Inr z" "die_size 9 8 ex_typed (Some i) = Inr z"
    unfolding prod.case by blast+
  show "dsize (ex_env ex_typed) d y \<longleftrightarrow> y = z" by (rule det [OF z(1)])
  show "dsize (ex_env ex_typed) i y \<longleftrightarrow> y = z" by (rule det [OF z(2)])
qed


lemma ex_function: "list_all (\<lambda>(d, i, kd, z). list_all (\<lambda>(d', i', kd', z').
    d = d' \<longrightarrow> i = i' \<and> kd = kd' \<and> z = z') ex_entries) ex_entries"
  by code_simp

lemma ex_unique: "(d, i, kd, z) \<in> set ex_entries \<Longrightarrow> (d, i', kd', z') \<in> set ex_entries \<Longrightarrow> i = i' \<and> kd = kd' \<and> z = z'"
  using ex_function unfolding list_all_iff by fastforce

lemma ex_entry_of: "(d, i, kd, z) \<in> set ex_entries \<Longrightarrow> entry_of (ex_env ex_typed) (key_of (ex_env ex_typed) d) f \<Longrightarrow> f = i"
proof -
  assume d: "(d, i, kd, z) \<in> set ex_entries" and "entry_of (ex_env ex_typed) (key_of (ex_env ex_typed) d) f"
  then obtain j kj where j: "origin (ex_env ex_typed) (key_of (ex_env ex_typed) d) j kj" "f = def_die (ex_env ex_typed) j"
    by (auto simp: entry_of_def)
  have "\<not> DW_AT_declaration (ex_typed j)" by (simp add: ex_typed_def mk_die_def)
  then have "f = j" using j(2) by (simp add: def_die_def ex_env_def)
  then show ?thesis using ex_origin [OF j(1)] ex_unique [OF d] by blast
qed

text \<open>What \<open>entry_ok\<close> asks for, without its quantifiers.\<close>

definition ex_check :: "nat \<Rightarrow> tkind \<Rightarrow> int \<Rightarrow> bool" where
  "ex_check i kd z =
     ((kd = KPrim \<longrightarrow> (case (DW_AT_name (ex_typed i), DW_AT_byte_size (ex_typed i)) of
        (Some nm, Some z) \<Rightarrow> map_of abi_sizes nm = Some z | _ \<Rightarrow> False))
     \<and> (kd = KPointer \<longrightarrow> z = 8)
     \<and> (List.member (KArray # quals) kd \<longrightarrow> DW_AT_byte_size (ex_typed i) = None
        \<and> (kd = KArray \<longleftrightarrow> dtag (ex_typed i) = DW_TAG_array_type) \<and> dtag (ex_typed i) \<noteq> DW_TAG_pointer_type
        \<and> (case DW_AT_type (ex_typed i) of None \<Rightarrow> True | Some b \<Rightarrow> list_all (\<lambda>(d, _, kj, _). d = b \<longrightarrow> \<not> List.member funcs kj) ex_entries)))"

lemma ex_checked: "list_all (\<lambda>(d, i, kd, z). ex_check i kd z \<and> \<not> named kd) ex_entries"
  by code_simp

lemma ex_entry_ok:
  assumes d: "(d, i, kd, z) \<in> set ex_entries"
  shows "entry_ok (ex_env ex_typed) (key_of (ex_env ex_typed) d) i kd"
proof -
  have E: "e_psz (ex_env ex_typed) = 8" "e_dw (ex_env ex_typed) = ex_typed" by (simp_all add: ex_env_def)
  have c: "ex_check i kd z" using ex_checked d unfolding list_all_iff by fastforce
  have "\<not> List.member funcs kj" if "case DW_AT_type (ex_typed i) of None \<Rightarrow> True
      | Some b \<Rightarrow> list_all (\<lambda>(d, _, kj, _). d = b \<longrightarrow> \<not> List.member funcs kj) ex_entries"
    "DW_AT_type (ex_typed i) = Some b" "origin (ex_env ex_typed) (key_of (ex_env ex_typed) b) j kj" for b j kj
    using that(1,2) ex_origin [OF that(3)] by (fastforce simp: list_all_iff)
  with c ex_entry_of [OF d] ex_dsize(2) [OF d] show ?thesis
    unfolding entry_ok_def ex_check_def E by (fastforce split: option.splits)
qed

lemma ex_data_ok: "data_ok (ex_env ex_typed)"
proof -
  let ?E = "ex_env ex_typed"
  have 1: "entry_ok ?E k i kd" if o: "origin ?E k i kd" for k i kd
  proof -
    from o obtain d where "k = key_of ?E d" by (auto simp: origin_def)
    with ex_origin [of d i kd] o show ?thesis by (auto intro: ex_entry_ok)
  qed
  have 2: "kj = kd" if o: "origin ?E k i kd" "origin ?E k j kj" for k i kd j kj
  proof -
    from o obtain d where "k = key_of ?E d" by (auto simp: origin_def)
    with ex_origin [of d] o show ?thesis using ex_unique by blast
  qed
  have 3: "dsize ?E i z" if "origin ?E (key_of ?E d) i kd" "dsize ?E d z" for i kd d z
    using ex_origin [OF that(1)] that(2) ex_dsize by blast
  have "e_psz ?E = 8" by (simp add: ex_env_def)
  then show ?thesis unfolding data_ok_def using 1 2 3 by blast
qed

lemma ex_names_ok: "names_ok (ex_env ex_typed) (map_of ctypes_sizes)"
proof -
  have "\<not> named kd" if "origin (ex_env ex_typed) (key_of (ex_env ex_typed) d) i kd" for d i kd
    using ex_origin [OF that] ex_checked unfolding list_all_iff by fastforce
  then show ?thesis unfolding names_ok_def by auto
qed

definition typed_request :: request where
  "typed_request = lib_request\<lparr>q_globals := NamesList [Dotted ''v'']\<rparr>"

lemma ex_typed_run: "\<exists>md s. andthen (init_resolver (ex_env ex_typed) typed_request 9) (write_module (ex_env ex_typed) ex_host 9) rstate0
    = Inr (md, s) \<and> md_globals md = [(''v'', ''c_int * 3'', ''v'')] \<and> md_updates md = [(''f'', ''c_int'', [''c_char_p''])]"
proof -
  have "case andthen (init_resolver (ex_env ex_typed) typed_request 9) (write_module (ex_env ex_typed) ex_host 9) rstate0 of
      Inl _ \<Rightarrow> False | Inr (md, s) \<Rightarrow> md_globals md = [(''v'', ''c_int * 3'', ''v'')] \<and> md_updates md = [(''f'', ''c_int'', [''c_char_p''])]"
    by code_simp
  then show ?thesis by (auto split: sum.splits)
qed

theorem module_types_sized_witness:
  "global_ok (ex_env ex_typed) (map_of ctypes_sizes) (''v'', ''c_int * 3'', ''v'')
    \<and> update_ok (ex_env ex_typed) ex_host (map_of ctypes_sizes) (''f'', ''c_int'', [''c_char_p''])"
proof -
  obtain md s where "andthen (init_resolver (ex_env ex_typed) typed_request 9) (write_module (ex_env ex_typed) ex_host 9) rstate0
      = Inr (md, s)" "md_globals md = [(''v'', ''c_int * 3'', ''v'')]" "md_updates md = [(''f'', ''c_int'', [''c_char_p''])]"
    using ex_typed_run by blast
  then show ?thesis using module_types_sized [OF ex_data_ok ex_names_ok] by fastforce
qed

end
