(* ===== verification/Expression.thy ===== *)
theory Expression
  imports PyIdent "HOL-Library.Char_ord"
begin

text \<open>
  \<open>CTypeGen/expression.py\<close>: the value of a C macro is made a Python expression.  \<open>clean\<close> walks over
  the tokens that Python's \<open>tokenize\<close> finds in the text, copies the text between them, drops the
  suffixes of C numbers and rewrites character constants and octal numbers, and then lets
  Python's parser judge the result.  The tokenizer and the parser are arguments of the model;
  \<open>tiles\<close> states what the code relies on, that tokens are pieces of the text in order.
\<close>

section \<open>Tokens\<close>

text \<open>\<open>TokenInfo\<close> on one line: type, text, first and last column.\<close>

datatype toktype = NUMBER | NAME | STRING | OP | INDENT | ENCODING | OTHER

record tok =
  tk_type :: toktype
  tk_string :: string
  tk_start :: nat
  tk_end :: nat

definition upper_char :: "char \<Rightarrow> char" where
  "upper_char c = (if CHR ''a'' \<le> c \<and> c \<le> CHR ''z'' then char_of (of_char c - 32 :: nat) else c)"

definition upper :: "string \<Rightarrow> string" where
  "upper s = map upper_char s"

definition kill_suffixes :: "string list" where
  "kill_suffixes = [''UL'', ''U'', ''ULL'', ''L'', ''LL'']"

section \<open>Lexical cleanup\<close>

text \<open>What one token becomes, and the names it contributes.  The tokens tested by their first and
  last characters are numbers and strings, which are never empty.\<close>

definition convert :: "toktype option \<Rightarrow> tok \<Rightarrow> string \<times> string list" where
  "convert prev t = (let s = tk_string t in
     if tk_type t = NUMBER \<and> s \<noteq> [] \<and> upper_char (last s) = CHR ''L'' then (butlast s, [])
     else if tk_type t = STRING \<and> length s = 3 \<and> s ! 0 = CHR 0x27 \<and> s ! 2 = CHR 0x27
     then (show_nat (of_char (s ! 1)), [])
     else if tk_type t = NUMBER \<and> 2 \<le> length s \<and> s ! 0 = CHR ''0'' \<and> upper_char (s ! 1) \<noteq> CHR ''X''
     then (''0o'' @ tl s, [])
     else if prev = Some NUMBER \<and> tk_type t = NAME \<and> List.member kill_suffixes (upper s) then ([], [])
     else (s, if tk_type t = NAME then [s] else []))"

definition skipped :: "tok \<Rightarrow> bool" where
  "skipped t = (tk_type t = INDENT \<or> tk_type t = ENCODING)"

text \<open>\<open>input_[ prev_tok.end[ 1 ] : tok.start[ 1 ] ]\<close>\<close>

definition gap :: "string \<Rightarrow> tok option \<Rightarrow> tok \<Rightarrow> string" where
  "gap input prev t =
     (case prev of None \<Rightarrow> [] | Some p \<Rightarrow> take (tk_start t - tk_end p) (drop (tk_end p) input))"

type_synonym lex_state = "string \<times> string list \<times> tok option"

definition lex_step :: "string \<Rightarrow> lex_state \<Rightarrow> tok \<Rightarrow> lex_state" where
  "lex_step input st t = (case st of (output, names, prev) \<Rightarrow>
     if skipped t then st
     else (case convert (map_option tk_type prev) t of
       (text, ns) \<Rightarrow> (output @ gap input prev t @ text, names @ ns, Some t)))"

definition clean_tokens :: "string \<Rightarrow> tok list \<Rightarrow> string \<times> string list" where
  "clean_tokens input tokens =
     (case foldl (lex_step input) ([], [], None) tokens of (output, names, _) \<Rightarrow> (output, names))"

section \<open>The verdict of the parser\<close>

text \<open>What \<open>ast.parse\<close> makes of a text: an error, or a module whose body is one expression (which
  may be a set) or something else.\<close>

datatype parse_result = ParseError | OneExpr bool | OtherBody

definition clean :: "(string \<Rightarrow> tok list option) \<Rightarrow> (string \<Rightarrow> parse_result) \<Rightarrow> string
    \<Rightarrow> (string \<times> string list) option" where
  "clean tokenize parse input =
     (case tokenize input of
        None \<Rightarrow> None
      | Some tokens \<Rightarrow>
          (case clean_tokens input tokens of (output, names) \<Rightarrow>
             (case parse output of
                ParseError \<Rightarrow> None
              | OtherBody \<Rightarrow> None
              | OneExpr is_set \<Rightarrow> if is_set then None else Some (output, names))))"

section \<open>Tokens that tile the text\<close>

text \<open>From column \<open>i\<close> on the tokens follow each other and are pieces of the text.\<close>

fun tiles :: "string \<Rightarrow> nat \<Rightarrow> tok list \<Rightarrow> bool" where
  "tiles input i [] = True"
| "tiles input i (t # ts) =
     (i \<le> tk_start t \<and> tk_end t = tk_start t + length (tk_string t) \<and> tk_end t \<le> length input
      \<and> tk_string t = take (length (tk_string t)) (drop (tk_start t) input)
      \<and> \<not> skipped t \<and> tiles input (tk_end t) ts)"

text \<open>No token needs rewriting.\<close>

fun plain :: "toktype option \<Rightarrow> tok list \<Rightarrow> bool" where
  "plain prev [] = True"
| "plain prev (t # ts) = (fst (convert prev t) = tk_string t \<and> plain (Some (tk_type t)) ts)"

definition name_tokens :: "tok list \<Rightarrow> string list" where
  "name_tokens ts = map tk_string (filter (\<lambda>t. tk_type t = NAME) ts)"

text \<open>Each token becomes its conversion, with the text before it.\<close>

fun rewritten :: "string \<Rightarrow> tok option \<Rightarrow> tok list \<Rightarrow> string" where
  "rewritten input prev [] = []"
| "rewritten input prev (t # ts) =
     gap input prev t @ fst (convert (map_option tk_type prev) t) @ rewritten input (Some t) ts"

fun used_names :: "toktype option \<Rightarrow> tok list \<Rightarrow> string list" where
  "used_names prev [] = []"
| "used_names prev (t # ts) = snd (convert prev t) @ used_names (Some (tk_type t)) ts"

lemma lex_foldl:
  "list_all (\<lambda>t. \<not> skipped t) ts \<Longrightarrow>
   foldl (lex_step input) (w, ns, p) ts
   = (w @ rewritten input p ts, ns @ used_names (map_option tk_type p) ts,
      if ts = [] then p else Some (last ts))"
proof (induction ts arbitrary: w ns p)
  case (Cons t ts)
  have "lex_step input (w, ns, p) t = (w @ gap input p t @ fst (convert (map_option tk_type p) t),
      ns @ snd (convert (map_option tk_type p) t), Some t)"
    using Cons.prems by (simp add: lex_step_def split: prod.split)
  with Cons show ?case by simp
qed simp

lemma tiles_unskipped: "tiles input i ts \<Longrightarrow> list_all (\<lambda>t. \<not> skipped t) ts"
  by (induction input i ts rule: tiles.induct) auto

lemma convert_names: "set (snd (convert prev t)) \<subseteq> {tk_string t}"
  by (auto simp: convert_def Let_def)

lemma plain_convert:
  "fst (convert prev t) = tk_string t \<Longrightarrow> tk_string t \<noteq> [] \<Longrightarrow>
   snd (convert prev t) = (if tk_type t = NAME then [tk_string t] else [])"
  by (auto simp: convert_def Let_def split: if_splits)

lemma take_drop_join:
  "i \<le> j \<Longrightarrow> j \<le> k \<Longrightarrow> take (j - i) (drop i s) @ take (k - j) (drop j s) = take (k - i) (drop i s)"
  by (metis (no_types, lifting) add_diff_inverse_nat diff_add_assoc2 drop_drop le_add_diff_inverse
      le_add_diff_inverse2 not_less take_add)

lemma rewritten_plain:
  "tiles input (tk_end p) ts \<Longrightarrow> plain (Some (tk_type p)) ts \<Longrightarrow>
   rewritten input (Some p) ts = take ((if ts = [] then tk_end p else tk_end (last ts)) - tk_end p) (drop (tk_end p) input)
   \<and> tk_end p \<le> (if ts = [] then tk_end p else tk_end (last ts))"
proof (induction ts arbitrary: p)
  case (Cons t ts)
  let ?e = "if ts = [] then tk_end t else tk_end (last ts)"
  have tl: "tiles input (tk_end t) ts" "plain (Some (tk_type t)) ts" using Cons.prems by auto
  from Cons.IH [OF tl] have IH: "rewritten input (Some t) ts = take (?e - tk_end t) (drop (tk_end t) input)" "tk_end t \<le> ?e"
    by blast+
  have t: "tk_end p \<le> tk_start t" "tk_end t = tk_start t + length (tk_string t)"
    and s: "tk_string t = take (tk_end t - tk_start t) (drop (tk_start t) input)"
    using Cons.prems(1) by auto
  have "rewritten input (Some p) (t # ts)
    = take (tk_start t - tk_end p) (drop (tk_end p) input) @ tk_string t @ take (?e - tk_end t) (drop (tk_end t) input)"
    using Cons.prems(2) IH(1) by (simp add: gap_def)
  also have "\<dots> = take (tk_start t - tk_end p) (drop (tk_end p) input)
      @ take (?e - tk_start t) (drop (tk_start t) input)"
    by (subst s, subst take_drop_join) (use t(2) IH(2) in simp_all)
  also have "\<dots> = take (?e - tk_end p) (drop (tk_end p) input)"
    by (rule take_drop_join) (use t IH(2) in simp_all)
  finally have r: "rewritten input (Some p) (t # ts) = take (?e - tk_end p) (drop (tk_end p) input)" .
  have "tk_end p \<le> ?e" using t IH(2) by simp
  with r show ?case by (auto simp del: rewritten.simps)
qed simp

section \<open>Properties\<close>


text \<open>\<open>(A + 10)\<close>\<close>

definition ex_tokens :: "tok list" where
  "ex_tokens = [\<lparr>tk_type = OP, tk_string = ''('', tk_start = 0, tk_end = 1\<rparr>,
     \<lparr>tk_type = NAME, tk_string = ''A'', tk_start = 1, tk_end = 2\<rparr>,
     \<lparr>tk_type = OP, tk_string = ''+'', tk_start = 3, tk_end = 4\<rparr>,
     \<lparr>tk_type = NUMBER, tk_string = ''10'', tk_start = 5, tk_end = 7\<rparr>,
     \<lparr>tk_type = OP, tk_string = '')'', tk_start = 7, tk_end = 8\<rparr>]"


text \<open>The precision suffix of a C number is dropped and is not taken for a name.\<close>

lemma clean_suffix:
  assumes "List.member kill_suffixes (upper suffix)" and "ds \<noteq> []" and "upper_char (last ds) \<noteq> CHR ''L''"
    and "hd ds \<noteq> CHR ''0'' \<or> length ds = 1 \<or> upper_char (ds ! 1) = CHR ''X''"
  shows "clean_tokens (ds @ suffix)
      [\<lparr>tk_type = NUMBER, tk_string = ds, tk_start = 0, tk_end = length ds\<rparr>,
       \<lparr>tk_type = NAME, tk_string = suffix, tk_start = length ds, tk_end = length ds + length suffix\<rparr>]
    = (ds, [])"
proof -
  have "ds ! 0 \<noteq> CHR ''0'' \<or> length ds < 2 \<or> upper_char (ds ! 1) = CHR ''X''"
    using assms(2,4) by (auto simp: hd_conv_nth)
  then show ?thesis
    using assms(1-3) by (auto simp: clean_tokens_def lex_step_def skipped_def convert_def gap_def Let_def)
qed

lemma clean_suffix_example:
  "clean_tokens ''0x1Ful''
      [\<lparr>tk_type = NUMBER, tk_string = ''0x1F'', tk_start = 0, tk_end = 4\<rparr>,
       \<lparr>tk_type = NAME, tk_string = ''ul'', tk_start = 4, tk_end = 6\<rparr>]
    = (''0x1F'', [])"
proof -
  have "List.member kill_suffixes (upper ''ul'')" "upper_char (last ''0x1F'') \<noteq> CHR ''L''"
    "upper_char (''0x1F'' ! 1) = CHR ''X''" by code_simp+
  then show ?thesis using clean_suffix [of "''ul''" "''0x1F''"] by (simp add: eval_nat_numeral)
qed

lemma last_show_nat: "last (show_nat n) = digit_char (n mod 10)"
  by (subst show_nat.simps) simp

lemma digit_no_L: "d < 10 \<Longrightarrow> upper_char (digit_char d) \<noteq> CHR ''L''"
proof -
  assume "d < 10"
  then have "d \<in> set [0, 1, 2, 3, 4, 5, 6, 7, 8, 9]" by auto
  then show ?thesis by (auto simp: digit_char_def upper_char_def less_eq_char_def)
qed

text \<open>A decimal fraction below one is taken for an octal number: \<open>0.5\<close> becomes \<open>0o.5\<close>, which is no
  Python expression, so a macro with such a value is lost.\<close>

lemma clean_fraction_broken:
  "clean_tokens (''0.'' @ show_nat n)
      [\<lparr>tk_type = NUMBER, tk_string = ''0.'' @ show_nat n, tk_start = 0, tk_end = 2 + length (show_nat n)\<rparr>]
    = (''0o.'' @ show_nat n, [])"
proof -
  have ne: "show_nat n \<noteq> []" by (subst show_nat.simps) simp
  have "upper_char (last (show_nat n)) \<noteq> CHR ''L''"
    by (simp add: last_show_nat digit_no_L)
  moreover have "upper_char CHR ''.'' \<noteq> CHR ''X''" by code_simp
  ultimately show ?thesis
    using ne by (simp add: clean_tokens_def lex_step_def skipped_def convert_def gap_def Let_def)
qed

end
