(* ===== verification/Constants.thy ===== *)
theory Constants
  imports Expression
begin

text \<open>
  Integer constants in macros: what \<open>clean\<close> makes of the tokens Python 3 finds in an integer
  constant of C, and which value Python gives the result.
\<close>

section \<open>Integer constants of C\<close>

text \<open>The octal constant has its leading zero apart; the hexadecimal one has \<open>x\<close> or \<open>X\<close> first.\<close>

datatype c_const = Dec string | Oct string | Hex char string

definition hex_digits :: "(char \<times> nat) list" where
  "hex_digits = zip ''0123456789abcdef'' [0..<16] @ zip ''ABCDEF'' [10..<16]"

definition digit_of :: "char \<Rightarrow> nat" where
  "digit_of c = (case map_of hex_digits c of Some d \<Rightarrow> d | None \<Rightarrow> 0)"

definition is_hex :: "char \<Rightarrow> bool" where
  "is_hex c = List.member (map fst hex_digits) c"

definition is_digit :: "char \<Rightarrow> bool" where
  "is_digit c = List.member digits c"

definition is_oct :: "char \<Rightarrow> bool" where
  "is_oct c = List.member ''01234567'' c"

definition number :: "nat \<Rightarrow> string \<Rightarrow> nat" where
  "number base ds = foldl (\<lambda>n c. base * n + digit_of c) 0 ds"

fun c_constant :: "c_const \<Rightarrow> bool" where
  "c_constant (Dec ds) = (list_all is_digit ds \<and> ds \<noteq> [] \<and> hd ds \<noteq> CHR ''0'')"
| "c_constant (Oct ds) = list_all is_oct ds"
| "c_constant (Hex x ds) = (List.member ''xX'' x \<and> list_all is_hex ds \<and> ds \<noteq> [])"

fun c_digits :: "c_const \<Rightarrow> string" where
  "c_digits (Dec ds) = ds"
| "c_digits (Oct ds) = CHR ''0'' # ds"
| "c_digits (Hex x ds) = CHR ''0'' # x # ds"

fun c_value :: "c_const \<Rightarrow> nat" where
  "c_value (Dec ds) = number 10 ds"
| "c_value (Oct ds) = number 8 ds"
| "c_value (Hex x ds) = number 16 ds"

definition c_suffixes :: "string list" where
  "c_suffixes = [''U'', ''L'', ''LL'', ''UL'', ''ULL'', ''LU'', ''LLU'']"

section \<open>Python's reading of numbers\<close>

text \<open>The part of \<open>tokenize\<close> that such a constant reaches: a number is hexadecimal, octal or binary with
  its prefix, zeros, or decimal digits that do not start with a zero; the letters that follow are a
  name.  \<open>number_rest\<close> is how much of the text behind the first digit belongs to the number.\<close>

definition number_rest :: "char \<Rightarrow> string \<Rightarrow> nat" where
  "number_rest c cs =
     (let with = (\<lambda>xs p. c = CHR ''0'' \<and> cs \<noteq> [] \<and> List.member xs (hd cs) \<and> tl cs \<noteq> [] \<and> p (hd (tl cs))) in
      if with ''xX'' is_hex then Suc (length (takeWhile is_hex (tl cs)))
      else if with ''bB'' (List.member ''01'') then Suc (length (takeWhile (List.member ''01'') (tl cs)))
      else if with ''oO'' is_oct then Suc (length (takeWhile is_oct (tl cs)))
      else if c = CHR ''0'' then length (takeWhile (\<lambda>d. d = CHR ''0'') cs)
      else length (takeWhile is_digit cs))"

function py_tokens :: "nat \<Rightarrow> string \<Rightarrow> tok list" where
  "py_tokens i [] = []"
| "py_tokens i (c # cs) =
     (let k = (if is_digit c then number_rest c cs else length (takeWhile ident_char cs));
          s = c # take k cs
      in \<lparr>tk_type = (if is_digit c then NUMBER else NAME), tk_string = s, tk_start = i, tk_end = i + length s\<rparr>
         # py_tokens (i + length s) (drop k cs))"
  by pat_completeness auto
termination by (relation "measure (\<lambda>(_, s). length s)") (auto simp: less_Suc_eq_le)

definition py_tokenize :: "string \<Rightarrow> tok list" where
  "py_tokenize s =
     \<lparr>tk_type = ENCODING, tk_string = ''utf-8'', tk_start = 0, tk_end = 0\<rparr> # py_tokens 0 s
     @ [\<lparr>tk_type = OTHER, tk_string = [], tk_start = length s, tk_end = length s + 1\<rparr>,
        \<lparr>tk_type = OTHER, tk_string = [], tk_start = 0, tk_end = 0\<rparr>]"

text \<open>The value of an integer literal of Python; a decimal one starts with zero only if it is zero.\<close>

definition py_int :: "string \<Rightarrow> nat option" where
  "py_int s =
     (let with = (\<lambda>xs p. hd s = CHR ''0'' \<and> List.member xs (hd (tl s)) \<and> drop 2 s \<noteq> [] \<and> list_all p (drop 2 s)) in
      if s = [] then None
      else if tl s \<noteq> [] \<and> with ''xX'' is_hex then Some (number 16 (drop 2 s))
      else if tl s \<noteq> [] \<and> with ''bB'' (List.member ''01'') then Some (number 2 (drop 2 s))
      else if tl s \<noteq> [] \<and> with ''oO'' is_oct then Some (number 8 (drop 2 s))
      else if list_all is_digit s \<and> (hd s \<noteq> CHR ''0'' \<or> list_all (\<lambda>d. d = CHR ''0'') s) then Some (number 10 s)
      else None)"

section \<open>Lemmas\<close>

lemma upper_char_letter:
  "upper_char c = CHR ''U'' \<Longrightarrow> c \<in> {CHR ''u'', CHR ''U''}"
  "upper_char c = CHR ''L'' \<Longrightarrow> c \<in> {CHR ''l'', CHR ''L''}"
proof -
  have *: "c = d \<or> c = e" if "upper_char c = e" "of_char e + 32 = (of_char d :: nat)" "of_char d < (256 :: nat)" for d e
  proof (cases "CHR ''a'' \<le> c \<and> c \<le> CHR ''z''")
    case True
    then have "97 \<le> (of_char c :: nat)" by (simp add: less_eq_char_def)
    moreover have "(of_char c - 32 :: nat) mod 256 = of_char e"
      using that(1) True by (metis of_char_of upper_char_def)
    moreover have "(of_char c :: nat) < 256" by (rule nat_of_char_less_256)
    ultimately have "(of_char c :: nat) = of_char e + 32" by simp
    then have "(of_char c :: nat) = of_char d" using that(2) by (rule trans)
    then have "c = d" by (rule iffD1 [OF of_char_eq_iff])
    then show ?thesis by simp
  next
    case False
    with that(1) show ?thesis by (auto simp: upper_char_def)
  qed
  show "upper_char c = CHR ''U'' \<Longrightarrow> c \<in> {CHR ''u'', CHR ''U''}" using * [of "CHR ''U''" "CHR ''u''"] by auto
  show "upper_char c = CHR ''L'' \<Longrightarrow> c \<in> {CHR ''l'', CHR ''L''}" using * [of "CHR ''L''" "CHR ''l''"] by auto
qed

definition suffix_char :: "char \<Rightarrow> bool" where
  "suffix_char c = List.member ''uUlL'' c"

lemma suffix_chars: "suffix = [] \<or> List.member c_suffixes (upper suffix) \<Longrightarrow> list_all suffix_char suffix"
proof (cases "suffix = []")
  case False
  moreover assume "suffix = [] \<or> List.member c_suffixes (upper suffix)"
  ultimately have "set (upper suffix) \<subseteq> {CHR ''U'', CHR ''L''}" by (auto simp: c_suffixes_def)
  then have "upper_char c = CHR ''U'' \<or> upper_char c = CHR ''L''" if "c \<in> set suffix" for c
    using that by (auto simp: upper_def)
  then show ?thesis using upper_char_letter by (fastforce simp: list_all_iff suffix_char_def)
qed simp

lemma suffix_char_plain:
  "suffix_char c \<Longrightarrow> ident_char c \<and> \<not> is_digit c \<and> \<not> is_hex c \<and> \<not> is_oct c \<and> c \<notin> set ''xXbBoO01''"
  by (auto simp: suffix_char_def ident_char_def letters_def is_digit_def digits_def is_hex_def
      hex_digits_def is_oct_def)

lemma oct_digit: "is_oct c \<Longrightarrow> is_digit c" "is_digit c \<Longrightarrow> is_hex c"
  "is_digit c \<Longrightarrow> c \<notin> set ''xXbBoOlLuU''"
  by (auto simp: is_oct_def is_digit_def digits_def is_hex_def hex_digits_def)


lemma takeWhile_parts: "list_all P xs \<Longrightarrow> list_all (\<lambda>x. \<not> P x) ys \<Longrightarrow> takeWhile P (xs @ ys) = xs"
  by (cases ys) (auto simp: list_all_iff takeWhile_append)

text \<open>One number at the start of the text, and the suffix at its end.\<close>

lemma number_token:
  assumes "is_digit c" and "number_rest c (cs @ r) = length cs"
  shows "py_tokens i (c # cs @ r)
    = \<lparr>tk_type = NUMBER, tk_string = c # cs, tk_start = i, tk_end = i + length (c # cs)\<rparr>
      # py_tokens (i + length (c # cs)) r"
  using assms by (simp add: Let_def)

lemma suffix_token:
  assumes "list_all suffix_char suf"
  shows "py_tokens i suf = (if suf = [] then []
    else [\<lparr>tk_type = NAME, tk_string = suf, tk_start = i, tk_end = i + length suf\<rparr>])"
proof (cases suf)
  case (Cons c cs)
  have "takeWhile ident_char cs = cs"
    using assms Cons suffix_char_plain by (auto simp: list_all_iff takeWhile_eq_all_conv)
  then have "length (takeWhile ident_char cs) = length cs" by (rule arg_cong)
  with Cons assms show ?thesis by (simp add: suffix_char_plain Let_def)
qed simp

lemma digits_rest:
  assumes "list_all is_digit cs" and "list_all suffix_char suf" and "c \<noteq> CHR ''0''"
  shows "number_rest c (cs @ suf) = length cs"
proof -
  have "takeWhile is_digit (cs @ suf) = cs"
    using assms(1,2) suffix_char_plain by (intro takeWhile_parts) (auto simp: list_all_iff)
  then show ?thesis using assms(3) by (simp add: number_rest_def)
qed

lemma hex_rest:
  assumes "list_all is_hex ds" and "ds \<noteq> []" and "List.member ''xX'' x" and "list_all suffix_char suf"
  shows "number_rest CHR ''0'' ((x # ds) @ suf) = length (x # ds)"
proof -
  have "takeWhile is_hex (ds @ suf) = ds"
    using assms(1,4) suffix_char_plain by (intro takeWhile_parts) (auto simp: list_all_iff)
  with assms(1-3) show ?thesis by (cases ds) (simp_all add: number_rest_def)
qed

lemma zeros_rest:
  assumes "list_all (\<lambda>c. c = CHR ''0'') zs" and "list_all is_oct rs" and "rs = [] \<or> hd rs \<noteq> CHR ''0''"
    and "list_all suffix_char suf"
  shows "number_rest CHR ''0'' (zs @ rs @ suf) = length zs"
proof -
  have hd: "hd (zs @ rs @ suf) \<notin> set ''xXbBoO''" if "zs @ rs @ suf \<noteq> []"
  proof -
    have "is_oct CHR ''0''" by (simp add: is_oct_def)
    with assms have "is_oct (hd (zs @ rs @ suf)) \<or> suffix_char (hd (zs @ rs @ suf))"
      using that by (cases zs; cases rs; cases suf) auto
    then show ?thesis using oct_digit(1,3) suffix_char_plain by fastforce
  qed
  have "takeWhile (\<lambda>c. c = CHR ''0'') (zs @ rs @ suf) = zs"
  proof -
    have "takeWhile (\<lambda>c. c = CHR ''0'') (rs @ suf) = []"
      using assms(3,4) by (cases rs; cases suf) (auto simp: suffix_char_def)
    with assms(1) show ?thesis by (auto simp: list_all_iff takeWhile_append)
  qed
  with hd show ?thesis by (auto simp: number_rest_def)
qed

text \<open>Tokens that follow each other without a gap.\<close>

fun lay :: "nat \<Rightarrow> (toktype \<times> string) list \<Rightarrow> tok list" where
  "lay i [] = []"
| "lay i ((ty, s) # r) = \<lparr>tk_type = ty, tk_string = s, tk_start = i, tk_end = i + length s\<rparr> # lay (i + length s) r"

fun conv_text :: "toktype option \<Rightarrow> (toktype \<times> string) list \<Rightarrow> string" where
  "conv_text prev [] = []"
| "conv_text prev ((ty, s) # r) = fst (convert prev \<lparr>tk_type = ty, tk_string = s, tk_start = 0, tk_end = 0\<rparr>) @ conv_text (Some ty) r"

fun conv_names :: "toktype option \<Rightarrow> (toktype \<times> string) list \<Rightarrow> string list" where
  "conv_names prev [] = []"
| "conv_names prev ((ty, s) # r) = snd (convert prev \<lparr>tk_type = ty, tk_string = s, tk_start = 0, tk_end = 0\<rparr>) @ conv_names (Some ty) r"

lemma convert_position: "convert prev \<lparr>tk_type = ty, tk_string = s, tk_start = i, tk_end = j\<rparr>
  = convert prev \<lparr>tk_type = ty, tk_string = s, tk_start = 0, tk_end = 0\<rparr>"
  unfolding convert_def tok.simps by (rule refl)

lemma convert_empty: "convert prev \<lparr>tk_type = OTHER, tk_string = [], tk_start = i, tk_end = j\<rparr> = ([], [])"
  by (simp add: convert_def Let_def)

lemma lay_rewritten:
  assumes "case p of None \<Rightarrow> True | Some q \<Rightarrow> tk_end q = i"
    and "length s = i + length (concat (map snd ps))"
  shows "rewritten s p (lay i ps @ [\<lparr>tk_type = OTHER, tk_string = [], tk_start = length s, tk_end = length s + 1\<rparr>,
      \<lparr>tk_type = OTHER, tk_string = [], tk_start = 0, tk_end = 0\<rparr>]) = conv_text (map_option tk_type p) ps
    \<and> used_names (map_option tk_type p) (lay i ps @ [\<lparr>tk_type = OTHER, tk_string = [], tk_start = length s, tk_end = length s + 1\<rparr>,
      \<lparr>tk_type = OTHER, tk_string = [], tk_start = 0, tk_end = 0\<rparr>]) = conv_names (map_option tk_type p) ps"
  using assms
proof (induction ps arbitrary: i p)
  case Nil
  then show ?case by (auto simp: gap_def convert_empty split: option.splits)
next
  case (Cons a ps)
  obtain ty w where a: "a = (ty, w)" by (cases a)
  from Cons.IH [where p = "Some \<lparr>tk_type = ty, tk_string = w, tk_start = i, tk_end = i + length w\<rparr>" and i = "i + length w"] Cons.prems
  show ?case by (auto simp: a gap_def convert_position [of _ _ _ i] split: option.splits)
qed

lemma clean_lay:
  assumes "py_tokens 0 s = lay 0 ps" and "s = concat (map snd ps)" and "list_all (\<lambda>p. List.member [NUMBER, NAME] (fst p)) ps"
  shows "clean_tokens s (py_tokenize s) = (conv_text None ps, conv_names None ps)"
proof -
  let ?ts = "lay 0 ps @ [\<lparr>tk_type = OTHER, tk_string = [], tk_start = length s, tk_end = length s + 1\<rparr>,
      \<lparr>tk_type = OTHER, tk_string = [], tk_start = 0, tk_end = 0\<rparr>]"
  have "list_all (\<lambda>t. \<not> skipped t) (lay i ps)" for i
    using assms(3) by (induction i ps rule: lay.induct) (auto simp: skipped_def)
  then have "list_all (\<lambda>t. \<not> skipped t) ?ts" by (simp add: skipped_def)
  from lex_foldl [OF this, of s "[]" "[]" None] lay_rewritten [where p = None and i = 0 and s = s and ps = ps] assms(1,2)
  show ?thesis by (simp add: clean_tokens_def py_tokenize_def lex_step_def skipped_def)
qed

text \<open>The constant without its suffix, as \<open>clean\<close> writes it.\<close>

fun py_digits :: "c_const \<Rightarrow> string" where
  "py_digits (Dec ds) = ds"
| "py_digits (Oct ds) = (if ds \<noteq> [] \<and> hd ds = CHR ''0'' then ''0o'' else ''0'') @ ds"
| "py_digits (Hex x ds) = CHR ''0'' # x # ds"

definition numbers :: "c_const \<Rightarrow> string list" where
  "numbers k = (case k of
     Oct ds \<Rightarrow> (case dropWhile (\<lambda>c. c = CHR ''0'') ds of
        [] \<Rightarrow> [CHR ''0'' # ds] | rs \<Rightarrow> [CHR ''0'' # takeWhile (\<lambda>c. c = CHR ''0'') ds, rs])
   | _ \<Rightarrow> [c_digits k])"

lemma last_plain: "s \<noteq> [] \<Longrightarrow> list_all is_hex s \<Longrightarrow> upper_char (last s) \<noteq> CHR ''L''"
  using upper_char_letter(2) [of "last s"] suffix_char_plain [of "last s"] last_in_set [of s]
  by (fastforce simp: list_all_iff suffix_char_def)

lemma constant_tokens:
  assumes "c_constant k" and "list_all suffix_char suf"
  shows "py_tokens 0 (c_digits k @ suf)
    = lay 0 (map (Pair NUMBER) (numbers k) @ (if suf = [] then [] else [(NAME, suf)]))"
proof (cases k)
  case (Dec ds)
  then obtain c cs where "ds = c # cs" "is_digit c" "list_all is_digit cs" "c \<noteq> CHR ''0''"
    using assms(1) by (cases ds) auto
  with Dec show ?thesis
    using number_token [of c cs suf 0] digits_rest assms(2)
    by (simp add: numbers_def suffix_token [OF assms(2)] del: py_tokens.simps)
next
  case (Hex x ds)
  then show ?thesis
    using number_token [of "CHR ''0''" "x # ds" suf 0] hex_rest [of ds x suf] assms
    by (simp add: numbers_def suffix_token [OF assms(2)] is_digit_def digits_def del: py_tokens.simps)
next
  case (Oct ds)
  let ?zs = "takeWhile (\<lambda>c. c = CHR ''0'') ds" and ?rs = "dropWhile (\<lambda>c. c = CHR ''0'') ds"
  have zs: "list_all (\<lambda>c. c = CHR ''0'') ?zs" by (simp add: list_all_iff) (blast dest: set_takeWhileD)
  have rs: "list_all is_oct ?rs" "?rs = [] \<or> hd ?rs \<noteq> CHR ''0''"
    using assms(1) Oct set_dropWhileD [of _ _ ds] hd_dropWhile [of "\<lambda>c. c = CHR ''0''" ds]
    by (simp_all add: list_all_iff) blast
  have ds: "?zs @ ?rs = ds" by (rule takeWhile_dropWhile_id)
  have z: "py_tokens 0 (c_digits k @ suf)
      = lay 0 [(NUMBER, CHR ''0'' # ?zs)] @ py_tokens (Suc (length ?zs)) (?rs @ suf)"
    using number_token [of "CHR ''0''" ?zs "?rs @ suf" 0] zeros_rest [OF zs rs assms(2)]
    by (simp add: Oct is_digit_def digits_def flip: append_assoc del: py_tokens.simps append_assoc)
  show ?thesis
  proof (cases ?rs)
    case Nil
    have n: "numbers k = [CHR ''0'' # ds]" by (simp add: numbers_def Oct Nil)
    have "?zs = ds" using ds unfolding Nil by simp
    with z show ?thesis unfolding n Nil by (simp add: suffix_token [OF assms(2)] del: py_tokens.simps)
  next
    case (Cons r rs')
    then have "number_rest r (rs' @ suf) = length rs'" "is_digit r"
      using rs by (auto intro!: digits_rest assms(2) simp: list_all_iff oct_digit)
    with Cons z number_token [of r rs' suf] show ?thesis
      by (simp add: Oct numbers_def suffix_token [OF assms(2)] del: py_tokens.simps)
  qed
qed


lemma numbers_text: "concat (numbers k) = c_digits k"
  by (auto simp: numbers_def split: c_const.splits list.splits) (metis takeWhile_dropWhile_id)

definition killed :: "string \<Rightarrow> bool" where
  "killed suf = List.member kill_suffixes (upper suf)"

lemma suffix_conversion:
  assumes "c_constant k" and "list_all suffix_char suf"
  shows "conv_text None (map (Pair NUMBER) (numbers k) @ (if suf = [] then [] else [(NAME, suf)]))
      = py_digits k @ (if killed suf then [] else suf)
    \<and> conv_names None (map (Pair NUMBER) (numbers k) @ (if suf = [] then [] else [(NAME, suf)]))
      = (if suf = [] \<or> killed suf then [] else [suf])"
proof -
  have num: "convert prev \<lparr>tk_type = NUMBER, tk_string = ds, tk_start = 0, tk_end = 0\<rparr> = (ds, [])"
    if "ds \<noteq> []" "upper_char (last ds) \<noteq> CHR ''L''"
       "hd ds = CHR ''0'' \<Longrightarrow> tl ds \<noteq> [] \<Longrightarrow> upper_char (hd (tl ds)) = CHR ''X''" for prev ds
    using that by (cases ds; cases "tl ds") (auto simp: convert_def Let_def)
  have oct: "convert prev \<lparr>tk_type = NUMBER, tk_string = CHR ''0'' # CHR ''0'' # ds, tk_start = 0, tk_end = 0\<rparr>
      = (''0o0'' @ ds, [])" if "list_all is_hex ds" for prev ds
    using that last_plain [of "CHR ''0'' # ds"]
    by (auto simp: convert_def Let_def is_hex_def hex_digits_def upper_char_def less_eq_char_def)
  have suf: "convert (Some NUMBER) \<lparr>tk_type = NAME, tk_string = suf, tk_start = 0, tk_end = 0\<rparr>
      = (if killed suf then ([], []) else (suf, [suf]))"
    by (simp add: convert_def Let_def killed_def)
  have app: "conv_text prev (map (Pair NUMBER) ns @ [(NAME, suf)]) = conv_text prev (map (Pair NUMBER) ns)
        @ (if killed suf then [] else suf)"
      "conv_names prev (map (Pair NUMBER) ns @ [(NAME, suf)]) = conv_names prev (map (Pair NUMBER) ns)
        @ (if killed suf then [] else [suf])" if "ns \<noteq> []" for prev ns
    using that
  proof (induction ns arbitrary: prev)
    case (Cons x xs)
    { case 1 then show ?case using Cons.IH(1) [of "Some NUMBER"] suf by (cases xs) auto }
    { case 2 then show ?case using Cons.IH(2) [of "Some NUMBER"] suf by (cases xs) auto }
  qed simp_all
  have n: "conv_text None (map (Pair NUMBER) (numbers k)) = py_digits k \<and> conv_names None (map (Pair NUMBER) (numbers k)) = []"
  proof (cases k)
    case (Dec ds)
    then have "upper_char (last ds) \<noteq> CHR ''L''"
      using assms(1) by (intro last_plain) (auto simp: list_all_iff oct_digit)
    with Dec num [of ds] assms(1) show ?thesis by (simp add: numbers_def)
  next
    case (Hex x ds)
    then have "upper_char (last ds) \<noteq> CHR ''L''" using assms(1) by (intro last_plain) auto
    moreover have "upper_char CHR ''x'' = CHR ''X''" "upper_char CHR ''X'' = CHR ''X''" by code_simp+
    then have "upper_char x = CHR ''X''" using assms(1) Hex by auto
    ultimately show ?thesis using Hex num [of "CHR ''0'' # x # ds"] assms(1) by (simp add: numbers_def)
  next
    case (Oct ds)
    let ?zs = "takeWhile (\<lambda>c. c = CHR ''0'') ds" and ?rs = "dropWhile (\<lambda>c. c = CHR ''0'') ds"
    have hex: "list_all is_hex ds" "\<And>c. c \<in> set ds \<Longrightarrow> is_hex c"
      using assms(1) Oct oct_digit by (auto simp: list_all_iff)
    have z: "conv_text prev [(NUMBER, CHR ''0'' # zs)] = (if zs = [] then ''0'' else ''0o0'' @ tl zs)
        \<and> conv_names prev [(NUMBER, CHR ''0'' # zs)] = []"
      if "list_all (\<lambda>c. c = CHR ''0'') zs" for prev zs
    proof (cases zs)
      case Nil
      then show ?thesis using num [of "''0''" prev] by (simp add: upper_char_def less_eq_char_def)
    next
      case (Cons c cs)
      moreover have "list_all is_hex cs" using that Cons by (auto simp: list_all_iff is_hex_def hex_digits_def)
      ultimately show ?thesis using that oct [of cs prev] by simp
    qed
    have zs: "list_all (\<lambda>c. c = CHR ''0'') ?zs" by (simp add: list_all_iff) (blast dest: set_takeWhileD)
    show ?thesis
    proof (cases ?rs)
      case Nil
      then have "list_all (\<lambda>c. c = CHR ''0'') ds" by (simp add: list_all_iff)
      moreover have "numbers k = [CHR ''0'' # ds]" by (simp add: numbers_def Oct Nil)
      ultimately show ?thesis using z [of ds None] Oct by (cases ds) auto
    next
      case (Cons r rs)
      have ds: "ds = ?zs @ r # rs" using takeWhile_dropWhile_id [of _ ds] Cons by metis
      have "r \<noteq> CHR ''0''" using hd_dropWhile [of "\<lambda>c. c = CHR ''0''" ds] Cons by auto
      moreover have "set (r # rs) \<subseteq> set ds" using Cons set_dropWhileD by (metis subsetI)
      then have "upper_char (last (r # rs)) \<noteq> CHR ''L''"
        using hex(2) by (intro last_plain) (auto simp: list_all_iff)
      ultimately have "convert (Some NUMBER) \<lparr>tk_type = NUMBER, tk_string = r # rs, tk_start = 0, tk_end = 0\<rparr> = (r # rs, [])"
        using num [of "r # rs"] by simp
      moreover have "numbers k = [CHR ''0'' # ?zs, r # rs]" by (simp add: numbers_def Oct Cons)
      ultimately show ?thesis
        using z [OF zs, of None] \<open>r \<noteq> CHR ''0''\<close> zs Oct ds by (cases ?zs) auto
    qed
  qed
  have "numbers k \<noteq> []" by (auto simp: numbers_def split: c_const.splits list.splits)
  then show ?thesis using n app [of "numbers k"] by (auto simp: killed_def upper_def kill_suffixes_def)
qed


text \<open>One leading zero before further digits.\<close>

fun single_zero :: "c_const \<Rightarrow> bool" where
  "single_zero (Oct ds) = (ds \<noteq> [] \<and> hd ds \<noteq> CHR ''0'')"
| "single_zero _ = False"

lemma py_value: "c_constant k \<Longrightarrow> py_int (py_digits k) = (if single_zero k then None else Some (c_value k))"
proof (cases k)
  case (Dec ds)
  assume "c_constant k"
  with Dec show ?thesis by (cases ds) (auto simp: py_int_def)
next
  case (Hex x ds)
  assume "c_constant k"
  with Hex show ?thesis by (auto simp: py_int_def)
next
  case (Oct ds)
  assume k: "c_constant k"
  then have d: "\<And>c. c \<in> set ds \<Longrightarrow> is_digit c \<and> c \<notin> set ''xXbBoOlLuU''" using Oct oct_digit by (auto simp: list_all_iff)
  show ?thesis
  proof (cases ds)
    case Nil
    moreover have "digit_of CHR ''0'' = 0" by code_simp
    ultimately show ?thesis using Oct by (simp add: py_int_def number_def is_digit_def digits_def)
  next
    case (Cons c cs)
    then show ?thesis using Oct k d [of c] by (auto simp: py_int_def list_all_iff)
  qed
qed

lemma py_suffix:
  assumes "s \<noteq> []" and "suf \<noteq> []" and "list_all suffix_char suf"
  shows "py_int (s @ suf) = None"
proof -
  have bad: "\<not> list_all P (r @ suf)" if "\<And>c. suffix_char c \<Longrightarrow> \<not> P c" for P r
    using assms(2,3) that by (cases suf) auto
  obtain c cs where s: "s = c # cs" using assms(1) by (cases s) auto
  have w: "\<not> (hd (s @ suf) = CHR ''0'' \<and> List.member xs (hd (tl (s @ suf))) \<and> drop 2 (s @ suf) \<noteq> [] \<and> list_all P (drop 2 (s @ suf)))"
    if "\<And>c. suffix_char c \<Longrightarrow> \<not> P c" "\<And>c. suffix_char c \<Longrightarrow> c \<notin> set xs" for P xs
  proof (cases cs)
    case Nil
    then show ?thesis using assms(2,3) that(2) s by (cases suf) auto
  next
    case (Cons d ds)
    then show ?thesis using bad [where P = P and r = ds, OF that(1)] s by simp
  qed
  have "\<not> (hd (s @ suf) = CHR ''0'' \<and> List.member ''xX'' (hd (tl (s @ suf))) \<and> drop 2 (s @ suf) \<noteq> [] \<and> list_all is_hex (drop 2 (s @ suf)))"
    "\<not> (hd (s @ suf) = CHR ''0'' \<and> List.member ''bB'' (hd (tl (s @ suf))) \<and> drop 2 (s @ suf) \<noteq> [] \<and> list_all (List.member ''01'') (drop 2 (s @ suf)))"
    "\<not> (hd (s @ suf) = CHR ''0'' \<and> List.member ''oO'' (hd (tl (s @ suf))) \<and> drop 2 (s @ suf) \<noteq> [] \<and> list_all is_oct (drop 2 (s @ suf)))"
    using suffix_char_plain by (intro w; fastforce)+
  moreover have "\<not> list_all is_digit (s @ suf)" using bad suffix_char_plain by blast
  ultimately show ?thesis unfolding py_int_def Let_def by (simp only: simp_thms if_False split: if_split)
qed

section \<open>Properties\<close>

text \<open>C38: what \<open>clean\<close> makes of an integer constant of C on Python 3: it is a Python literal of the same
  value, and no name is taken from it, except in two cases, where it is no literal at all and the macro
  is lost: an octal constant with exactly one zero before its other digits, and a suffix with \<open>U\<close>
  behind \<open>L\<close>.\<close>

theorem integer_constants_kept:
  assumes "c_constant k" and "suffix = [] \<or> List.member c_suffixes (upper suffix)"
  shows "case clean_tokens (c_digits k @ suffix) (py_tokenize (c_digits k @ suffix)) of (output, names) \<Rightarrow>
    if single_zero k \<or> List.member [''LU'', ''LLU''] (upper suffix)
    then py_int output = None
    else py_int output = Some (c_value k) \<and> names = []"
proof -
  have s: "list_all suffix_char suffix" using assms(2) by (rule suffix_chars)
  have k: "killed suffix \<longleftrightarrow> suffix \<noteq> [] \<and> \<not> List.member [''LU'', ''LLU''] (upper suffix)"
    using assms(2) by (auto simp: killed_def c_suffixes_def kill_suffixes_def upper_def)
  have c: "clean_tokens (c_digits k @ suffix) (py_tokenize (c_digits k @ suffix))
      = (py_digits k @ (if killed suffix then [] else suffix), if suffix = [] \<or> killed suffix then [] else [suffix])"
    using clean_lay [OF constant_tokens [OF assms(1) s]] suffix_conversion [OF assms(1) s]
    by (auto simp: numbers_text list_all_iff comp_def)
  have "py_digits k \<noteq> []" using assms(1) by (cases k) auto
  then show ?thesis
    using k c py_value [OF assms(1)] py_suffix [of "py_digits k" suffix] s by (auto simp: upper_def)
qed

theorem integer_constants_kept_witness:
  "case clean_tokens ''0x1Ful'' (py_tokenize ''0x1Ful'') of (output, names) \<Rightarrow> py_int output = Some 31 \<and> names = []"
proof -
  have "c_constant (Hex CHR ''x'' ''1F'')" "List.member c_suffixes (upper ''ul'')"
    "c_value (Hex CHR ''x'' ''1F'') = 31" "\<not> List.member [''LU'', ''LLU''] (upper ''ul'')" by code_simp+
  then show ?thesis using integer_constants_kept [of "Hex CHR ''x'' ''1F''" "''ul''"] by simp
qed

end
