(* ===== verification/Macros.thy ===== *)
theory Macros
  imports Expression Statements "HOL-Library.Sublist"
begin

text \<open>
  \<open>class MacroCallback\<close> of \<open>CTypeGen/__init__.py\<close>: \<open>libCTypeGen\<close> walks the macro information of a
  unit and calls \<open>define\<close>, \<open>undef\<close>, \<open>startFile\<close> and \<open>endFile\<close>; the macros of the files of
  interest that are usable in Python are written as definitions.
\<close>

section \<open>Python strings\<close>

text \<open>\<open>s.find( c, i )\<close> and \<open>s[ i : j ]\<close>, with negative indices counted from the end.\<close>

fun find_from :: "string \<Rightarrow> char \<Rightarrow> nat \<Rightarrow> int" where
  "find_from [] c i = - 1"
| "find_from (d # s) c i = (if d = c then int i else find_from s c (Suc i))"

definition py_find :: "string \<Rightarrow> char \<Rightarrow> nat \<Rightarrow> int" where
  "py_find s c i = find_from (drop i s) c i"

definition py_index :: "string \<Rightarrow> int \<Rightarrow> nat" where
  "py_index s i = nat (if i < 0 then max 0 (i + int (length s)) else i)"

definition py_slice :: "string \<Rightarrow> int \<Rightarrow> int \<Rightarrow> string" where
  "py_slice s i j = take (py_index s j - py_index s i) (drop (py_index s i) s)"

definition py_from :: "string \<Rightarrow> int \<Rightarrow> string" where
  "py_from s i = drop (py_index s i) s"

section \<open>Surroundings and state\<close>

text \<open>What \<open>ast.parse\<close> makes of the parameter list: a syntax error; one name, one constant or a
  tuple of names and constants (\<open>None\<close> stands for a constant that is no string); nothing at all;
  anything else.\<close>

datatype args_result = ArgsSyntaxError | ArgsOne "string option" | ArgsMany "string option list" | ArgsEmpty | ArgsOther

datatype interest = InterestFun "string \<Rightarrow> bool" | InterestList "string list" | InterestText string

definition interested :: "interest \<Rightarrow> string \<Rightarrow> bool" where
  "interested w f =
     (case w of
        InterestFun p \<Rightarrow> p f
      | InterestList fs \<Rightarrow> List.member fs f
      | InterestText s \<Rightarrow> list_ex (\<lambda>i. take (length f) (drop i s) = f) [0 ..< Suc (length s)])"

text \<open>The parsers, whether an imported module has a name, and the files of interest.\<close>

record menv =
  me_tokenize :: "string \<Rightarrow> tok list option"
  me_parse :: "string \<Rightarrow> parse_result"
  me_args :: "string \<Rightarrow> args_result"
  me_existing :: "(string \<Rightarrow> bool) list"
  me_interest :: interest

record macro_def =
  mc_name :: string
  mc_args :: "string option"
  mc_value :: string
  mc_file :: string
  mc_line :: int

record mstate =
  filescope :: "(string \<times> string) list"
  defining :: int
  m_output :: "macro_def list"
  m_defined :: "string list"

section \<open>The callbacks\<close>

definition macro_args :: "args_result \<Rightarrow> string option list option res" where
  "macro_args r =
     (case r of
        ArgsSyntaxError \<Rightarrow> Inr None
      | ArgsOne a \<Rightarrow> Inr (Some [a])
      | ArgsMany as \<Rightarrow> Inr (Some as)
      | ArgsEmpty \<Rightarrow> Inl (PyException ''IndexError'')
      | ArgsOther \<Rightarrow> Inl AttributeError)"

text \<open>Name, parameter text, parameters and value; \<open>None\<close> where \<open>define\<close> returns on a syntax error.\<close>

type_synonym macro_parts = "string \<times> (string \<times> string option list) option \<times> string"

definition split_macro :: "menv \<Rightarrow> string \<Rightarrow> macro_parts option res" where
  "split_macro M data =
     (let firstSpace = py_find data (CHR '' '') 0; openParen = py_find data (CHR ''('') 0 in
      if openParen \<noteq> - 1 \<and> openParen < firstSpace then
        let closeParen = py_find data (CHR '')'') (nat (openParen + 1));
            argStr = py_slice data openParen (closeParen + 1) in
        bnd (macro_args (me_args M argStr)) (\<lambda>r.
        case r of
          None \<Rightarrow> Inr None
        | Some macroArgs \<Rightarrow>
            Inr (Some (py_slice data 0 openParen, Some (argStr, macroArgs), py_from data (closeParen + 1))))
      else Inr (Some (py_slice data 0 firstSpace, None, py_from data (firstSpace + 1))))"

text \<open>A name the value may use: defined already, or a parameter.\<close>

definition may_use :: "string list \<Rightarrow> (string \<times> string option list) option \<Rightarrow> string \<Rightarrow> bool" where
  "may_use known args n = (List.member known n
     \<or> (case args of None \<Rightarrow> False | Some (_, macroArgs) \<Rightarrow> List.member macroArgs (Some n)))"

text \<open>The Python text of the value; \<open>None\<close> where the macro is not usable.\<close>

definition macro_value :: "menv \<Rightarrow> string list \<Rightarrow> macro_parts \<Rightarrow> string option" where
  "macro_value M known p = (case p of (name, args, val) \<Rightarrow>
     if val = [] then Some ''None''
     else
       (case clean (me_tokenize M) (me_parse M) val of
          None \<Rightarrow> None
        | Some (newvalue, names) \<Rightarrow>
            if name = newvalue then None
            else if list_all (may_use known args) names then Some newvalue else None))"

definition define_parts :: "menv \<Rightarrow> int \<Rightarrow> mstate \<Rightarrow> macro_parts \<Rightarrow> mstate res" where
  "define_parts M line st p = (case p of (name, args, _) \<Rightarrow>
     if List.member (m_defined st) name then Inr st
     else if list_ex (\<lambda>has. has name) (me_existing M) then Inr st
     else
       (case macro_value M (m_defined st) p of
          None \<Rightarrow> Inr st
        | Some v \<Rightarrow>
            if filescope st = [] then Inl (PyException ''IndexError'')
            else Inr (st\<lparr>m_defined := name # m_defined st,
              m_output := m_output st @ [\<lparr>mc_name = name, mc_args = map_option fst args,
                mc_value = v, mc_file = snd (last (filescope st)), mc_line = line\<rparr>]\<rparr>)))"

definition define_macro :: "menv \<Rightarrow> int \<Rightarrow> string \<Rightarrow> mstate \<Rightarrow> mstate res" where
  "define_macro M line data st =
     (if defining st = 0 then Inr st
      else
        bnd (split_macro M data) (\<lambda>parts.
        case parts of None \<Rightarrow> Inr st | Some p \<Rightarrow> define_parts M line st p))"

definition startFile :: "menv \<Rightarrow> string \<Rightarrow> string \<Rightarrow> mstate \<Rightarrow> mstate" where
  "startFile M dirname filename st =
     st\<lparr>filescope := filescope st @ [(dirname, filename)],
        defining := (if interested (me_interest M) filename then defining st + 1 else defining st)\<rparr>"

definition endFile :: "menv \<Rightarrow> mstate \<Rightarrow> mstate res" where
  "endFile M st =
     (if filescope st = [] then Inl (PyException ''IndexError'')
      else
        let (_, filename) = last (filescope st) in
        Inr (st\<lparr>filescope := butlast (filescope st),
          defining := (if interested (me_interest M) filename then defining st - 1 else defining st)\<rparr>))"

datatype macro_event =
    Define int string
  | Undef int string
  | StartFile int string string
  | EndFile

definition visit :: "menv \<Rightarrow> macro_event \<Rightarrow> mstate \<Rightarrow> mstate res" where
  "visit M e st =
     (case e of
        Define line data \<Rightarrow> define_macro M line data st
      | Undef _ _ \<Rightarrow> Inr st
      | StartFile _ dirname filename \<Rightarrow> Inr (startFile M dirname filename st)
      | EndFile \<Rightarrow> endFile M st)"

fun macros :: "menv \<Rightarrow> macro_event list \<Rightarrow> mstate \<Rightarrow> mstate res" where
  "macros M [] st = Inr st"
| "macros M (e # es) st = bnd (visit M e st) (macros M es)"

definition start_macros :: "string list \<Rightarrow> mstate" where
  "start_macros defined = \<lparr>filescope = [], defining = 0, m_output = [], m_defined = defined\<rparr>"

definition render_macro :: "macro_def \<Rightarrow> string" where
  "render_macro m =
     ''try:'' @ nl
     @ (case mc_args m of
          Some argStr \<Rightarrow> ''   def '' @ mc_name m @ argStr @ '': return '' @ mc_value m
        | None \<Rightarrow> ''   '' @ mc_name m @ '' = '' @ mc_value m)
     @ '' # '' @ mc_file m @ '':'' @ show_int (mc_line m) @ nl
     @ ''except:'' @ nl
     @ ''   __ctypegen_failed_macros.append('' @ quoted (mc_name m) @ '')'' @ nl"

section \<open>Invariants\<close>

text \<open>What \<open>define\<close> may do: nothing, or write one macro.\<close>

definition written :: "menv \<Rightarrow> string \<Rightarrow> mstate \<Rightarrow> macro_def \<Rightarrow> bool" where
  "written M data st m = (\<exists>args val. defining st \<noteq> 0 \<and> filescope st \<noteq> []
     \<and> split_macro M data = Inr (Some (mc_name m, args, val))
     \<and> \<not> List.member (m_defined st) (mc_name m) \<and> \<not> list_ex (\<lambda>has. has (mc_name m)) (me_existing M)
     \<and> macro_value M (m_defined st) (mc_name m, args, val) = Some (mc_value m)
     \<and> mc_args m = map_option fst args \<and> mc_file m = snd (last (filescope st)))"

lemma define_parts_Inr:
  assumes "define_parts M line st p = Inr st'" and "defining st \<noteq> 0" and "split_macro M data = Inr (Some p)"
  shows "st' = st \<or> (\<exists>m. written M data st m
    \<and> st' = st\<lparr>m_defined := mc_name m # m_defined st, m_output := m_output st @ [m]\<rparr>)"
proof (cases "st' = st")
  case False
  obtain name args val where p: "p = (name, args, val)" by (cases p) auto
  with assms(1) False have fresh: "\<not> List.member (m_defined st) name" "\<not> list_ex (\<lambda>has. has name) (me_existing M)"
    by (auto simp: define_parts_def split: if_splits)
  with assms(1) False p obtain v where v: "macro_value M (m_defined st) p = Some v" "filescope st \<noteq> []"
    "st' = st\<lparr>m_defined := name # m_defined st, m_output := m_output st @ [\<lparr>mc_name = name,
       mc_args = map_option fst args, mc_value = v, mc_file = snd (last (filescope st)), mc_line = line\<rparr>]\<rparr>"
    by (auto simp: define_parts_def split: option.splits if_splits)
  let ?m = "\<lparr>mc_name = name, mc_args = map_option fst args, mc_value = v,
    mc_file = snd (last (filescope st)), mc_line = line\<rparr>"
  have "written M data st ?m"
    using assms(2,3) p fresh v(1,2) by (auto simp: written_def)
  moreover have "st' = st\<lparr>m_defined := mc_name ?m # m_defined st, m_output := m_output st @ [?m]\<rparr>"
    using v(3) by simp
  ultimately show ?thesis by blast
qed simp

lemma define_macro_Inr:
  assumes "define_macro M line data st = Inr st'"
  shows "st' = st \<or> (\<exists>m. written M data st m
    \<and> st' = st\<lparr>m_defined := mc_name m # m_defined st, m_output := m_output st @ [m]\<rparr>)"
proof (cases "defining st = 0")
  case True
  with assms show ?thesis by (simp add: define_macro_def)
next
  case False
  with assms obtain parts where s: "split_macro M data = Inr parts"
    and r: "(case parts of None \<Rightarrow> Inr st | Some p \<Rightarrow> define_parts M line st p) = Inr st'"
    by (auto simp: define_macro_def bnd_eq_Inr)
  show ?thesis
  proof (cases parts)
    case (Some p)
    with r define_parts_Inr [of M line st p st' data] False s show ?thesis by simp
  qed (use r in simp)
qed

text \<open>The other callbacks only open and close files.\<close>

lemma visit_other:
  assumes "visit M e st = Inr st'" and "\<And>line data. e \<noteq> Define line data"
  shows "m_output st' = m_output st \<and> m_defined st' = m_defined st"
  using assms by (cases e) (auto simp: visit_def startFile_def endFile_def split: if_splits prod.splits)

locale macro_invariant =
  fixes M :: menv and I :: "mstate \<Rightarrow> bool"
  assumes I_write: "written M data st m \<Longrightarrow> I st \<Longrightarrow>
      I (st\<lparr>m_defined := mc_name m # m_defined st, m_output := m_output st @ [m]\<rparr>)"
    and I_start: "I st \<Longrightarrow> I (startFile M d f st)"
    and I_end: "endFile M st = Inr st' \<Longrightarrow> I st \<Longrightarrow> I st'"
begin

lemma I_visit: "visit M e st = Inr st' \<Longrightarrow> I st \<Longrightarrow> I st'"
  by (cases e) (auto simp: visit_def intro: I_write I_start I_end dest: define_macro_Inr)

lemma I_macros: "macros M es st = Inr st' \<Longrightarrow> I st \<Longrightarrow> I st'"
  by (induction es arbitrary: st) (auto simp: bnd_eq_Inr intro: I_visit)

end

text \<open>\<open>defining\<close> counts the open files of interest.\<close>

definition scope_ok :: "menv \<Rightarrow> mstate \<Rightarrow> bool" where
  "scope_ok M st = (defining st = int (length (filter (\<lambda>f. interested (me_interest M) (snd f)) (filescope st))))"

interpretation scope: macro_invariant M "scope_ok M" for M
proof
  fix st st' :: mstate assume "endFile M st = Inr st'" "scope_ok M st"
  then show "scope_ok M st'"
    by (cases "filescope st" rule: rev_cases) (auto simp: endFile_def scope_ok_def split: prod.splits)
qed (auto simp: scope_ok_def startFile_def)

text \<open>Each macro is written once, under a name that was free, and only uses names that are known by
  then or are its parameters.\<close>

definition known_name :: "menv \<Rightarrow> string list \<Rightarrow> macro_def \<Rightarrow> string \<Rightarrow> bool" where
  "known_name M known m n = (List.member known n
     \<or> (\<exists>argStr as. mc_args m = Some argStr \<and> macro_args (me_args M argStr) = Inr (Some as)
          \<and> List.member as (Some n)))"

definition usable :: "menv \<Rightarrow> string list \<Rightarrow> macro_def \<Rightarrow> bool" where
  "usable M known m = (\<not> List.member known (mc_name m) \<and> (mc_value m = ''None''
     \<or> (\<exists>val names. clean (me_tokenize M) (me_parse M) val = Some (mc_value m, names)
          \<and> list_all (known_name M known m) names)))"

lemma split_macro_args:
  "split_macro M data = Inr (Some (name, Some (argStr, as), val)) \<Longrightarrow> macro_args (me_args M argStr) = Inr (Some as)"
  by (auto simp: split_macro_def Let_def bnd_eq_Inr split: if_splits option.splits)

lemma written_usable:
  assumes "written M data st m"
  shows "usable M (m_defined st) m"
proof -
  from assms obtain args val where w: "split_macro M data = Inr (Some (mc_name m, args, val))"
    "\<not> List.member (m_defined st) (mc_name m)"
    "macro_value M (m_defined st) (mc_name m, args, val) = Some (mc_value m)" "mc_args m = map_option fst args"
    unfolding written_def by blast
  show ?thesis
  proof (cases "val = []")
    case True
    with w show ?thesis by (simp add: usable_def macro_value_def)
  next
    case False
    with w(3) obtain names where c: "clean (me_tokenize M) (me_parse M) val = Some (mc_value m, names)"
      and known: "list_all (may_use (m_defined st) args) names"
      by (auto simp: macro_value_def split: option.splits if_splits)
    have "known_name M (m_defined st) m n" if "may_use (m_defined st) args n" for n
      using that w(1,4) split_macro_args
      by (auto simp: may_use_def known_name_def split: option.splits prod.splits)
    with known have "list_all (known_name M (m_defined st) m) names" by (simp add: list_all_iff)
    with c w(2) show ?thesis unfolding usable_def by blast
  qed
qed

definition closed_ok :: "menv \<Rightarrow> string list \<Rightarrow> mstate \<Rightarrow> bool" where
  "closed_ok M defined st = (m_defined st = rev (map mc_name (m_output st)) @ defined
     \<and> (\<forall>xs m ys. m_output st = xs @ m # ys \<longrightarrow> usable M (rev (map mc_name xs) @ defined) m))"

interpretation closed: macro_invariant M "closed_ok M defined" for M defined
proof
  fix data st m assume w: "written M data st m" and c: "closed_ok M defined st"
  let ?st = "st\<lparr>m_defined := mc_name m # m_defined st, m_output := m_output st @ [m]\<rparr>"
  have "usable M (rev (map mc_name xs) @ defined) x" if "m_output st @ [m] = xs @ x # ys" for xs x ys
  proof (cases ys rule: rev_cases)
    case Nil
    with that written_usable [OF w] c show ?thesis by (simp add: closed_ok_def)
  next
    case (snoc zs z)
    with that have "m_output st = xs @ x # zs" by simp
    with c show ?thesis by (simp add: closed_ok_def)
  qed
  with c show "closed_ok M defined ?st" by (simp add: closed_ok_def)
qed (auto simp: closed_ok_def startFile_def endFile_def split: if_splits prod.splits)

lemma closed_distinct:
  assumes "closed_ok M defined st"
  shows "distinct (map mc_name (m_output st))" and "set (map mc_name (m_output st)) \<inter> set defined = {}"
proof -
  have "distinct (map mc_name xs) \<and> set (map mc_name xs) \<inter> set defined = {}"
    if "m_output st = xs @ ys" for xs ys
    using that
  proof (induction xs arbitrary: ys rule: rev_induct)
    case (snoc x xs)
    from snoc.prems have "usable M (rev (map mc_name xs) @ defined) x"
      using assms by (simp add: closed_ok_def)
    with snoc.IH [of "x # ys"] snoc.prems show ?case by (auto simp: usable_def)
  qed simp
  from this [of "m_output st" "[]"] show "distinct (map mc_name (m_output st))"
    "set (map mc_name (m_output st)) \<inter> set defined = {}" by simp_all
qed

section \<open>Properties\<close>

text \<open>However files are opened and closed, \<open>defining\<close> is the number of open files of interest; so
  a macro is written only while one of them is open, and all are closed when the walk is over.\<close>

lemma defining_counts_files:
  assumes "macros M es (start_macros defined) = Inr st"
  shows "defining st = int (length (filter (\<lambda>f. interested (me_interest M) (snd f)) (filescope st)))
    \<and> (define_macro M line data st = Inr st' \<longrightarrow> st' \<noteq> st \<longrightarrow>
        list_ex (\<lambda>f. interested (me_interest M) (snd f)) (filescope st))"
proof -
  have "scope_ok M (start_macros defined)" by (simp add: scope_ok_def start_macros_def)
  with assms have ok: "scope_ok M st" by (rule scope.I_macros)
  moreover have "list_ex (\<lambda>f. interested (me_interest M) (snd f)) (filescope st)"
    if "define_macro M line data st = Inr st'" "st' \<noteq> st"
  proof -
    from define_macro_Inr [OF that(1)] that(2) have "defining st \<noteq> 0" by (auto simp: written_def)
    with ok show ?thesis by (auto simp: scope_ok_def list_ex_iff filter_empty_conv)
  qed
  ultimately show ?thesis by (simp add: scope_ok_def)
qed

text \<open>C19: the macros written have distinct names, none of them defined before, and the value of each
  is an expression over names that are defined by then or are parameters of the macro.\<close>

theorem macros_closed:
  assumes "macros M es (start_macros defined) = Inr st"
  shows "distinct (map mc_name (m_output st)) \<and> set (map mc_name (m_output st)) \<inter> set defined = {}
    \<and> (m_output st = xs @ m # ys \<longrightarrow> usable M (rev (map mc_name xs) @ defined) m)"
proof -
  have "closed_ok M defined (start_macros defined)" by (simp add: closed_ok_def start_macros_def)
  with assms have ok: "closed_ok M defined st" by (rule closed.I_macros)
  with closed_distinct [OF ok] show ?thesis by (simp add: closed_ok_def)
qed

section \<open>Examples\<close>

text \<open>\<open>#define A 42\<close> and \<open>#define ADD(a) (a)\<close> in \<open>m.h\<close>, with a tokenizer and a parser for these
  values.\<close>

definition ex_menv :: menv where
  "ex_menv = \<lparr>
     me_tokenize = (\<lambda>s. if s = ''42'' then Some [\<lparr>tk_type = NUMBER, tk_string = s, tk_start = 0, tk_end = 2\<rparr>]
       else if s = '' A'' then Some [\<lparr>tk_type = INDENT, tk_string = '' '', tk_start = 0, tk_end = 1\<rparr>,
         \<lparr>tk_type = NAME, tk_string = ''A'', tk_start = 1, tk_end = 2\<rparr>] else None),
     me_parse = (\<lambda>s. OneExpr False),
     me_args = (\<lambda>s. if s = ''(a)'' then ArgsOne (Some ''a'') else ArgsSyntaxError),
     me_existing = [], me_interest = InterestList [''m.h'']\<rparr>"

definition ex_events :: "macro_event list" where
  "ex_events = [StartFile 1 ''dir'' ''c.c'', Define 1 ''B 42'', StartFile 2 ''dir'' ''m.h'', Define 1 ''A 42'',
     Define 2 ''F(a) A'', Define 3 ''A 42'']"

definition ex_macros :: "mstate res" where
  "ex_macros = macros ex_menv ex_events (start_macros [''X''])"

lemma ex_macros_ok: "\<exists>st. ex_macros = Inr st \<and> map mc_name (m_output st) = [''A'', ''F''] \<and> defining st = 1"
proof -
  have "case ex_macros of Inr st \<Rightarrow> map mc_name (m_output st) = [''A'', ''F''] \<and> defining st = 1
      | Inl _ \<Rightarrow> False" by code_simp
  then show ?thesis by (auto split: sum.splits)
qed

lemma map_two: "map f xs = [a, b] \<Longrightarrow> \<exists>x y. xs = [x] @ y # [] \<and> f x = a \<and> f y = b"
  by (cases xs; cases "tl xs") auto

lemma defining_counts_files_witness:
  "\<exists>st. ex_macros = Inr st
    \<and> length (filter (\<lambda>f. interested (me_interest ex_menv) (snd f)) (filescope st)) = 1"
proof -
  obtain st where st: "ex_macros = Inr st" "defining st = 1" using ex_macros_ok by blast
  from defining_counts_files [OF st(1) [unfolded ex_macros_def], THEN conjunct1] st(2)
  have "length (filter (\<lambda>f. interested (me_interest ex_menv) (snd f)) (filescope st)) = 1" by linarith
  with st(1) show ?thesis by blast
qed

theorem macros_closed_witness:
  "\<exists>st m. ex_macros = Inr st \<and> mc_name m = ''F'' \<and> usable ex_menv [''A'', ''X''] m"
proof -
  from ex_macros_ok obtain st where "ex_macros = Inr st \<and> map mc_name (m_output st) = [''A'', ''F''] \<and> defining st = 1"
    by (rule exE)
  then have st: "ex_macros = Inr st" "map mc_name (m_output st) = [''A'', ''F'']" by simp_all
  from map_two [OF st(2)] obtain a f where af: "m_output st = [a] @ f # []" "mc_name a = ''A''" "mc_name f = ''F''"
    by (elim exE conjE)
  from macros_closed [OF st(1) [unfolded ex_macros_def], of "[a]" f "[]"] af
  have "usable ex_menv [''A'', ''X''] f" by simp
  with st af show ?thesis by blast
qed

end
