(* ===== verification/Generate.thy ===== *)
theory Generate
  imports WriteProps Macros
begin

text \<open>
  The entry points of \<open>CTypeGen/__init__.py\<close> (\<open>getlib\<close>, \<open>getDwarves\<close>, \<open>generate\<close>, \<open>generateAll\<close>,
  \<open>generateDwarf\<close>) and the filters of \<open>generateLibc.py\<close>.  Opening a library is \<open>libCTypeGen.open\<close>,
  an argument of the model; \<open>generateDwarf\<close> is modelled up to the text of the module.
\<close>

section \<open>Opening libraries\<close>

text \<open>The file system and the loader: whether a path exists, the path \<open>dlopen\<close> finds for a name, and
  \<open>libCTypeGen.open\<close>.\<close>

record 'd loader =
  ld_exists :: "string \<Rightarrow> bool"
  ld_dlopen :: "string \<Rightarrow> string res"
  ld_open :: "string \<Rightarrow> 'd res"

definition getlib :: "'d loader \<Rightarrow> string \<Rightarrow> 'd res" where
  "getlib L libname =
     bnd (if ld_exists L libname then Inr libname else ld_dlopen L libname) (ld_open L)"

text \<open>The argument \<open>libnames\<close>: a string, a list (\<open>None\<close> for an element that is no string), or
  something else.\<close>

datatype libnames = OneLib string | LibList "string option list" | NoLibs

definition getDwarves :: "'d loader \<Rightarrow> libnames \<Rightarrow> 'd list option res" where
  "getDwarves L libs =
     (case (case libs of OneLib s \<Rightarrow> LibList [Some s] | _ \<Rightarrow> libs) of
        LibList [] \<Rightarrow> Inl (PyException ''IndexError'')
      | LibList (None # _) \<Rightarrow> Inr None
      | LibList names \<Rightarrow>
          bnd (map_res (\<lambda>nm. bnd (need TypeError nm) (getlib L)) names) (\<lambda>ds. Inr (Some ds))
      | _ \<Rightarrow> Inr None)"

section \<open>The module\<close>

record options =
  op_header :: "string option"
  op_trailer :: "string option"
  op_macros :: bool
  op_caller :: string
  op_sonames :: "string list"

text \<open>\<open>re.sub( '"', r'\"', p )\<close>\<close>

definition escape_quotes :: "string \<Rightarrow> string" where
  "escape_quotes p = concat (map (\<lambda>c. if c = CHR 0x22 then [CHR 0x5c, CHR 0x22] else [c]) p)"

definition tab :: string where
  "tab = [CHR 0x09]"

definition decoratedLib :: string where
  "decoratedLib =
     nl @ ''# Use this to return a CDLL handle that has functions decorate with type info.'' @ nl
     @ ''def decoratedLib( idx = 0 ):'' @ nl
     @ ''      lib = ctypes.CDLL( CTYPEGEN_SONAMES[ idx ] )'' @ nl
     @ ''      if lib:'' @ nl
     @ ''         decorateFunctions( lib )'' @ nl
     @ ''      return lib'' @ nl @ nl"

definition module_text :: "options \<Rightarrow> pymodule \<Rightarrow> macro_def list \<Rightarrow> string list \<Rightarrow> string" where
  "module_text opt md ms prods =
     ''# DON'' @ [CHR 0x27] @ ''T EDIT THIS FILE. It was generated by'' @ nl @ ''# '' @ op_caller opt @ nl @ nl
     @ (case op_header opt of Some h \<Rightarrow> h | None \<Rightarrow> [])
     @ render_module md
     @ ''__ctypegen_failed_macros = []'' @ nl
     @ ''# Macro definitions:'' @ nl
     @ concat (map render_macro ms)
     @ ''# (end Macro definitions)'' @ nl @ nl
     @ ''CTYPEGEN_SONAMES = ['' @ nl
     @ concat (map (\<lambda>b. tab @ quoted b @ '','' @ nl) (op_sonames opt)) @ '']'' @ nl
     @ decoratedLib
     @ ''CTYPEGEN_producers__ = {'' @ nl
     @ concat (map (\<lambda>p. tab @ [CHR 0x22] @ escape_quotes p @ [CHR 0x22] @ '','' @ nl) (sort prods)) @ ''}'' @ nl
     @ nl @ ''if __name__ == \"__main__\":'' @ nl
     @ ''   test_classes( __ctypegen_failed_macros )'' @ nl
     @ (case op_trailer opt of Some t \<Rightarrow> t | None \<Rightarrow> [])"

text \<open>\<open>generateDwarf\<close>; \<open>events\<close> is what \<open>unit.macros\<close> reports for the units of the binaries.\<close>

definition generateDwarf ::
  "env \<Rightarrow> host \<Rightarrow> menv \<Rightarrow> request \<Rightarrow> options \<Rightarrow> macro_event list \<Rightarrow> nat
   \<Rightarrow> (pymodule \<times> macro_def list \<times> string) rcomp"
where
  "generateDwarf E H M q opt events n =
     andthen (init_resolver E q n)
     (sbind (write_module E H n) (\<lambda>md.
     sbind (gets definedNames) (\<lambda>names.
     sbind (lift (if op_macros opt
         then bnd (macros M events (start_macros names)) (\<lambda>st. Inr (m_output st)) else Inr [])) (\<lambda>ms.
     sbind (gets producers) (\<lambda>prods.
     ret (md, ms, module_text opt md ms prods))))))"

text \<open>\<open>generate\<close>: \<open>errorfunc\<close> may be \<open>None\<close>, which cannot be called; \<open>dwarf\<close> is the call of
  \<open>generateDwarf\<close> on the binaries.\<close>

definition generate ::
  "'d loader \<Rightarrow> libnames \<Rightarrow> bool \<Rightarrow> ('d list \<Rightarrow> 'r res) \<Rightarrow> (string list \<times> 'r option) res"
where
  "generate L libs has_errorfunc dwarf =
     bnd (getDwarves L libs) (\<lambda>ds.
     case ds of
       Some (d # ds) \<Rightarrow> bnd (dwarf (d # ds)) (\<lambda>r. Inr ([], Some r))
     | _ \<Rightarrow>
         if has_errorfunc
         then Inr ([''CTypeGen.generate requires a list of ELF images as its first argument''], None)
         else Inl TypeError)"

section \<open>Everything in a library\<close>

definition externFunc :: "env \<Rightarrow> host \<Rightarrow> nat \<Rightarrow> bool" where
  "externFunc E H d =
     (case DW_AT_low_pc (e_dw E d) of None \<Rightarrow> False | Some pc \<Rightarrow> h_dynaddrs H d pc \<noteq> None)"

definition externData :: "env \<Rightarrow> host \<Rightarrow> nat \<Rightarrow> bool" where
  "externData E H d =
     h_symbol H d (case truthy (DW_AT_linkage_name (e_dw E d)) of Some c \<Rightarrow> c | None \<Rightarrow> dname (e_dw E d))"

text \<open>\<open>generateAll\<close> as a request.\<close>

definition all_request ::
  "env \<Rightarrow> host \<Rightarrow> string list option \<Rightarrow> (nat \<Rightarrow> bool) option \<Rightarrow> nat list \<Rightarrow> request"
where
  "all_request E H skipTypes namespaces roots =
     \<lparr>q_types = TypesFilter (\<lambda>d.
        if List.member (case skipTypes of None \<Rightarrow> [] | Some ns \<Rightarrow> ns) (dname (e_dw E d)) then Skip else Take),
      q_functions = NamesFilter (externFunc E H), q_globals = NamesFilter (externData E H),
      q_namespace = namespaces, q_roots = roots\<rparr>"

section \<open>\<open>generateLibc.py\<close>\<close>

definition platformPacked :: "string \<Rightarrow> string list" where
  "platformPacked machine = (if machine = ''x86_64'' then [''epoll_event''] else [])"

definition platformBroken :: "string \<Rightarrow> string list" where
  "platformBroken machine =
     (if machine = ''aarch64'' then
        [''DIR'', ''__dirstream'', ''__prfpregset_t'', ''elf_fpregset_t'', ''fpregset_t'', ''mcontext_t'',
         ''prfpregset_t'', ''sigcontext'', ''struct_user_fpsimd_struct'', ''ucontext_t'',
         ''user_fpsimd_struct'']
      else if machine = ''x86_64'' then
        [''DIR'', ''_Unwind_Exception'', ''__dirstream'', ''epoll_data'', ''helper_file'', ''stackblock'']
      else if machine = ''i386'' \<or> machine = ''i686'' then
        [''__timex64'', ''scratch_buffer'', ''char_buffer'', ''max_align_t'', ''printf_arg'']
      else [])"

definition packed_names :: "string \<Rightarrow> string list list" where
  "packed_names machine = map (\<lambda>n. [n]) (platformPacked machine)"

definition broken_names :: "string \<Rightarrow> string list list" where
  "broken_names machine = map (\<lambda>n. [n])
     ([''cached_data'', ''hashentry'', ''in6addrinfo'', ''_IO_FILE_complete'', ''_IO_FILE_complete_plus'',
       ''_IO_lock_t'', ''printf_info'', ''printf_spec'', ''raise'', ''link_map'', ''rtld_global'', ''pthread'']
      @ platformBroken machine)"

definition haveDyn :: "env \<Rightarrow> host \<Rightarrow> nat \<Rightarrow> bool" where
  "haveDyn E H d =
     (case DW_AT_low_pc (e_dw E d) of None \<Rightarrow> False | Some pc \<Rightarrow> h_dynaddrs H d pc \<noteq> None)"

text \<open>A packed name is a tuple of one string, which \<open>asPythonId\<close> walks as if it were a string: the
  string itself is its only character, and is no special one.\<close>

definition notBroken :: "string \<Rightarrow> env \<Rightarrow> nat \<Rightarrow> verdict" where
  "notBroken machine E d =
     (let fname = fullname (e_dw E d) in
      if List.member (packed_names machine) fname then
        TakeHinted (mkPythonType (concat fname) None None True None None None True)
      else if List.member (broken_names machine) fname then Skip else Take)"

definition libc_request :: "string \<Rightarrow> env \<Rightarrow> host \<Rightarrow> nat list \<Rightarrow> request" where
  "libc_request machine E H roots =
     \<lparr>q_types = TypesFilter (notBroken machine E),
      q_functions = NamesFilter (\<lambda>d. notBroken machine E d \<noteq> Skip \<and> haveDyn E H d),
      q_globals = NoNames, q_namespace = None, q_roots = roots\<rparr>"

section \<open>What is found\<close>

text \<open>The entries in the tables of variables and functions passed their filters.\<close>

definition passed :: "(nat \<Rightarrow> bool) \<Rightarrow> (string list \<times> nat option) list \<Rightarrow> bool" where
  "passed P d = (\<forall>name i. (name, Some i) \<in> set d \<longrightarrow> P i)"

lemma passed_set: "passed P d \<Longrightarrow> P i \<Longrightarrow> passed P (dict_set name (Some i) d)"
  by (induction d) (auto simp: passed_def split: if_splits)

definition filtered :: "env \<Rightarrow> request \<Rightarrow> rstate \<Rightarrow> bool" where
  "filtered E q s = (passed (namesFilter E (q_functions q)) (found_functions s)
     \<and> passed (namesFilter E (q_globals q)) (found_variables s))"

definition keeps_filtered :: "env \<Rightarrow> request \<Rightarrow> rstate \<Rightarrow> rstate \<Rightarrow> bool" where
  "keeps_filtered E q s s' = (filtered E q s \<longrightarrow> filtered E q s')"

interpretation filt: finder_relation "keeps_filtered E q" for E q
  by unfold_locales (auto simp: keeps_filtered_def filtered_def discovers_def same_rest_def)

lemma filt_same: "found_functions s' = found_functions s \<Longrightarrow> found_variables s' = found_variables s \<Longrightarrow>
    keeps_filtered E q s s'"
  by (simp add: keeps_filtered_def filtered_def)

lemma filt_modify:
  "(\<And>s. found_functions (f s) = found_functions s \<and> found_variables (f s) = found_variables s) \<Longrightarrow>
   keeps (keeps_filtered E q) (modify f)"
  by (auto simp: keeps_def intro: filt_same)

lemma filt_updobj: "keeps (keeps_filtered E q) (updobj k f)"
  by (auto simp: keeps_def updobj_Inr intro: filt_same)

lemma filt_hint: "keeps (keeps_filtered E q) (applyHintToType h t)"
  unfolding applyHintToType_def by (rule filt_modify) simp

lemma filt_add_type: "keeps (keeps_filtered E q) (add_type E q n d)"
proof -
  have "keeps (keeps_filtered E q) (add_defineTypes k)" for k
    unfolding add_defineTypes_def by (rule filt_modify) simp
  then show ?thesis
    unfolding add_type_def
    by (intro filt.keeps_more) (auto intro!: filt.keeps_more filt_hint split: verdict.split)
qed

lemma filt_examine: "keeps (keeps_filtered E q) (examineDIE E q n d)"
proof -
  have prod: "keeps (keeps_filtered E q) (add_producer p)" for p
    unfolding add_producer_def by (rule filt_modify) simp
  have var: "keeps (keeps_filtered E q) (modify (\<lambda>s.
      if namesFilter E (q_globals q) d \<and> get_is_None nm (found_variables s)
      then s\<lparr>found_variables := dict_set nm (Some d) (found_variables s)\<rparr> else s))" for nm
    by (auto simp: keeps_def keeps_filtered_def filtered_def intro: passed_set)
  have fun': "keeps (keeps_filtered E q) (modify (\<lambda>s.
      if get_is_None nm (found_functions s) \<and> namesFilter E (q_functions q) d
      then s\<lparr>found_functions := dict_set nm (Some d) (found_functions s)\<rparr> else s))" for nm
    by (auto simp: keeps_def keeps_filtered_def filtered_def intro: passed_set)
  show ?thesis
    unfolding examineDIE_def Let_def by (intro filt.keeps_more prod var fun' filt_add_type)
qed

lemma filt_enumerate: "keeps (keeps_filtered E q) (enumerateDIEs E q n d)"
proof (induction n arbitrary: d)
  case (Suc n)
  then show ?case by (auto intro!: filt.keeps_more filt_examine)
qed (auto intro: filt.keeps_intros)

lemma filt_all_hints: "keeps (keeps_filtered E q) (apply_all_hints E n)"
proof (induction n)
  case (Suc n)
  have "keeps (keeps_filtered E q) (findMembers E k)" for k
    unfolding findMembers_def by (intro filt.keeps_more filt_updobj)
  then have "keeps (keeps_filtered E q) (hint_members E m k spec)" for m k spec
    unfolding hint_members_def hint_member_def Let_def by (intro filt.keeps_more filt_updobj filt_hint)
  then have "keeps (keeps_filtered E q) (apply_hints E m t spec)" for m t spec
  proof (induction m arbitrary: t)
    case (Suc m)
    then show ?case by (cases t) (auto intro!: filt.keeps_more filt_updobj)
  qed (auto intro: filt.keeps_intros)
  with Suc show ?case
    unfolding apply_all_hints.simps by (intro filt.keeps_more filt_modify) auto
qed (auto intro: filt.keeps_intros)

lemma passed_missing: "passed P (foldl (\<lambda>d k. dict_set k None d) [] ks)"
proof (rule foldl_invariant)
  fix d k assume "passed P d"
  then show "passed P (dict_set k None d)"
    by (induction d) (auto simp: passed_def split: if_splits)
qed (simp add: passed_def)

lemma init_filtered:
  assumes "init_resolver E q n s = Inr (u, s')"
  shows "filtered E q s'"
proof -
  have "keeps (keeps_filtered E q) (register_hint x)" for x
    unfolding register_hint_def by (intro filt.keeps_more filt_hint)
  then have "keeps (keeps_filtered E q) (andthen (forM (q_roots q) (enumerateDIEs E q n))
     (andthen (forM (hintsByTypename (q_types q)) register_hint) (apply_all_hints E n)))"
    by (intro filt.keeps_more filt_enumerate filt_all_hints)
  moreover have "filtered E q (start_state q)" by (simp add: filtered_def start_state_def passed_missing)
  ultimately show ?thesis
    using assms by (auto simp: init_resolver_def andthen_def keeps_filtered_def dest: keepsD)
qed

lemma generateDwarf_named:
  assumes "generateDwarf E H M q opt events n s = Inr ((md, ms, module), s')"
  shows "all_named E s'"
proof -
  from assms obtain s1 where 1: "init_resolver E q n s = Inr ((), s1)" "write_module E H n s1 = Inr (md, s')"
    by (auto simp: generateDwarf_def andthen_def sbind_eq_Inr lift_eq_Inr)
  show ?thesis
    using keepsD [OF naming.keeps_write_module 1(2)] init_named [OF 1(1)] by (simp add: keeps_named_def)
qed

lemma macros_distinct:
  assumes "generateDwarf E H M q opt events n s = Inr ((md, ms, module), s')"
  shows "distinct (map mc_name ms) \<and> set (map mc_name ms) \<inter> set (definedNames s') = {}"
proof (cases "op_macros opt")
  case True
  with assms obtain st where st: "macros M events (start_macros (definedNames s')) = Inr st" "ms = m_output st"
    by (auto simp: generateDwarf_def andthen_def sbind_eq_Inr lift_eq_Inr bnd_eq_Inr)
  have "closed_ok M (definedNames s') (start_macros (definedNames s'))"
    by (simp add: closed_ok_def start_macros_def)
  from closed_distinct [OF closed.I_macros [OF st(1) this]] st(2) show ?thesis by simp
next
  case False
  with assms have "ms = []" by (auto simp: generateDwarf_def andthen_def sbind_eq_Inr lift_eq_Inr)
  then show ?thesis by simp
qed

section \<open>Properties\<close>



text \<open>A call of \<open>generate\<close> without a list of libraries is reported through \<open>errorfunc\<close> only if one is
  given, which is not the default, and an empty list is not reported at all but raises.\<close>

lemma generate_without_libraries:
  "generate L NoLibs True dwarf
     = Inr ([''CTypeGen.generate requires a list of ELF images as its first argument''], None)
   \<and> generate L NoLibs False dwarf = Inl TypeError
   \<and> generate L (LibList (None # names)) False dwarf = Inl TypeError
   \<and> generate L (LibList []) has_errorfunc dwarf = Inl (PyException ''IndexError'')"
  by (simp add: generate_def getDwarves_def)

section \<open>Examples\<close>

lemma ex_all: "\<exists>s. init_resolver (ex_env ex_lib) (all_request (ex_env ex_lib) ex_host None None [2]) 9 rstate0
    = Inr ((), s) \<and> List.member (found_functions s) ([''f''], Some 4)"
proof -
  have "case init_resolver (ex_env ex_lib) (all_request (ex_env ex_lib) ex_host None None [2]) 9 rstate0 of
      Inr (_, s) \<Rightarrow> List.member (found_functions s) ([''f''], Some 4) | Inl _ \<Rightarrow> False" by code_simp
  then show ?thesis by (auto split: sum.splits)
qed


definition ex_options :: options where
  "ex_options = \<lparr>op_header = None, op_trailer = None, op_macros = True, op_caller = ''gen.py'',
     op_sonames = [''lib.so'']\<rparr>"

definition ex_generated :: "((pymodule \<times> macro_def list \<times> string) \<times> rstate) res" where
  "ex_generated = generateDwarf (ex_env ex_node) ex_host ex_menv node_request ex_options ex_events 12 rstate0"

lemma ex_generated_ok: "\<exists>md ms module s. ex_generated = Inr ((md, ms, module), s)
    \<and> List.member (definedNames s) ''struct_n''"
proof -
  have "case ex_generated of Inr ((_, _, _), s) \<Rightarrow> List.member (definedNames s) ''struct_n''
      | Inl _ \<Rightarrow> False" by code_simp
  then show ?thesis by (auto split: sum.splits)
qed


end
