(* ===== verification/Loading.thy ===== *)
theory Loading
  imports Generate SelfCheck UnionLayout
begin

text \<open>
  From the text of a module to a tested module: the statements of the types are executed, which
  makes the classes and gives them their attributes, the rest of the module follows, and
  \<open>test_classes\<close> decides whether \<open>generateDwarf\<close> returns.
\<close>

section \<open>Classes while a module is loaded\<close>

text \<open>A class that derives from \<open>TestableCtypeClass\<close>, with the attributes it has been given so far;
  \<open>_fields_\<close> is kept with the layout that \<open>ctypes\<close> computed when it was set.\<close>

record tclass =
  tc_name :: string
  tc_base :: string
  tc_have :: bool
  tc_native :: "int option"
  tc_allow :: "allowance option"
  tc_pre :: "row list option"
  tc_packed :: bool
  tc_anonymous :: "string list"
  tc_fields :: "(row list \<times> cfield list \<times> int) option"
  tc_offsets :: "int option list option"

definition new_class :: "string \<Rightarrow> string \<Rightarrow> tclass" where
  "new_class py base = \<lparr>tc_name = py, tc_base = base, tc_have = False, tc_native = None, tc_allow = None,
     tc_pre = None, tc_packed = False, tc_anonymous = [], tc_fields = None, tc_offsets = None\<rparr>"

text \<open>What a name of the module refers to: one of these classes, or any other object.\<close>

datatype pyobj = Testable nat | Foreign

record loadstate =
  ns_names :: "string \<Rightarrow> pyobj option"
  ns_classes :: "tclass list"

text \<open>Python and \<open>ctypes\<close> as far as the text of a module calls on them: the value of an expression,
  the size and alignment of a \<open>ctypes\<close> type, its identity, the layout of a base class other than
  \<open>Structure\<close> and \<open>Union\<close>, setting an attribute of any other object, what \<open>CTypeGenRun\<close> asks of a
  type, and the statements of a module that come after its types.\<close>

record python =
  ct_names :: "string list"
  ct_value :: "loadstate \<Rightarrow> string \<Rightarrow> pyobj res"
  ct_type :: "loadstate \<Rightarrow> string \<Rightarrow> (int \<times> int) res"
  ct_id :: "loadstate \<Rightarrow> string \<Rightarrow> nat"
  ct_layout :: "string \<Rightarrow> (string \<Rightarrow> int) \<Rightarrow> (string \<Rightarrow> int) \<Rightarrow> int option \<Rightarrow> row list \<Rightarrow> (cfield list \<times> int) res"
  ct_setattr :: "loadstate \<Rightarrow> string \<Rightarrow> unit res"
  ct_kind :: "loadstate \<Rightarrow> nat \<Rightarrow> ckind"
  ct_alignment :: "loadstate \<Rightarrow> nat \<Rightarrow> int"
  ct_rest :: "pymodule \<Rightarrow> macro_def list \<Rightarrow> loadstate \<Rightarrow> string list res"

definition set_attr :: "python \<Rightarrow> string \<Rightarrow> (tclass \<Rightarrow> tclass res) \<Rightarrow> loadstate \<Rightarrow> loadstate res" where
  "set_attr P py f st =
     (case ns_names st py of
        None \<Rightarrow> Inl (PyException ''NameError'')
      | Some Foreign \<Rightarrow> bnd (ct_setattr P st py) (\<lambda>_. Inr st)
      | Some (Testable i) \<Rightarrow>
          bnd (f (ns_classes st ! i)) (\<lambda>c. Inr (st\<lparr>ns_classes := (ns_classes st)[i := c]\<rparr>)))"

definition layout_of :: "python \<Rightarrow> loadstate \<Rightarrow> tclass \<Rightarrow> row list \<Rightarrow> (cfield list \<times> int) res" where
  "layout_of P st c rs =
     (let size = (\<lambda>t. case ct_type P st t of Inr (z, a) \<Rightarrow> z | Inl _ \<Rightarrow> 0);
          align = (\<lambda>t. case ct_type P st t of Inr (z, a) \<Rightarrow> a | Inl _ \<Rightarrow> 1);
          pack = (if tc_packed c then Some 1 else None)
      in if tc_base c = ''Structure'' then bnd (c_struct size align pack rs) (\<lambda>(cfs, sz, a). Inr (cfs, sz))
         else if tc_base c = ''Union'' then Inr (case c_union size align pack rs of (cfs, sz, a) \<Rightarrow> (cfs, sz))
         else ct_layout P (tc_base c) size align pack rs)"

text \<open>\<open>cls._fields_ = rows\<close>: once only, and every name in \<open>_anonymous_\<close> must be a field.\<close>

definition set_fields :: "python \<Rightarrow> loadstate \<Rightarrow> row list \<Rightarrow> tclass \<Rightarrow> tclass res" where
  "set_fields P st rs c =
     (if tc_fields c \<noteq> None then Inl AttributeError
      else if \<not> list_all (\<lambda>a. list_ex (\<lambda>r. row_name r = a) rs) (tc_anonymous c) then Inl AttributeError
      else bnd (layout_of P st c rs) (\<lambda>(cfs, sz). Inr (c\<lparr>tc_fields := Some (rs, cfs, sz)\<rparr>)))"

definition bind_name :: "string \<Rightarrow> pyobj \<Rightarrow> loadstate \<Rightarrow> loadstate" where
  "bind_name py v st = st\<lparr>ns_names := (ns_names st)(py \<mapsto> v)\<rparr>"

definition enum_names :: "string \<Rightarrow> bool \<Rightarrow> enum_line list \<Rightarrow> string list" where
  "enum_names py nameless ls = py # (if nameless then value_names ls else [])"

section \<open>Executing the statements\<close>

fun exec :: "python \<Rightarrow> stmt \<Rightarrow> loadstate \<Rightarrow> loadstate res" where
  "exec P (SClass py base mixins comment) st =
     bnd (map_res (ct_value P st) (base # mixins)) (\<lambda>_.
     Inr (bind_name py (Testable (length (ns_classes st))) (st\<lparr>ns_classes := ns_classes st @ [new_class py base]\<rparr>)))"
| "exec P SBlank st = Inr st"
| "exec P (SNativeSize py z) st = set_attr P py (\<lambda>c. Inr (c\<lparr>tc_native := Some z\<rparr>)) st"
| "exec P (SHaveDefinition py) st = set_attr P py (\<lambda>c. Inr (c\<lparr>tc_have := True\<rparr>)) st"
| "exec P (SAllowAll py) st = set_attr P py (\<lambda>c. Inr (c\<lparr>tc_allow := Some AllowAll\<rparr>)) st"
| "exec P (SAllowNames py ns) st = set_attr P py (\<lambda>c. Inr (c\<lparr>tc_allow := Some (AllowNames ns)\<rparr>)) st"
| "exec P (SFieldsPre py rs) st =
     bnd (map_res (ct_type P st \<circ> row_type) rs) (\<lambda>_. set_attr P py (\<lambda>c. Inr (c\<lparr>tc_pre := Some rs\<rparr>)) st)"
| "exec P (SPack py comment) st = set_attr P py (\<lambda>c. Inr (c\<lparr>tc_packed := True\<rparr>)) st"
| "exec P (SAnonymous py ns) st = set_attr P py (\<lambda>c. Inr (c\<lparr>tc_anonymous := ns\<rparr>)) st"
| "exec P (SFields py) st =
     set_attr P py (\<lambda>c. bnd (need AttributeError (tc_pre c)) (\<lambda>rs. set_fields P st rs c)) st"
| "exec P (SOffsets py offs) st = set_attr P py (\<lambda>c. Inr (c\<lparr>tc_offsets := Some offs\<rparr>)) st"
| "exec P (SBrokenUnion py) st =
     set_attr P py (set_fields P st [Row ''__broken_transparent_union'' ''c_void_p'' None]) st"
| "exec P (STypedef name expr comment) st = bnd (ct_value P st expr) (\<lambda>v. Inr (bind_name name v st))"
| "exec P (SEnum py base nameless ls) st =
     bnd (ct_value P st base) (\<lambda>_. Inr (fold (\<lambda>nm. bind_name nm Foreign) (enum_names py nameless ls) st))"

text \<open>What the module starts with: the names of its imports, and no class.\<close>

definition load_start :: "python \<Rightarrow> loadstate" where
  "load_start P = \<lparr>ns_names = (\<lambda>nm. if List.member (ct_names P) nm then Some Foreign else None), ns_classes = []\<rparr>"

definition run_body :: "python \<Rightarrow> (key \<times> stmt) list \<Rightarrow> loadstate \<Rightarrow> loadstate res" where
  "run_body P xs st = in_turn (\<lambda>(k, x). exec P x) xs st"

section \<open>Testing the module\<close>

text \<open>A class as \<open>CTypeGenRun\<close> sees it.  A class without fields has size zero; reading a native size
  that was not set raises.\<close>

definition as_class :: "python \<Rightarrow> string \<Rightarrow> loadstate \<Rightarrow> tclass \<Rightarrow> pyclass res" where
  "as_class P modname st c =
     bnd (if tc_have c then need AttributeError (tc_native c) else Inr 0) (\<lambda>native.
     Inr \<lparr>c_name = tc_name c, c_str = ''<class '' @ quoted (modname @ ''.'' @ tc_name c) @ ''>'',
        c_fields = map_option (\<lambda>(rs, _). map (\<lambda>r. (row_name r, ct_id P st (row_type r))) rs) (tc_fields c),
        c_field_offset = (case tc_fields c of Some (_, cfs, _) \<Rightarrow> field_offset_of cfs | None \<Rightarrow> (\<lambda>_. 0)),
        c_sizeof = (case tc_fields c of Some (_, _, sz) \<Rightarrow> sz | None \<Rightarrow> 0),
        c_have_definition = tc_have c, c_native_size = native, c_offsets = tc_offsets c,
        c_allow_unaligned = tc_allow c\<rparr>)"

text \<open>The module name: the text before the first point of the file name, unless one is given.\<close>

definition default_modname :: "string \<Rightarrow> string" where
  "default_modname outname = takeWhile (\<lambda>c. c \<noteq> CHR ''.'') outname"

text \<open>What \<open>CTypeGenRun\<close> holds from before: the classes of other modules, the messages and the memo;
  and the depth that \<open>hasPointers\<close> may recurse to.\<close>

record runtime =
  rt_classes :: "pyclass list"
  rt_errors :: "string list"
  rt_memo :: memo
  rt_fuel :: nat

record loaded =
  l_name :: string
  l_module :: pymodule
  l_classes :: "pyclass list"
  l_printed :: "string list"

definition load_source :: "python \<Rightarrow> runtime \<Rightarrow> string \<Rightarrow> pymodule \<Rightarrow> macro_def list \<Rightarrow> loaded res" where
  "load_source P R modname md ms =
     bnd (run_body P (md_body md) (load_start P)) (\<lambda>st.
     bnd (ct_rest P md ms st) (\<lambda>failed.
     bnd (map_res (as_class P modname st) (ns_classes st)) (\<lambda>cs.
     bnd (test_classes (rt_fuel R) (ct_kind P st) (ct_alignment P st) (rt_classes R @ cs) failed (rt_errors R, rt_memo R))
       (\<lambda>(printed, _).
     Inr \<lparr>l_name = modname, l_module = md, l_classes = cs,
       l_printed = printed @ [''generated and tested '' @ modname]\<rparr>))))"

text \<open>All of \<open>generateDwarf\<close>.\<close>

definition generateDwarf_tested ::
  "env \<Rightarrow> host \<Rightarrow> menv \<Rightarrow> python \<Rightarrow> runtime \<Rightarrow> request \<Rightarrow> options \<Rightarrow> macro_event list \<Rightarrow> string \<Rightarrow> string option \<Rightarrow> nat
   \<Rightarrow> loaded rcomp"
where
  "generateDwarf_tested E H M P R q opt events outname modname n =
     sbind (generateDwarf E H M q opt events n) (\<lambda>(md, ms, text).
     lift (load_source P R (case modname of Some m \<Rightarrow> m | None \<Rightarrow> default_modname outname) md ms))"

section \<open>The names of the types\<close>

text \<open>The name of the class that a statement makes or changes, and the names others bind.\<close>

definition own_name :: "stmt \<Rightarrow> string option" where
  "own_name x = (case x of
     SClass py _ _ _ \<Rightarrow> Some py | SNativeSize py _ \<Rightarrow> Some py | SHaveDefinition py \<Rightarrow> Some py
   | SAllowAll py \<Rightarrow> Some py | SAllowNames py _ \<Rightarrow> Some py | SFieldsPre py _ \<Rightarrow> Some py | SPack py _ \<Rightarrow> Some py
   | SAnonymous py _ \<Rightarrow> Some py | SFields py \<Rightarrow> Some py | SOffsets py _ \<Rightarrow> Some py | SBrokenUnion py \<Rightarrow> Some py
   | _ \<Rightarrow> None)"

definition bound_names :: "stmt \<Rightarrow> string list" where
  "bound_names x = (case x of STypedef name _ _ \<Rightarrow> [name] | SEnum py _ nameless ls \<Rightarrow> enum_names py nameless ls | _ \<Rightarrow> [])"

text \<open>No other type, no typedef, no enumeration and no import has the name of a structure or union.\<close>

definition names_apart :: "python \<Rightarrow> (key \<times> stmt) list \<Rightarrow> bool" where
  "names_apart P body = list_all (\<lambda>(k, x). case own_name x of None \<Rightarrow> True | Some p \<Rightarrow>
     \<not> List.member (ct_names P) p
     \<and> list_all (\<lambda>(k', x'). (own_name x' = Some p \<longrightarrow> k' = k) \<and> \<not> List.member (bound_names x') p) body) body"

lemma names_apartD:
  assumes "names_apart P body" and "(k, x) \<in> set body" and "own_name x = Some p"
  shows "p \<notin> set (ct_names P)" and "(k', x') \<in> set body \<Longrightarrow> own_name x' = Some p \<Longrightarrow> k' = k"
    and "(k', x') \<in> set body \<Longrightarrow> p \<notin> set (bound_names x')"
  using assms by (fastforce simp: names_apart_def list_all_iff)+

text \<open>What one statement does: it gives its class an attribute, or binds names.\<close>

definition changed :: "stmt \<Rightarrow> tclass \<Rightarrow> tclass \<Rightarrow> bool" where
  "changed x c c' = (tc_name c' = tc_name c
     \<and> tc_native c' = (case x of SNativeSize _ z \<Rightarrow> Some z | _ \<Rightarrow> tc_native c)
     \<and> tc_have c' = (case x of SHaveDefinition _ \<Rightarrow> True | _ \<Rightarrow> tc_have c))"

lemma set_attr_changes:
  assumes "set_attr P q f st = Inr st'" and "\<And>c c'. f c = Inr c' \<Longrightarrow> changed x c c'"
  shows "ns_names st' = ns_names st \<and> (case ns_names st q of None \<Rightarrow> False | Some Foreign \<Rightarrow> st' = st
    | Some (Testable i) \<Rightarrow> \<exists>c. changed x (ns_classes st ! i) c \<and> ns_classes st' = (ns_classes st)[i := c])"
  using assms by (fastforce simp: set_attr_def bnd_eq_Inr split: option.splits pyobj.splits)

lemma exec_attr:
  assumes "own_name x = Some q" and "\<not> is_class x" and "exec P x st = Inr st'"
  shows "ns_names st' = ns_names st \<and> (case ns_names st q of None \<Rightarrow> False | Some Foreign \<Rightarrow> st' = st
    | Some (Testable i) \<Rightarrow> \<exists>c. changed x (ns_classes st ! i) c \<and> ns_classes st' = (ns_classes st)[i := c])"
proof -
  have "\<exists>f. set_attr P q f st = Inr st' \<and> (\<forall>c c'. f c = Inr c' \<longrightarrow> changed x c c')"
    using assms
    by (cases x; simp add: own_name_def bnd_eq_Inr)
      (((elim conjE exE)?, rule exI, rule conjI, assumption,
        auto simp: changed_def set_fields_def bnd_eq_Inr split: if_splits)+)
  then show ?thesis using set_attr_changes by blast
qed

lemma fold_bind: "ns_classes (fold (\<lambda>nm. bind_name nm v) ns st) = ns_classes st
    \<and> (p \<notin> set ns \<longrightarrow> ns_names (fold (\<lambda>nm. bind_name nm v) ns st) p = ns_names st p)"
  by (induction ns arbitrary: st) (auto simp: bind_name_def)

lemma exec_other:
  assumes "own_name x = None" and "exec P x st = Inr st'"
  shows "ns_classes st' = ns_classes st" and "p \<notin> set (bound_names x) \<Longrightarrow> ns_names st' p = ns_names st p"
  using assms
  by (cases x; simp add: own_name_def bound_names_def bnd_eq_Inr; force simp: fold_bind bind_name_def)+

section \<open>Following one class\<close>

text \<open>A name of a type is bound to the class with that name; and what the class of \<open>py\<close> has after the
  statements \<open>xs\<close>.\<close>

definition owned :: "(key \<times> stmt) list \<Rightarrow> string \<Rightarrow> bool" where
  "owned body q = (\<exists>k x. (k, x) \<in> set body \<and> own_name x = Some q)"

definition classes_named :: "(key \<times> stmt) list \<Rightarrow> loadstate \<Rightarrow> bool" where
  "classes_named body st = (\<forall>q. owned body q \<longrightarrow> (case ns_names st q of None \<Rightarrow> True | Some Foreign \<Rightarrow> False
     | Some (Testable i) \<Rightarrow> i < length (ns_classes st) \<and> tc_name (ns_classes st ! i) = q))"

definition given_attrs :: "key \<Rightarrow> string \<Rightarrow> (key \<times> stmt) list \<Rightarrow> tclass \<Rightarrow> bool" where
  "given_attrs k py xs c = (((k, SHaveDefinition py) \<in> set xs \<longrightarrow> tc_have c)
     \<and> ((\<exists>z. (k, SNativeSize py z) \<in> set xs) \<longrightarrow> (\<exists>z. tc_native c = Some z \<and> (k, SNativeSize py z) \<in> set xs)))"

definition follows :: "key \<Rightarrow> string \<Rightarrow> (key \<times> stmt) list \<Rightarrow> loadstate \<Rightarrow> bool" where
  "follows k py xs st = (case ns_names st py of
     Some (Testable i) \<Rightarrow> 0 < classes_of xs k \<and> given_attrs k py xs (ns_classes st ! i)
   | _ \<Rightarrow> \<forall>x. (k, x) \<in> set xs \<longrightarrow> own_name x \<noteq> Some py)"

lemma owned_known:
  "classes_named body st \<Longrightarrow> owned body q \<Longrightarrow> ns_names st q \<noteq> None \<Longrightarrow>
   \<exists>i. ns_names st q = Some (Testable i) \<and> i < length (ns_classes st) \<and> tc_name (ns_classes st ! i) = q"
  unfolding classes_named_def by (fastforce split: option.splits pyobj.splits)

lemma start_named: "names_apart P body \<Longrightarrow> classes_named body (load_start P)"
  by (auto simp: classes_named_def owned_def load_start_def dest: names_apartD(1))

text \<open>A statement with the name of another class, or with none.\<close>

lemma follows_same:
  assumes "follows k py xs st" and "own_name x \<noteq> Some py" and "ns_names st' py = ns_names st py"
    and "\<And>i. ns_names st py = Some (Testable i) \<Longrightarrow> ns_classes st' ! i = ns_classes st ! i"
  shows "follows k py (xs @ [(k1, x)]) st'"
proof -
  have "x \<noteq> SHaveDefinition py" "\<And>z. x \<noteq> SNativeSize py z" using assms(2) by (auto simp: own_name_def)
  with assms show ?thesis
    by (auto simp: follows_def given_attrs_def split: option.splits pyobj.splits)
qed

lemma exec_follows:
  assumes apart: "names_apart P body" and x: "(k1, x) \<in> set body" and own: "\<exists>x. (k, x) \<in> set body \<and> own_name x = Some py"
    and once: "is_class x \<Longrightarrow> k1 = k \<Longrightarrow> classes_of xs k = 0"
    and st: "classes_named body st" "follows k py xs st" and run: "exec P x st = Inr st'"
  shows "classes_named body st' \<and> follows k py (xs @ [(k1, x)]) st'"
proof (cases "own_name x")
  case None
  have "ns_names st' q = ns_names st q" if "owned body q" for q
    using exec_other(2) [OF None run, of q] that names_apartD(3) [OF apart _ _ x] unfolding owned_def by blast
  moreover have "owned body py" using own by (auto simp: owned_def)
  ultimately show ?thesis
    using st exec_other(1) [OF None run] follows_same [OF st(2), of x st' k1] None
    by (auto simp: classes_named_def split: option.splits pyobj.splits)
next
  case (Some q)
  have q: "owned body q" using x Some by (auto simp: owned_def)
  have k1: "k1 = k" if "q = py" using own names_apartD(2) [OF apart _ _ x] Some that by blast
  show ?thesis
  proof (cases "is_class x")
    case False
    from exec_attr [OF Some False run] obtain i c where i: "ns_names st q = Some (Testable i)"
      "i < length (ns_classes st)" "tc_name (ns_classes st ! i) = q" and n: "ns_names st' = ns_names st"
      and c: "changed x (ns_classes st ! i) c" "ns_classes st' = (ns_classes st)[i := c]"
      using owned_known [OF st(1) q] by (fastforce split: option.splits pyobj.splits)
    have "tc_name (ns_classes st' ! j) = tc_name (ns_classes st ! j)" for j
      using c by (cases "j = i") (auto simp: changed_def nth_list_update i(2))
    then have "classes_named body st'" using st(1) by (simp add: classes_named_def n c(2) cong: pyobj.case_cong option.case_cong)
    moreover have "follows k py (xs @ [(k1, x)]) st'"
    proof (cases "q = py")
      case True
      with i n c st(2) k1 Some show ?thesis
        by (auto simp: follows_def given_attrs_def changed_def own_name_def split: stmt.splits)
    next
      case False
      have "ns_classes st' ! j = ns_classes st ! j" if "ns_names st py = Some (Testable j)" for j
      proof -
        have "owned body py" using own by (auto simp: owned_def)
        with owned_known [OF st(1), of py] that have "tc_name (ns_classes st ! j) = py" by simp
        with i(3) False have "j \<noteq> i" by blast
        then show ?thesis by (simp add: c(2))
      qed
      with False Some n show ?thesis by (intro follows_same [OF st(2)]) auto
    qed
    ultimately show ?thesis by blast
  next
    case True
    then obtain b m t where xc: "x = SClass q b m t" using Some by (cases x) (auto simp: own_name_def)
    let ?n = "length (ns_classes st)"
    have st': "ns_names st' = (ns_names st)(q \<mapsto> Testable ?n)" "ns_classes st' = ns_classes st @ [new_class q b]"
      using run by (auto simp: xc bnd_eq_Inr bind_name_def)
    have "classes_named body st'" using st(1)
      by (auto simp: classes_named_def st' nth_append new_class_def split: option.splits pyobj.splits)
    moreover have "follows k py (xs @ [(k1, x)]) st'"
    proof (cases "q = py")
      case True
      then have "classes_of xs k = 0" using once k1 \<open>is_class x\<close> by blast
      with st(2) have "\<forall>y. (k, y) \<in> set xs \<longrightarrow> own_name y \<noteq> Some py"
        by (auto simp: follows_def split: option.splits pyobj.splits)
      then have "(k, SHaveDefinition py) \<notin> set xs" "\<And>z. (k, SNativeSize py z) \<notin> set xs" by (auto simp: own_name_def)
      with True k1 show ?thesis by (auto simp: follows_def st' xc given_attrs_def)
    next
      case False
      have "j < ?n" if "ns_names st py = Some (Testable j)" for j
        using owned_known [OF st(1), of py] own that by (auto simp: owned_def)
      then show ?thesis using False Some by (intro follows_same [OF st(2)]) (auto simp: st' nth_append)
    qed
    ultimately show ?thesis by blast
  qed
qed

lemma run_follows:
  assumes apart: "names_apart P body" and own: "\<exists>x. (k, x) \<in> set body \<and> own_name x = Some py"
    and once: "classes_of body k \<le> 1"
  shows "body = xs @ ys \<Longrightarrow> run_body P xs (load_start P) = Inr st \<Longrightarrow> classes_named body st \<and> follows k py xs st"
proof (induction xs arbitrary: ys st rule: rev_induct)
  case Nil
  then have st: "st = load_start P" by (simp add: run_body_def)
  have "py \<notin> set (ct_names P)" using own names_apartD(1) [OF apart] by blast
  then show ?case using start_named [OF apart] by (simp add: st follows_def load_start_def)
next
  case (snoc kx xs)
  obtain k1 x where kx: "kx = (k1, x)" by (cases kx)
  with snoc.prems obtain st1 where st1: "run_body P xs (load_start P) = Inr st1" "exec P x st1 = Inr st"
    by (auto simp: run_body_def in_turn_append bnd_eq_Inr)
  have "classes_of xs k = 0" if "is_class x" "k1 = k"
    using once that snoc.prems(1) kx by (simp add: classes_of_def)
  moreover have "(k1, x) \<in> set body" using snoc.prems(1) kx by simp
  moreover have "classes_named body st1" "follows k py xs st1"
    using snoc.IH [of "kx # ys" st1] snoc.prems(1) st1(1) by simp_all
  ultimately show ?case unfolding kx using exec_follows [OF apart _ own _ _ _ st1(2)] by blast
qed

section \<open>The sizes in a module are right\<close>

definition told :: "env \<Rightarrow> rstate \<Rightarrow> bool" where
  "told E s = (\<forall>k x. (k, x) \<in> set (out s) \<longrightarrow> fits E k x s)"

definition keeps_told :: "env \<Rightarrow> rstate \<Rightarrow> rstate \<Rightarrow> bool" where
  "keeps_told E s s' = (stable s s' \<and> (told E s \<longrightarrow> told E s'))"

lemma stable_fits: "stable s s' \<Longrightarrow> fits E k x s \<Longrightarrow> fits E k x s'"
  by (fastforce simp: fits_def later_obj_def dest: stableD split: stmt.splits)

lemma keeps_toldI:
  assumes "stable s s'" and "out s' = out s @ xs" and "\<And>k x. (k, x) \<in> set xs \<Longrightarrow> fits E k x s"
  shows "keeps_told E s s'"
  using assms stable_fits [OF assms(1)] by (auto simp: keeps_told_def told_def)

lemma fits_class: "is_class x \<or> is_fields x \<Longrightarrow> fits E k x s"
  by (cases x) (auto simp: fits_def)

interpretation told: generator_relation "keeps_told E" E for E
proof
  fix s t u
  show "keeps_told E s s" for E by (simp add: keeps_told_def stable_refl)
  show "keeps_told E s u" if "keeps_told E s t" "keeps_told E t u" for E
    using that unfolding keeps_told_def by (blast intro: stable_trans)
  show "stable s t" if "keeps_told E s t" for E using that by (simp add: keeps_told_def)
  show "keeps_told E s t" if "discovers s t" for E
    using that by (intro keeps_toldI [where xs = "[]"]) (simp_all add: discovers_stable discovers_def same_rest_def)
next
  fix s :: rstate and E k ob ob' assume h: "heap s k = Some ob" and o: "same_obj ob ob'"
  show "keeps_told E s (s\<lparr>heap := (heap s)(k \<mapsto> ob')\<rparr>)"
    by (intro keeps_toldI [where xs = "[]"] stable_update [OF h same_later [OF o]]) simp_all
next
  fix s :: rstate and E k ob assume h: "heap s k = Some ob"
  have l: "later_obj ob (ob\<lparr>ob_declared := True\<rparr>)" "later_obj ob (ob\<lparr>ob_defined := True\<rparr>)"
    by (simp_all add: later_obj_def)
  show "keeps_told E s (s\<lparr>heap := (heap s)(k \<mapsto> ob\<lparr>ob_declared := True\<rparr>)\<rparr>)"
    by (intro keeps_toldI [where xs = "[]"] stable_update [OF h l(1)]) simp_all
  show "keeps_told E s (s\<lparr>heap := (heap s)(k \<mapsto> ob\<lparr>ob_defined := True\<rparr>), definedNames := ns\<rparr>)" for ns
    by (intro keeps_toldI [where xs = "[]"] stable_update [OF h l(2)]) simp_all
  show "keeps_told E s (s\<lparr>out := out s @ [(k, x)], heap := (heap s)(k \<mapsto> ob\<lparr>ob_declared := True\<rparr>)\<rparr>)"
    if "is_class x" for x
    by (intro keeps_toldI [where xs = "[(k, x)]"] stable_update [OF h l(1)])
      (use that in \<open>auto intro: fits_class\<close>)
next
  fix s :: rstate and E k x
  have st: "stable s (s\<lparr>out := out s @ [(k, x)]\<rparr>)" by (rule stable_heap) simp_all
  show "keeps_told E s (s\<lparr>out := out s @ [(k, x)]\<rparr>)" if "is_fields x"
    by (intro keeps_toldI [OF st, where xs = "[(k, x)]"]) (use that in \<open>auto intro: fits_class\<close>)
  show "keeps_told E s (s\<lparr>out := out s @ [(k, x)]\<rparr>)" if "fits E k x s"
    by (intro keeps_toldI [OF st, where xs = "[(k, x)]"]) (use that in auto)
qed (auto intro!: keeps_toldI [where xs = "[]"] stable_heap)

lemma module_told:
  assumes "init_resolver E q n s0 = Inr (u, s)" and "write_module E H m s = Inr (md, s')"
    and "heap s' k = Some ob" and "ob_defdie ob = Some f" and "DW_AT_byte_size (e_dw E f) = Some z"
    and "(k, SNativeSize py z') \<in> set (md_body md)"
  shows "z' = z"
proof -
  have "told E (start_state q)" by (simp add: told_def start_state_def rstate0_def)
  then have "told E s'"
    using told.keeps_init [OF assms(1)] keepsD [OF told.keeps_write_module assms(2)] by (simp add: keeps_told_def)
  moreover have "md_body md = out s'" using write_module_parts [OF assms(2)] by blast
  ultimately have "fits E k (SNativeSize py z') s'" using assms(6) by (simp add: told_def)
  with assms(3-5) show ?thesis by (auto simp: fits_def)
qed

section \<open>What the tests have seen\<close>

lemma test_each_sizes:
  "test_each n kind al cs (es, mm) = Inr (es', mm') \<Longrightarrow>
   set es \<subseteq> set es' \<and> (\<forall>c \<in> set cs. set (checkSize c) \<subseteq> set es')"
proof (induction cs arbitrary: es mm)
  case (Cons c cs)
  then obtain es1 mm1 where 1: "test_class n kind al c (es, mm) = Inr (es1, mm1)"
    "test_each n kind al cs (es1, mm1) = Inr (es', mm')" by (auto simp: bnd_eq_Inr)
  from 1(1) have "set es \<subseteq> set es1" "set (checkSize c) \<subseteq> set es1"
    by (auto simp: test_class_def bnd_eq_Inr)
  with Cons.IH [OF 1(2)] show ?case by auto
qed simp

lemma tested_size:
  assumes "test_classes n kind al cs failed s = Inr r" and "c \<in> set cs" and "c_have_definition c"
  shows "c_sizeof c = c_native_size c \<or> c_sizeof c = 0 \<and> c_native_size c = 1"
proof -
  from assms(1) obtain mm where "test_each n kind al cs s = Inr ([], mm)"
    by (auto simp: test_classes_def bnd_eq_Inr split: if_splits)
  with test_each_sizes [of n kind al cs "fst s" "snd s"] assms(2) have "checkSize c = []" by fastforce
  with assms(3) show ?thesis by (auto simp: checkSize_def split: if_splits)
qed

lemma map_res_nth: "map_res f xs = Inr ys \<Longrightarrow> i < length xs \<Longrightarrow> f (xs ! i) = Inr (ys ! i)"
proof (induction xs arbitrary: ys i)
  case (Cons x xs)
  then show ?case by (cases i) (auto simp: bnd_eq_Inr)
qed simp

lemma as_class_Inr:
  "as_class P modname st c = Inr d \<Longrightarrow> c_name d = tc_name c \<and> c_have_definition d = tc_have c
    \<and> (tc_have c \<longrightarrow> tc_native c = Some (c_native_size d))"
  by (auto simp: as_class_def bnd_eq_Inr need_eq_Inr)

text \<open>The class of a type in a module that was loaded.\<close>

lemma loaded_size:
  assumes load: "load_source P R modname md ms = Inr l" and apart: "names_apart P (md_body md)"
    and once: "classes_of (md_body md) k \<le> 1"
    and stmts: "{(k, SNativeSize py z), (k, SHaveDefinition py)} \<subseteq> set (md_body md)"
    and only: "\<And>z'. (k, SNativeSize py z') \<in> set (md_body md) \<Longrightarrow> z' = z"
  shows "\<exists>c \<in> set (l_classes l). c_name c = py \<and> (c_sizeof c = z \<or> c_sizeof c = 0 \<and> z = 1)"
proof -
  from load obtain st failed cs r where st: "run_body P (md_body md) (load_start P) = Inr st"
    and cs: "map_res (as_class P modname st) (ns_classes st) = Inr cs" "l_classes l = cs"
    and test: "test_classes (rt_fuel R) (ct_kind P st) (ct_alignment P st) (rt_classes R @ cs) failed (rt_errors R, rt_memo R) = Inr r"
    by (auto simp: load_source_def bnd_eq_Inr)
  have own: "\<exists>x. (k, x) \<in> set (md_body md) \<and> own_name x = Some py"
    using stmts by (intro exI [of _ "SHaveDefinition py"]) (simp add: own_name_def)
  from run_follows [OF apart own once, of "md_body md" "[]"] st
  have f: "classes_named (md_body md) st" "follows k py (md_body md) st" by simp_all
  have "ns_names st py \<noteq> None" using f(2) own by (auto simp: follows_def split: option.splits)
  moreover have "owned (md_body md) py" using own by (auto simp: owned_def)
  ultimately obtain i where i: "ns_names st py = Some (Testable i)" "i < length (ns_classes st)"
    "tc_name (ns_classes st ! i) = py" using owned_known [OF f(1)] by blast
  with f(2) stmts only have "tc_have (ns_classes st ! i)" "tc_native (ns_classes st ! i) = Some z"
    by (auto simp: follows_def given_attrs_def)
  moreover have "as_class P modname st (ns_classes st ! i) = Inr (cs ! i)" by (rule map_res_nth [OF cs(1) i(2)])
  ultimately have c: "c_name (cs ! i) = py" "c_have_definition (cs ! i)" "c_native_size (cs ! i) = z"
    using as_class_Inr [of P modname st] i(3) by auto
  have "cs ! i \<in> set cs" using i(2) map_res_length [OF cs(1)] by simp
  with tested_size [OF test _ c(2)] c cs(2) show ?thesis by auto
qed

section \<open>Properties\<close>

text \<open>C6: when \<open>generateDwarf\<close> returns, every structure or union it was asked for has a class in the
  module under its Python name, and \<open>ctypes\<close> gives that class the size in the debug data (or the
  class is empty and C says one), unless no definition of the type was found: the statements of the
  module were executed and tested, however \<open>ctypes\<close> lays out the types in them.\<close>

theorem tested_sizes_right:
  assumes run: "generateDwarf_tested E H M P R q opt events outname modname n s0 = Inr (l, s)"
    and init: "init_resolver E q n s0 = Inr (u, s1)"
    and k: "List.member (defineTypes s1) k" "ready False k s1"
    and apart: "names_apart P (md_body (l_module l))"
  shows "\<exists>ob f. heap s k = Some ob \<and> ob_defdie ob = Some f \<and> (unavailable E f
    \<or> (\<exists>z c. DW_AT_byte_size (e_dw E f) = Some z \<and> c \<in> set (l_classes l)
       \<and> c_name c = obj_pyName E ob True \<and> (c_sizeof c = z \<or> c_sizeof c = 0 \<and> z = 1)))"
proof -
  from run init obtain md ms where w: "write_module E H n s1 = Inr (md, s)"
    and load: "load_source P R (case modname of Some m \<Rightarrow> m | None \<Rightarrow> default_modname outname) md ms = Inr l"
    by (auto simp: generateDwarf_tested_def generateDwarf_def andthen_def sbind_eq_Inr lift_eq_Inr)
  have md: "l_module l = md" using load by (auto simp: load_source_def bnd_eq_Inr)
  from requested_written [OF init w k] obtain ob f where ob: "heap s k = Some ob" "ob_defdie ob = Some f"
    and c: "unavailable E f \<or> classes_of (md_body md) k = 1
      \<and> (\<exists>z. DW_AT_byte_size (e_dw E f) = Some z
         \<and> {(k, SNativeSize (obj_pyName E ob True) z), (k, SHaveDefinition (obj_pyName E ob True))} \<subseteq> set (md_body md))"
    by blast
  show ?thesis
  proof (cases "unavailable E f")
    case False
    with c obtain z where z: "DW_AT_byte_size (e_dw E f) = Some z" "classes_of (md_body md) k \<le> 1"
      "{(k, SNativeSize (obj_pyName E ob True) z), (k, SHaveDefinition (obj_pyName E ob True))} \<subseteq> set (md_body md)"
      by auto
    have "names_apart P (md_body md)" using apart md by simp
    from loaded_size [OF load this z(2,3)] module_told [OF init w ob z(1)] ob z(1) show ?thesis by blast
  qed (use ob in blast)
qed

text \<open>\<open>struct n { n *p; };\<close>\<close>

definition ex_python :: python where
  "ex_python = \<lparr>ct_names = [''Structure'', ''Union'', ''TestableCtypeClass'', ''POINTER''],
     ct_value = (\<lambda>st e. need (PyException ''NameError'') (ns_names st e)),
     ct_type = (\<lambda>st t. need (PyException ''NameError'') (map_of [(''POINTER( struct_n )'', (8, 8)), (''c_void_p'', (8, 8))] t)),
     ct_id = (\<lambda>st t. length t), ct_layout = (\<lambda>_ _ _ _ _. Inl TypeError), ct_setattr = (\<lambda>_ _. Inl AttributeError),
     ct_kind = (\<lambda>_ _. Pointer), ct_alignment = (\<lambda>_ _. 8), ct_rest = (\<lambda>_ _ _. Inr [])\<rparr>"

definition ex_runtime :: runtime where
  "ex_runtime = \<lparr>rt_classes = [], rt_errors = [], rt_memo = Map.empty, rt_fuel = 5\<rparr>"

definition ex_tested :: "(loaded \<times> rstate) res" where
  "ex_tested = generateDwarf_tested (ex_env ex_node) ex_host ex_menv ex_python ex_runtime node_request ex_options
     ex_events ''nodes.py'' None 12 rstate0"

lemma ex_tested_ok: "\<exists>l s. ex_tested = Inr (l, s) \<and> names_apart ex_python (md_body (l_module l))
    \<and> l_name l = ''nodes'' \<and> map (\<lambda>c. (c_name c, c_sizeof c)) (l_classes l) = [(''struct_n'', 8)]
    \<and> map_option ob_defdie (heap s node_key) = Some (Some 1)"
proof -
  have r: "case ex_tested of Inr (l, s) \<Rightarrow> names_apart ex_python (md_body (l_module l)) \<and> l_name l = ''nodes''
      \<and> map (\<lambda>c. (c_name c, c_sizeof c)) (l_classes l) = [(''struct_n'', 8)]
      \<and> map_option ob_defdie (heap s node_key) = Some (Some 1)
      | Inl _ \<Rightarrow> False" by code_simp
  then obtain l s where e: "ex_tested = Inr (l, s)" by (auto split: sum.splits)
  from e r [unfolded e sum.case prod.case]
  show ?thesis by (rule exI [of _ l, OF exI [of _ s, OF conjI]])
qed

lemma ex_start: "\<exists>s. init_resolver (ex_env ex_node) node_request 12 rstate0 = Inr ((), s)
    \<and> List.member (defineTypes s) node_key \<and> ready False node_key s"
proof -
  have "case init_resolver (ex_env ex_node) node_request 12 rstate0 of
      Inr (_, s) \<Rightarrow> List.member (defineTypes s) node_key
        \<and> (case heap s node_key of Some ob \<Rightarrow> is_member_kind (ob_kind ob) | None \<Rightarrow> False)
    | Inl _ \<Rightarrow> False" by code_simp
  then show ?thesis by (auto simp: ready_def split: sum.splits option.splits)
qed

theorem tested_sizes_right_witness:
  "\<exists>l s ob z c. ex_tested = Inr (l, s) \<and> heap s node_key = Some ob \<and> c \<in> set (l_classes l)
    \<and> c_name c = obj_pyName (ex_env ex_node) ob True \<and> (c_sizeof c = z \<or> c_sizeof c = 0 \<and> z = 1)
    \<and> DW_AT_byte_size (ex_node 1) = Some z"
proof -
  obtain l s where l: "ex_tested = Inr (l, s)" "names_apart ex_python (md_body (l_module l))"
    "map_option ob_defdie (heap s node_key) = Some (Some 1)" using ex_tested_ok by blast
  obtain s1 where s1: "init_resolver (ex_env ex_node) node_request 12 rstate0 = Inr ((), s1)"
    "List.member (defineTypes s1) node_key" "ready False node_key s1" using ex_start by blast
  have "\<not> unavailable (ex_env ex_node) 1"
    by (simp add: unavailable_def isVoid_def deref_plain is_qualified_def qualifiers_def ex_env_def
        ex_node_def mk_die_def)
  moreover have "e_dw (ex_env ex_node) = ex_node" by (simp add: ex_env_def)
  moreover obtain ob f where ob: "heap s node_key = Some ob" "ob_defdie ob = Some f" and "unavailable (ex_env ex_node) f
      \<or> (\<exists>z c. DW_AT_byte_size (e_dw (ex_env ex_node) f) = Some z \<and> c \<in> set (l_classes l)
         \<and> c_name c = obj_pyName (ex_env ex_node) ob True \<and> (c_sizeof c = z \<or> c_sizeof c = 0 \<and> z = 1))"
    using tested_sizes_right [OF l(1) [unfolded ex_tested_def] s1 l(2)] by blast
  moreover have "f = 1" using ob l(3) by simp
  ultimately show ?thesis using l(1) by metis
qed

text \<open>\<open>struct fwd; struct n { void (*f)( struct fwd ); };\<close>\<close>

definition ex_incomplete :: dwarf where
  "ex_incomplete = (\<lambda>_. mk_die 0 [])
     (1 := (mk_die DW_TAG_structure_type [''n''])\<lparr>DW_AT_byte_size := Some 8, children := [2]\<rparr>,
      2 := (mk_die DW_TAG_member [''n'', ''f''])\<lparr>DW_AT_type := Some 3, DW_AT_data_member_location := Some 0\<rparr>,
      3 := (mk_die DW_TAG_pointer_type [])\<lparr>DW_AT_type := Some 4, DW_AT_byte_size := Some 8\<rparr>,
      4 := (mk_die DW_TAG_subroutine_type [])\<lparr>children := [5]\<rparr>,
      5 := (mk_die DW_TAG_formal_parameter [])\<lparr>DW_AT_type := Some 6\<rparr>,
      6 := (mk_die DW_TAG_structure_type [''fwd''])\<lparr>DW_AT_declaration := True\<rparr>)"

text \<open>Python evaluates the type of the member, which names \<open>struct_fwd\<close>.\<close>

definition fwd_python :: python where
  "fwd_python = ex_python\<lparr>ct_type := (\<lambda>st t.
     if t = ''CFUNCTYPE( None, struct_fwd'' @ nl @ ''      )''
     then bnd (need (PyException ''NameError'') (ns_names st ''struct_fwd'')) (\<lambda>_. Inr (8, 8))
     else Inl TypeError)\<rparr>"

lemma incomplete_parameter_unbound:
  "generateDwarf_tested (ex_env ex_incomplete) ex_host ex_menv fwd_python ex_runtime node_request ex_options
     ex_events ''nodes.py'' None 12 rstate0 = Inl (PyException ''NameError'')"
proof -
  have "case generateDwarf_tested (ex_env ex_incomplete) ex_host ex_menv fwd_python ex_runtime node_request ex_options
     ex_events ''nodes.py'' None 12 rstate0 of Inl e \<Rightarrow> e = PyException ''NameError'' | Inr _ \<Rightarrow> False" by code_simp
  then show ?thesis by (simp split: sum.splits)
qed

text \<open>\<open>typedef void V; struct n { V (*f)( void ); };\<close>: the generator reports that \<open>V\<close> cannot be defined,
  and goes on.\<close>

definition ex_void_result :: dwarf where
  "ex_void_result = (\<lambda>_. mk_die 0 [])
     (1 := (mk_die DW_TAG_structure_type [''n''])\<lparr>DW_AT_byte_size := Some 8, children := [2]\<rparr>,
      2 := (mk_die DW_TAG_member [''n'', ''f''])\<lparr>DW_AT_type := Some 3, DW_AT_data_member_location := Some 0\<rparr>,
      3 := (mk_die DW_TAG_pointer_type [])\<lparr>DW_AT_type := Some 4, DW_AT_byte_size := Some 8\<rparr>,
      4 := (mk_die DW_TAG_subroutine_type [])\<lparr>DW_AT_type := Some 5\<rparr>,
      5 := mk_die DW_TAG_typedef [''V''])"

definition void_python :: python where
  "void_python = ex_python\<lparr>ct_type := (\<lambda>st t.
     if t = ''CFUNCTYPE( V)''
     then bnd (need (PyException ''NameError'') (ns_names st ''V'')) (\<lambda>_. Inr (8, 8)) else Inl TypeError)\<rparr>"

lemma void_result_unbound:
  "generateDwarf_tested (ex_env ex_void_result) ex_host ex_menv void_python ex_runtime node_request ex_options
     ex_events ''nodes.py'' None 12 rstate0 = Inl (PyException ''NameError'')"
proof -
  have "case generateDwarf_tested (ex_env ex_void_result) ex_host ex_menv void_python ex_runtime node_request ex_options
     ex_events ''nodes.py'' None 12 rstate0 of Inl e \<Rightarrow> e = PyException ''NameError'' | Inr _ \<Rightarrow> False" by code_simp
  then show ?thesis by (simp split: sum.splits)
qed


end
