(* ===== verification/Evaluable.thy ===== *)
theory Evaluable
  imports TypeSizes Write
begin

text \<open>
  Which names the expression of a type uses.  A generated module is executed from top to bottom, so
  an expression must only use names that are bound where it stands.  \<open>evaluable A text\<close> says that
  every name in the expression is in \<open>A\<close>, and \<open>scoped\<close> says the same of a type in the debug data,
  without its expression; \<open>ctype_evaluable\<close> connects the two.
\<close>

section \<open>Expressions\<close>

definition times_text :: "string \<Rightarrow> int \<Rightarrow> string" where
  "times_text t d = t @ '' * '' @ show_int d"

definition paren_text :: "string \<Rightarrow> string" where
  "paren_text t = ''('' @ t @ '')''"

definition call_text :: "string \<Rightarrow> string \<Rightarrow> string" where
  "call_text f t = f @ ''( '' @ t @ '' )''"

definition function_text :: "string \<Rightarrow> string list \<Rightarrow> string" where
  "function_text r ts = ''CFUNCTYPE( '' @ r @ concat (map (\<lambda>t. '', '' @ t @ nl @ ''      '') ts) @ '')''"

inductive evaluable :: "string set \<Rightarrow> string \<Rightarrow> bool" for A :: "string set" where
  ev_name: "t \<in> A \<Longrightarrow> evaluable A t"
| ev_times: "evaluable A t \<Longrightarrow> evaluable A (times_text t d)"
| ev_paren: "evaluable A t \<Longrightarrow> evaluable A (paren_text t)"
| ev_call: "f \<in> A \<Longrightarrow> evaluable A t \<Longrightarrow> evaluable A (call_text f t)"
| ev_function: "''CFUNCTYPE'' \<in> A \<Longrightarrow> evaluable A r \<Longrightarrow> (\<forall>t \<in> set ts. evaluable A t) \<Longrightarrow>
    evaluable A (function_text r ts)"

lemma evaluable_mono: "evaluable A t \<Longrightarrow> A \<subseteq> B \<Longrightarrow> evaluable B t"
  by (induction rule: evaluable.induct) (auto intro: evaluable.intros)

text \<open>An identifier among these is a name.\<close>

lemma evaluable_identifier: "evaluable A t \<Longrightarrow> CHR '' '' \<notin> set t \<Longrightarrow> CHR ''('' \<notin> set t \<Longrightarrow> t \<in> A"
  by (induction rule: evaluable.induct) (simp_all add: times_text_def paren_text_def call_text_def function_text_def)

lemma evaluable_py:
  assumes "evaluable A (asPythonId_str s)"
  shows "asPythonId_str s \<in> A"
proof -
  have "special (CHR '' '')" "special (CHR ''('')" by (simp_all add: special_def repls_def)
  with asPythonId_no_special have "CHR '' '' \<notin> set (asPythonId_str s)" "CHR ''('' \<notin> set (asPythonId_str s)" by blast+
  with assms show ?thesis by (rule evaluable_identifier)
qed

text \<open>The names that \<open>from ctypes import *\<close> and the import of \<open>CTypeGenRun\<close> provide.\<close>

definition ctypes_names :: "string list" where
  "ctypes_names = map fst ctypes_sizes @ [''POINTER'', ''CFUNCTYPE'', ''CONST'', ''VOLATILE'', ''RESTRICT'', ''None'',
     ''Structure'', ''Union'']"

lemma table_evaluable:
  "list_all (\<lambda>(c_name, t, _). List.member ctypes_names t
     \<or> t = ''(c_longlong * 2)'' \<or> t = ''(c_ulonglong * 2)'') (baseTypes psz)"
  by (simp add: baseTypes_def ctypes_names_def ctypes_sizes_def)

lemma name_evaluable: "List.member ctypes_names t \<Longrightarrow> set ctypes_names \<subseteq> A \<Longrightarrow> evaluable A t"
  by (rule ev_name) auto

lemma pad_evaluable:
  assumes "set ctypes_names \<subseteq> A" and "List.member ctypes_names t"
  shows "evaluable A (times_text t z)" and "evaluable A (paren_text (times_text t z))"
  by (intro ev_times ev_paren name_evaluable assms)+

lemma prim_evaluable:
  assumes A: "set ctypes_names \<subseteq> A" and z: "DW_AT_byte_size (dw d) \<noteq> None"
  shows "evaluable A (prim_ctype psz dw d)"
proof (cases "case DW_AT_name (dw d) of None \<Rightarrow> None | Some nm \<Rightarrow> map_of (baseTypes psz) nm")
  case None
  obtain y where y: "DW_AT_byte_size (dw d) = Some y" using z by blast
  have m: "List.member ctypes_names ''c_byte''" by code_simp
  have "prim_ctype psz dw d = paren_text (times_text ''c_byte'' y)"
    using None y by (simp add: prim_ctype_def paren_text_def times_text_def)
  then show ?thesis using pad_evaluable(2) [OF A m] by metis
next
  case (Some r)
  obtain t a where r: "r = (t, a)" by (cases r)
  with Some have "prim_ctype psz dw d = t" by (simp add: prim_ctype_def)
  moreover from Some r obtain nm where "(nm, t, a) \<in> set (baseTypes psz)"
    by (auto split: option.splits dest: map_of_SomeD)
  with table_evaluable [of psz] have "List.member ctypes_names t \<or> t = ''(c_longlong * 2)'' \<or> t = ''(c_ulonglong * 2)''"
    by (fastforce simp: list_all_iff)
  moreover have "show_int 2 = ''2''" "List.member ctypes_names ''c_longlong''" "List.member ctypes_names ''c_ulonglong''"
    by code_simp+
  then have "evaluable A ''(c_longlong * 2)''" "evaluable A ''(c_ulonglong * 2)''"
    using pad_evaluable(2) [OF A, of "''c_longlong''" 2] pad_evaluable(2) [OF A, of "''c_ulonglong''" 2]
    by (simp_all add: paren_text_def times_text_def)
  ultimately show ?thesis using name_evaluable [OF _ A] by metis
qed

section \<open>Types\<close>

text \<open>The names that the expression of the type under a key uses are in \<open>A\<close>.  The definitions of
  functions are not types that anything refers to.\<close>

inductive scoped :: "env \<Rightarrow> string set \<Rightarrow> key \<Rightarrow> bool" for E A where
  u_prim: "origin E k i KPrim \<Longrightarrow> scoped E A k"
| u_named: "origin E k i kd \<Longrightarrow> named kd \<Longrightarrow> py_name E i kd \<in> A \<Longrightarrow> scoped E A k"
| u_base: "origin E k i kd \<Longrightarrow> List.member (KArray # quals) kd \<Longrightarrow>
    (\<forall>b. DW_AT_type (e_dw E i) = Some b \<longrightarrow> scoped E A (key_of E b)) \<Longrightarrow> scoped E A k"
| u_pointer: "origin E k i KPointer \<Longrightarrow> isVoid (e_dw E) (DW_AT_type (e_dw E i)) = Inr True
    \<or> (\<forall>b. DW_AT_type (e_dw E i) = Some b \<longrightarrow> scoped E A (key_of E b)) \<Longrightarrow> scoped E A k"
| u_function: "origin E k i KFunction \<Longrightarrow> (\<forall>b. DW_AT_type (e_dw E i) = Some b \<longrightarrow> scoped E A (key_of E b)) \<Longrightarrow>
    (\<forall>p \<in> set (params E i). \<exists>t. DW_AT_type (e_dw E p) = Some t \<and> scoped E A (key_of E t)) \<Longrightarrow> scoped E A k"

lemma scoped_mono: "scoped E A k \<Longrightarrow> A \<subseteq> B \<Longrightarrow> scoped E B k"
  by (induction rule: scoped.induct) (blast intro: scoped.intros)+

text \<open>What the debug data has to be like: the entries under one key are of one class and have one
  name; a type without a name of its own has one entry; a definition has the tag of its declaration;
  nothing refers to the definition of a function; primitive types have a size; the entries of a type
  agree on whether it is \<open>void\<close>.\<close>

definition anonymous :: "tkind \<Rightarrow> bool" where
  "anonymous kd = (\<not> named kd \<and> kd \<noteq> KFunctionDef \<and> kd \<noteq> KPrim)"

definition orderly :: "env \<Rightarrow> bool" where
  "orderly E \<longleftrightarrow>
     (\<forall>k i kd j kj. origin E k i kd \<longrightarrow> origin E k j kj \<longrightarrow> kj = kd \<and> py_name E j kj = py_name E i kd)
     \<and> (\<forall>k i kd f. origin E k i kd \<longrightarrow> anonymous kd \<longrightarrow> (entry_of E k f \<longrightarrow> f = i) \<and> (\<forall>j. origin E k j kd \<longrightarrow> j = i))
     \<and> (\<forall>d f. find_first (e_find E) d = Some f \<longrightarrow> dtag (e_dw E f) = dtag (e_dw E d))
     \<and> (\<forall>d b i kd. DW_AT_type (e_dw E d) = Some b \<longrightarrow> origin E (key_of E b) i kd \<longrightarrow> kd \<noteq> KFunctionDef)
     \<and> (\<forall>k i. origin E k i KPrim \<longrightarrow> DW_AT_byte_size (e_dw E i) \<noteq> None)
     \<and> (\<forall>d f. entry_of E (key_of E d) f \<longrightarrow> isVoid (e_dw E) (Some f) = isVoid (e_dw E) (Some d))"

lemma orderlyD:
  assumes "orderly E" and "origin E k i kd"
  shows "origin E k j kj \<Longrightarrow> kj = kd" and "origin E k j kj \<Longrightarrow> py_name E j kj = py_name E i kd"
    and "anonymous kd \<Longrightarrow> entry_of E k f \<Longrightarrow> f = i" and "anonymous kd \<Longrightarrow> origin E k j kj \<Longrightarrow> j = i"
    and "kd = KPrim \<Longrightarrow> DW_AT_byte_size (e_dw E i) \<noteq> None"
  using assms unfolding orderly_def by blast+

lemma orderly_refs:
  assumes "orderly E"
  shows "find_first (e_find E) d = Some f \<Longrightarrow> dtag (e_dw E f) = dtag (e_dw E d)"
    and "DW_AT_type (e_dw E d) = Some b \<Longrightarrow> origin E (key_of E b) i kd \<Longrightarrow> kd \<noteq> KFunctionDef"
    and "entry_of E (key_of E d) f \<Longrightarrow> isVoid (e_dw E) (Some f) = isVoid (e_dw E) (Some d)"
  using assms unfolding orderly_def by blast+

lemma kinds_apart:
  "\<not> named KPrim" "\<not> named KArray" "\<not> named KPointer" "\<not> named KFunction" "\<not> named KFunctionDef"
  "List.member quals kd \<Longrightarrow> \<not> named kd" "\<not> List.member quals KPrim" "\<not> List.member quals KArray"
  "\<not> List.member quals KPointer" "\<not> List.member quals KFunction" "\<not> List.member quals KFunctionDef"
  by (auto simp: named_def quals_def funcs_def)

lemma plain_kinds: "anonymous KArray" "anonymous KPointer" "anonymous KFunction" "List.member quals kd \<Longrightarrow> anonymous kd"
  by (auto simp: anonymous_def named_def quals_def funcs_def)

lemma scoped_cases:
  assumes o: "orderly E" "origin E k i kd" and u: "scoped E A k"
  obtains "kd = KPrim" | "named kd" "py_name E i kd \<in> A"
  | "List.member (KArray # quals) kd" "\<forall>b. DW_AT_type (e_dw E i) = Some b \<longrightarrow> scoped E A (key_of E b)"
  | "kd = KPointer" "isVoid (e_dw E) (DW_AT_type (e_dw E i)) = Inr True
      \<or> (\<forall>b. DW_AT_type (e_dw E i) = Some b \<longrightarrow> scoped E A (key_of E b))"
  | "kd = KFunction" "\<forall>b. DW_AT_type (e_dw E i) = Some b \<longrightarrow> scoped E A (key_of E b)"
      "\<forall>p \<in> set (params E i). \<exists>t. DW_AT_type (e_dw E p) = Some t \<and> scoped E A (key_of E t)"
  using u
proof cases
  case (u_named j kj)
  then have "named kd" "py_name E i kd \<in> A" using orderlyD(1,2) [OF o] by auto
  then show ?thesis by (rule that(2))
next
  case (u_base j kj)
  then have "kd = kj" using orderlyD(1) [OF o] by simp
  moreover from this have "j = i" using orderlyD(4) [OF o] u_base plain_kinds by auto
  ultimately show ?thesis using u_base that(3) by simp
next
  case (u_pointer j)
  then have "kd = KPointer" "j = i" using orderlyD(1,4) [OF o] plain_kinds by auto
  then show ?thesis using u_pointer that(4) by simp
next
  case (u_function j)
  then have "kd = KFunction" "j = i" using orderlyD(1,4) [OF o] plain_kinds by auto
  then show ?thesis using u_function that(5) by simp
qed (use that(1) orderlyD(1) [OF o] in blast)

lemma scopedD:
  assumes o: "orderly E" "origin E k i kd" and u: "scoped E A k"
  shows "named kd \<Longrightarrow> py_name E i kd \<in> A"
    and "List.member (KArray # quals) kd \<Longrightarrow> DW_AT_type (e_dw E i) = Some b \<Longrightarrow> scoped E A (key_of E b)"
    and "kd = KPointer \<Longrightarrow> isVoid (e_dw E) (DW_AT_type (e_dw E i)) \<noteq> Inr True \<Longrightarrow> DW_AT_type (e_dw E i) = Some b \<Longrightarrow>
      scoped E A (key_of E b)"
    and "kd = KFunction \<Longrightarrow> DW_AT_type (e_dw E i) = Some b \<Longrightarrow> scoped E A (key_of E b)"
    and "kd = KFunction \<Longrightarrow> p \<in> set (params E i) \<Longrightarrow> \<exists>t. DW_AT_type (e_dw E p) = Some t \<and> scoped E A (key_of E t)"
    and "kd \<noteq> KFunctionDef"
  by (rule scoped_cases [OF o u]; use kinds_apart in auto)+

section \<open>The expressions are evaluable\<close>

definition scoped_ref :: "env \<Rightarrow> string set \<Rightarrow> tref \<Rightarrow> bool" where
  "scoped_ref E A t = (case t of VoidType \<Rightarrow> False | Obj k \<Rightarrow> scoped E A k)"

lemma scoped_ref_Obj [simp]: "scoped_ref E A (Obj k) = scoped E A k"
  by (simp add: scoped_ref_def)

lemma goes_isVoidp_of: "limits E D N rank \<Longrightarrow>
    goes E D N (isVoidp E k) (\<lambda>v. \<exists>f. entry_of E k f \<and> isVoid (e_dw E) (DW_AT_type (e_dw E f)) = Inr v)"
  unfolding isVoidp_def
proof (rule yields_sbind [OF goes_definition_of], assumption, rule yields_lift)
  fix f assume l: "limits E D N rank" and f: "entry_of E k f"
  have "res_in N (isVoid (e_dw E) (DW_AT_type (e_dw E f))) (\<lambda>_. True)" using l by (rule isVoid_in)
  with f show "res_in N (isVoid (e_dw E) (DW_AT_type (e_dw E f)))
      (\<lambda>v. \<exists>f. entry_of E k f \<and> isVoid (e_dw E) (DW_AT_type (e_dw E f)) = Inr v)"
    by (cases "isVoid (e_dw E) (DW_AT_type (e_dw E f))") auto
qed

lemma foldl_evaluable: "evaluable A t \<Longrightarrow> evaluable A (foldl (\<lambda>text d. text @ '' * '' @ show_int d) t ds)"
proof (induction ds arbitrary: t)
  case (Cons d ds)
  then have "evaluable A (t @ '' * '' @ show_int d)" unfolding times_text_def [symmetric] by (intro ev_times)
  then show ?case unfolding foldl.simps by (rule Cons.IH)
qed simp

lemma base_scoped:
  assumes "orderly E" and "origin E k i kd" and "anonymous kd" and "base_ref E k (Some t)"
  shows "\<exists>b. DW_AT_type (e_dw E i) = Some b \<and> t = Obj (key_of E b)"
  using assms(4) orderlyD(3) [OF assms(1-3)] by (auto simp: base_ref_Some)

lemma enough_none [simp]: "enough {} rank j n"
  by (simp add: enough_def)

text \<open>One class after the other, if \<open>call\<close> does right on all types.\<close>

lemma array_evaluable:
  assumes o: "orderly E" and l: "limits E D {} (\<lambda>_. 0)"
    and call: "\<And>t. goes E D {} (call t) (\<lambda>x. scoped_ref E A t \<longrightarrow> evaluable A x)" and k: "origin E k i KArray"
  shows "goes E D {} (ctype_array call E n k ob) (\<lambda>x. scoped E A k \<longrightarrow> evaluable A x)"
  unfolding ctype_array_def
proof (rule yields_sbind [OF goes_theBase [OF l enough_none]], rule yields_sbind [OF call], rule yields_ret, rule impI)
  fix t x assume b: "base_ref E k (Some t)" and x: "scoped_ref E A t \<longrightarrow> evaluable A x" and u: "scoped E A k"
  from base_scoped [OF o k plain_kinds(1) b] scopedD(2) [OF o k u] have "scoped_ref E A t" by auto
  then show "evaluable A (foldl (\<lambda>text d. text @ '' * '' @ show_int d) x (ob_dimensions ob))"
    using x foldl_evaluable by blast
qed

lemma qual_evaluable:
  assumes o: "orderly E" and l: "limits E D {} (\<lambda>_. 0)"
    and call: "\<And>t. goes E D {} (call t) (\<lambda>x. scoped_ref E A t \<longrightarrow> evaluable A x)"
    and k: "origin E k i kd" "List.member quals kd" and q: "q \<in> A" "p = q @ ''( ''"
  shows "goes E D {} (sbind (theBase E n k) (\<lambda>b. sbind (call b) (\<lambda>name. ret (p @ name @ '' )''))))
    (\<lambda>x. scoped E A k \<longrightarrow> evaluable A x)"
proof (rule yields_sbind [OF goes_theBase [OF l enough_none]], rule yields_sbind [OF call], rule yields_ret, rule impI)
  fix t x assume b: "base_ref E k (Some t)" and x: "scoped_ref E A t \<longrightarrow> evaluable A x" and u: "scoped E A k"
  from base_scoped [OF o k(1) plain_kinds(4) [OF k(2)] b] scopedD(2) [OF o k(1) u] k(2)
  have "scoped_ref E A t" by auto
  then have "evaluable A (call_text q x)" using x q(1) by (intro ev_call) blast+
  then show "evaluable A (p @ x @ '' )'')" by (simp add: q(2) call_text_def)
qed

lemma const_evaluable:
  assumes o: "orderly E" and A: "set ctypes_names \<subseteq> A" and l: "limits E D {} (\<lambda>_. 0)"
    and call: "\<And>t. goes E D {} (call t) (\<lambda>x. scoped_ref E A t \<longrightarrow> evaluable A x)" and k: "origin E k i KConst"
  shows "goes E D {} (ctype_const call E n k) (\<lambda>x. scoped E A k \<longrightarrow> evaluable A x)"
  unfolding ctype_const_def
proof (rule yields_sbind [OF goes_baseType [OF l enough_none]], rule yields_sbind)
  have k': "List.member quals KConst" by (simp add: quals_def)
  have m: "List.member ctypes_names ''CONST''" "List.member ctypes_names ''c_void_p''" by code_simp+
  fix b assume b: "base_ref E k b"
  show "goes E D {} (case b of None \<Rightarrow> ret ''c_void_p'' | Some b \<Rightarrow> call b) (\<lambda>x. scoped E A k \<longrightarrow> evaluable A x)"
  proof (rule yields_option)
    show "goes E D {} (ret ''c_void_p'') (\<lambda>x. scoped E A k \<longrightarrow> evaluable A x)"
      using name_evaluable [OF m(2) A] by (intro yields_ret) blast
    fix t assume "b = Some t"
    with b have bt: "base_ref E k (Some t)" by simp
    from base_scoped [OF o k plain_kinds(4) [OF k'] bt] scopedD(2) [OF o k] k'
    have "scoped_ref E A t" if "scoped E A k" using that by auto
    then show "goes E D {} (call t) (\<lambda>x. scoped E A k \<longrightarrow> evaluable A x)"
      by (intro yields_weaken [OF call]) blast
  qed
  fix x assume x: "scoped E A k \<longrightarrow> evaluable A x"
  have "evaluable A (call_text ''CONST'' x)" if "scoped E A k"
    using x that A m(1) by (intro ev_call) auto
  then show "goes E D {} (ret (''CONST( '' @ x @ '' )'')) (\<lambda>x. scoped E A k \<longrightarrow> evaluable A x)"
    by (intro yields_ret) (simp add: call_text_def)
qed

lemma pointer_evaluable:
  assumes o: "orderly E" and A: "set ctypes_names \<subseteq> A" and l: "limits E D {} (\<lambda>_. 0)"
    and call: "\<And>t. goes E D {} (call t) (\<lambda>x. scoped_ref E A t \<longrightarrow> evaluable A x)" and k: "origin E k i KPointer"
  shows "goes E D {} (ctype_pointer call E n k) (\<lambda>x. scoped E A k \<longrightarrow> evaluable A x)"
  unfolding ctype_pointer_def
proof (rule yields_sbind [OF goes_isVoidp_of [OF l]], intro yields_if)
  have m: "List.member ctypes_names ''c_void_p''" "List.member ctypes_names ''c_char_p''" "List.member ctypes_names ''POINTER''"
    by code_simp+
  fix v assume v: "\<exists>f. entry_of E k f \<and> isVoid (e_dw E) (DW_AT_type (e_dw E f)) = Inr v"
  show "goes E D {} (ret ''c_void_p'') (\<lambda>x. scoped E A k \<longrightarrow> evaluable A x)"
    using name_evaluable [OF m(1) A] by (intro yields_ret) blast
  assume "\<not> v"
  with v orderlyD(3) [OF o k plain_kinds(2)] have nv: "isVoid (e_dw E) (DW_AT_type (e_dw E i)) \<noteq> Inr True" by auto
  show "goes E D {} (sbind (definition_of E k) (\<lambda>f. sbind (theBase E n k) (\<lambda>b. sbind (call b) (\<lambda>baseCtype.
       sbind (lift (need AttributeError (DW_AT_type (e_dw E f)))) (\<lambda>baseDie.
       ret (if dtag (e_dw E baseDie) = DW_TAG_subroutine_type then baseCtype
            else if baseCtype = ''c_char'' \<or> baseCtype = ''CONST( c_char )'' then ''c_char_p''
            else ''POINTER( '' @ baseCtype @ '' )'')))))) (\<lambda>x. scoped E A k \<longrightarrow> evaluable A x)"
  proof (rule yields_sbind [OF goes_definition_of [OF l]], rule yields_sbind [OF goes_theBase [OF l enough_none]],
      rule yields_sbind [OF call], rule yields_sbind [OF yields_any [OF lift_need]], rule yields_ret, rule impI)
    fix t x baseDie assume b: "base_ref E k (Some t)" and x: "scoped_ref E A t \<longrightarrow> evaluable A x" and u: "scoped E A k"
    from base_scoped [OF o k plain_kinds(2) b] scopedD(3) [OF o k u _ nv] have "scoped_ref E A t" by auto
    with x have x: "evaluable A x" by blast
    then have "evaluable A (call_text ''POINTER'' x)" using A m(3) by (intro ev_call) auto
    then show "evaluable A (if dtag (e_dw E baseDie) = DW_TAG_subroutine_type then x
            else if x = ''c_char'' \<or> x = ''CONST( c_char )'' then ''c_char_p'' else ''POINTER( '' @ x @ '' )'')"
      using x name_evaluable [OF m(2) A] by (simp add: call_text_def)
  qed
qed

lemma function_evaluable:
  assumes o: "orderly E" and A: "set ctypes_names \<subseteq> A" and l: "limits E D {} (\<lambda>_. 0)"
    and call: "\<And>t. goes E D {} (call t) (\<lambda>x. scoped_ref E A t \<longrightarrow> evaluable A x)"
    and k: "origin E k (ob_die ob) kd" "List.member funcs kd"
  shows "goes E D {} (ctype_function call E n k ob) (\<lambda>x. scoped E A k \<longrightarrow> evaluable A x)"
  unfolding ctype_function_def
proof (rule yields_sbind [OF goes_baseType [OF l enough_none]], rule yields_sbind)
  have m: "List.member ctypes_names ''None''" "List.member ctypes_names ''CFUNCTYPE''" by code_simp+
  have kf: "origin E k (ob_die ob) KFunction" if "scoped E A k"
    using scopedD(6) [OF o k(1) that] k by (auto simp: funcs_def)
  fix b assume b: "base_ref E k b"
  show "goes E D {} (case b of None \<Rightarrow> ret ''None'' | Some b \<Rightarrow> call b) (\<lambda>x. scoped E A k \<longrightarrow> evaluable A x)"
  proof (rule yields_option)
    show "goes E D {} (ret ''None'') (\<lambda>x. scoped E A k \<longrightarrow> evaluable A x)"
      using name_evaluable [OF m(1) A] by (intro yields_ret) blast
    fix t assume "b = Some t"
    with b have bt: "base_ref E k (Some t)" by simp
    have "scoped_ref E A t" if u: "scoped E A k"
      using base_scoped [OF o kf [OF u] plain_kinds(3) bt] scopedD(4) [OF o kf [OF u] u] by auto
    then show "goes E D {} (call t) (\<lambda>x. scoped E A k \<longrightarrow> evaluable A x)"
      by (intro yields_weaken [OF call]) blast
  qed
  fix r assume r: "scoped E A k \<longrightarrow> evaluable A r"
  let ?arg = "\<lambda>t. '', '' @ t @ nl @ ''      ''"
  let ?Q = "\<lambda>acc. \<exists>ts. acc = (''CFUNCTYPE( '' @ r) @ concat (map ?arg ts)
      \<and> (scoped E A k \<longrightarrow> (\<forall>t \<in> set ts. evaluable A t))"
  have start: "?Q (''CFUNCTYPE( '' @ r)" by (rule exI [of _ "[]"]) simp
  have "goes E D {} (foldM (\<lambda>acc child. sbind (dieToType E n (DW_AT_type (e_dw E child)))
        (\<lambda>t. sbind (call t) (\<lambda>text. ret (acc @ ?arg text)))) (''CFUNCTYPE( '' @ r) (params E (ob_die ob))) ?Q"
  proof (rule yields_foldM [where Q = ?Q, OF start], rule yields_sbind [OF goes_dieToType [OF l enough_none]],
      rule yields_sbind [OF call], rule yields_ret)
    fix acc p t x assume acc: "?Q acc" and p: "p \<in> set (params E (ob_die ob))"
      and t: "t = ref_of E (DW_AT_type (e_dw E p))" and x: "scoped_ref E A t \<longrightarrow> evaluable A x"
    from acc obtain ts where ts: "acc = (''CFUNCTYPE( '' @ r) @ concat (map ?arg ts)"
      "scoped E A k \<longrightarrow> (\<forall>t \<in> set ts. evaluable A t)" by blast
    have "scoped_ref E A t" if u: "scoped E A k" using scopedD(5) [OF o kf [OF u] u refl p] t by auto
    with ts x show "?Q (acc @ ?arg x)" by (intro exI [of _ "ts @ [x]"]) simp
  qed
  then show "goes E D {} (sbind (foldM (\<lambda>acc child. sbind (dieToType E n (DW_AT_type (e_dw E child)))
        (\<lambda>t. sbind (call t) (\<lambda>text. ret (acc @ ?arg text)))) (''CFUNCTYPE( '' @ r) (params E (ob_die ob)))
        (\<lambda>text. ret (text @ '')''))) (\<lambda>x. scoped E A k \<longrightarrow> evaluable A x)"
  proof (rule yields_sbind, intro yields_ret impI)
    fix acc assume "?Q acc" and u: "scoped E A k"
    then obtain ts where ts: "acc = (''CFUNCTYPE( '' @ r) @ concat (map ?arg ts)" "\<forall>t \<in> set ts. evaluable A t" by blast
    have "''CFUNCTYPE'' \<in> A" using A m(2) by auto
    from ev_function [OF this _ ts(2)] r u have "evaluable A (function_text r ts)" by blast
    then show "evaluable A (acc @ '')'')" by (simp add: ts(1) function_text_def)
  qed
qed

lemma ctype_evaluable:
  assumes o: "orderly E" and A: "set ctypes_names \<subseteq> A" and l: "limits E D {} (\<lambda>_. 0)"
  shows "goes E D {} (ctype E n t) (\<lambda>x. scoped_ref E A t \<longrightarrow> evaluable A x)"
proof (induction n arbitrary: t)
  case 0
  show ?case by (simp add: yields_def)
next
  case (Suc n)
  have m: "''VOLATILE'' \<in> A" "''RESTRICT'' \<in> A"
  proof -
    have "List.member ctypes_names ''VOLATILE''" "List.member ctypes_names ''RESTRICT''" by code_simp+
    then show "''VOLATILE'' \<in> A" "''RESTRICT'' \<in> A" using A by auto
  qed
  show ?case
  proof (cases t)
    case VoidType
    then show ?thesis by (simp add: scoped_ref_def yields_def)
  next
    case (Obj k)
    show ?thesis
      unfolding Obj ctype.simps scoped_ref_Obj
    proof (rule yields_sbind [OF goes_getobj [OF l]], intro yields_if)
      fix ob assume "obj_ok E k ob"
      then have k: "origin E k (ob_die ob) (ob_kind ob)" by (rule ok_origin)
      let ?Q = "\<lambda>x. scoped E A k \<longrightarrow> evaluable A x"
      show "goes E D {} (ret (prim_ctype (e_psz E) (e_dw E) (ob_die ob))) ?Q" if "ob_kind ob = KPrim"
        using prim_evaluable [OF A, of "e_dw E"] orderlyD(5) [OF o k that] by (intro yields_ret) blast
      show "goes E D {} (ctype_array (ctype E n) E n k ob) ?Q" if "ob_kind ob = KArray"
        by (rule array_evaluable [OF o l Suc.IH]) (use k that in simp)
      show "goes E D {} (ctype_pointer (ctype E n) E n k) ?Q" if "ob_kind ob = KPointer"
        by (rule pointer_evaluable [OF o A l Suc.IH]) (use k that in simp)
      show "goes E D {} (ctype_function (ctype E n) E n k ob) ?Q" if "ob_kind ob = KFunction \<or> ob_kind ob = KFunctionDef"
        using that by (intro function_evaluable [OF o A l Suc.IH k]) (auto simp: funcs_def)
      show "goes E D {} (ctype_const (ctype E n) E n k) ?Q" if "ob_kind ob = KConst"
        by (rule const_evaluable [OF o A l Suc.IH]) (use k that in simp)
      show "goes E D {} (ctype_volatile (ctype E n) E n k) ?Q" if "ob_kind ob = KVolatile"
        unfolding ctype_volatile_def
        by (rule qual_evaluable [OF o l Suc.IH k _ m(1)]) (simp_all add: that quals_def)
      show "goes E D {} (ctype_restrict (ctype E n) E n k) ?Q" if "ob_kind ob = KRestrict"
        unfolding ctype_restrict_def
        by (rule qual_evaluable [OF o l Suc.IH k _ m(2)]) (simp_all add: that quals_def)
      show "goes E D {} (ret (obj_pyName E ob True)) ?Q"
        if "ob_kind ob \<noteq> KPrim" "ob_kind ob \<noteq> KArray" "ob_kind ob \<noteq> KPointer"
          "\<not> (ob_kind ob = KFunction \<or> ob_kind ob = KFunctionDef)" "ob_kind ob \<noteq> KConst" "ob_kind ob \<noteq> KVolatile"
          "ob_kind ob \<noteq> KRestrict"
      proof -
        have "named (ob_kind ob)" using that by (auto simp: named_def quals_def funcs_def)
        moreover have "obj_pyName E ob True = py_name E (ob_die ob) (ob_kind ob)"
          unfolding py_name_def by (rule obj_pyName_cong) (simp_all add: new_obj_def)
        ultimately show ?thesis using scopedD(1) [OF o k] by (intro yields_ret impI ev_name) simp
      qed
    qed
  qed
qed

section \<open>Types that are defined wherever they are used\<close>

text \<open>No definition of the type is \<open>void\<close>.\<close>

definition not_void :: "env \<Rightarrow> key \<Rightarrow> bool" where
  "not_void E k \<longleftrightarrow> (\<forall>f. entry_of E k f \<longrightarrow> isVoid (e_dw E) (Some f) = Inr False)"

lemma qualifier_kinds:
  assumes "typeFromTag t = Some kd" and "List.member qualifiers t"
  shows "kd = KTypedef \<or> List.member quals kd"
proof -
  have "list_all (\<lambda>t. case typeFromTag t of None \<Rightarrow> False | Some kd \<Rightarrow> List.member (KTypedef # quals) kd) qualifiers"
    by code_simp
  with assms show ?thesis by (auto simp: list_all_iff split: option.splits)
qed

lemma qual_tags:
  assumes "typeFromTag t = Some kd" and "List.member quals kd"
  shows "List.member qualifiers t"
proof -
  have "(t, kd) \<in> set [
     (DW_TAG_typedef, KTypedef), (DW_TAG_pointer_type, KPointer), (DW_TAG_reference_type, KPointer),
     (DW_TAG_rvalue_reference_type, KPointer), (DW_TAG_subroutine_type, KFunction), (DW_TAG_structure_type, KStruct),
     (DW_TAG_class_type, KStruct), (DW_TAG_union_type, KUnion), (DW_TAG_base_type, KPrim), (DW_TAG_array_type, KArray),
     (DW_TAG_const_type, KConst), (DW_TAG_enumeration_type, KEnum), (DW_TAG_volatile_type, KVolatile),
     (DW_TAG_subprogram, KFunctionDef), (DW_TAG_restrict_type, KRestrict), (DW_TAG_unspecified_type, KPointer),
     (DW_TAG_ptr_to_member_type, KPointer)]"
    using assms(1) unfolding typeFromTag_def by (rule map_of_SomeD)
  with assms(2) show ?thesis by (auto simp: quals_def qualifiers_def)
qed

text \<open>The entries of a type that is not of an imported module have a tag of its class.\<close>

lemma origin_tag: "origin E k i kd \<Longrightarrow> \<not> is_external kd \<Longrightarrow> typeFromTag (dtag (e_dw E i)) = Some kd"
  by (auto simp: origin_def is_external_def known_entry_def bnd_eq_Inr need_eq_Inr)

lemma def_die_tag: "orderly E \<Longrightarrow> dtag (e_dw E (def_die E i)) = dtag (e_dw E i)"
  using orderly_refs(1) by (auto simp: def_die_def split: option.split)

lemma entry_tag:
  assumes o: "orderly E" "origin E k i kd" and e: "entry_of E k f" and x: "\<not> is_external kd"
  shows "typeFromTag (dtag (e_dw E f)) = Some kd"
proof -
  obtain j kj where j: "origin E k j kj" "f = def_die E j" using e by (auto simp: entry_of_def)
  with orderlyD(1) [OF o j(1)] have "origin E k j kd" by simp
  from origin_tag [OF this x] j(2) def_die_tag [OF o(1)] show ?thesis by simp
qed

lemma not_void_kind:
  assumes o: "orderly E" "origin E k i kd" and "\<not> is_external kd" and "kd \<noteq> KTypedef" and "\<not> List.member quals kd"
  shows "not_void E k"
  unfolding not_void_def
proof (intro allI impI)
  fix f assume "entry_of E k f"
  from entry_tag [OF o this assms(3)] have "\<not> is_qualified (e_dw E) (Some f)"
    using qualifier_kinds assms(4,5) by (auto simp: is_qualified_def)
  then show "isVoid (e_dw E) (Some f) = Inr False" by (simp add: isVoid_def deref_plain)
qed

lemma origin_entry: "origin E k i kd \<Longrightarrow> \<exists>f. entry_of E k f"
  by (auto simp: entry_of_def)

text \<open>Defining such a type makes it scoped: it is complete wherever a value of it is needed.\<close>

inductive value_ok :: "env \<Rightarrow> key \<Rightarrow> bool" for E where
  vo_plain: "origin E k i kd \<Longrightarrow> \<not> is_member_kind kd \<Longrightarrow> \<not> List.member (KArray # KFunctionDef # quals) kd \<Longrightarrow>
    not_void E k \<Longrightarrow> value_ok E k"
| vo_members: "origin E k i kd \<Longrightarrow> is_member_kind kd \<Longrightarrow> (\<forall>f. entry_of E k f \<longrightarrow> \<not> DW_AT_declaration (e_dw E f)) \<Longrightarrow>
    value_ok E k"
| vo_base: "origin E k i kd \<Longrightarrow> List.member (KArray # quals) kd \<Longrightarrow> DW_AT_type (e_dw E i) = Some b \<Longrightarrow>
    value_ok E (key_of E b) \<Longrightarrow> value_ok E k"

lemma quals_not: "List.member quals kd \<Longrightarrow> \<not> is_external kd \<and> kd \<noteq> KTypedef \<and> \<not> is_member_kind kd \<and> kd \<noteq> KArray"
  by (auto simp: quals_def is_external_def is_member_kind_def)

lemma base_void:
  assumes o: "orderly E" "origin E k i kd" and "List.member quals kd" and "DW_AT_type (e_dw E i) = Some b"
  shows "not_void E k \<longleftrightarrow> isVoid (e_dw E) (Some b) = Inr False"
proof -
  have f: "entry_of E k f \<Longrightarrow> f = i" for f using orderlyD(3) [OF o] plain_kinds(4) [OF assms(3)] by blast
  obtain g where "entry_of E k g" using origin_entry [OF o(2)] by blast
  with f have e: "entry_of E k i" by blast
  have "is_qualified (e_dw E) (Some i)"
    using qual_tags [OF origin_tag [OF o(2)] assms(3)] quals_not [OF assms(3)] by (simp add: is_qualified_def)
  from isVoid_step [OF this] assms(4) have "isVoid (e_dw E) (Some i) = isVoid (e_dw E) (Some b)"
    by (simp add: next_type_def)
  with f e show ?thesis unfolding not_void_def by metis
qed

lemma value_not_void:
  assumes o: "orderly E"
  shows "value_ok E k \<Longrightarrow> not_void E k"
proof (induction rule: value_ok.induct)
  case (vo_members k i kd)
  then show ?case
    by (intro not_void_kind [OF o vo_members(1)]) (auto simp: is_member_kind_def is_external_def quals_def)
next
  case (vo_base k i kd b)
  show ?case
  proof (cases "kd = KArray")
    case True
    then show ?thesis using vo_base(1) by (intro not_void_kind [OF o]) (auto simp: is_external_def quals_def)
  next
    case False
    with vo_base have q: "List.member quals kd" by simp
    from vo_base(4) obtain j kj where "origin E (key_of E b) j kj" by (cases rule: value_ok.cases) auto
    then obtain f where f: "entry_of E (key_of E b) f" using origin_entry by blast
    with vo_base(5) orderly_refs(3) [OF o f] have "isVoid (e_dw E) (Some b) = Inr False" by (simp add: not_void_def)
    then show ?thesis using base_void [OF o vo_base(1) q vo_base(3)] by blast
  qed
qed

lemma base_not_void_key:
  assumes o: "orderly E" "origin E k i kd" and "List.member quals kd" and "DW_AT_type (e_dw E i) = Some b" and "not_void E k"
  shows "not_void E (key_of E b)"
  using base_void [OF assms(1-4)] assms(5) orderly_refs(3) [OF o(1)] by (simp add: not_void_def)

text \<open>The debug data of a whole program: arrays and functions are of complete types, the base types of
  enumerations and the types of imported modules have names that are in \<open>K\<close>.\<close>

definition whole :: "env \<Rightarrow> string set \<Rightarrow> bool" where
  "whole E K \<longleftrightarrow> orderly E \<and> (e_psz E = 4 \<or> e_psz E = 8) \<and> set ctypes_names \<subseteq> K
     \<and> (\<forall>k i m. origin E k i (KExternal m) \<longrightarrow> py_name E i (KExternal m) \<in> K)
     \<and> (\<forall>k i b. origin E k i KArray \<longrightarrow> DW_AT_type (e_dw E i) = Some b \<longrightarrow> value_ok E (key_of E b))
     \<and> (\<forall>k i b. origin E k i KFunction \<longrightarrow> DW_AT_type (e_dw E i) = Some b \<longrightarrow> value_ok E (key_of E b))
     \<and> (\<forall>k i p. origin E k i KFunction \<longrightarrow> p \<in> set (params E i) \<longrightarrow>
          (\<exists>t. DW_AT_type (e_dw E p) = Some t \<and> value_ok E (key_of E t)))
     \<and> (\<forall>k i f b. origin E k i KEnum \<longrightarrow> entry_of E k f \<longrightarrow> DW_AT_type (e_dw E f) = Some b \<longrightarrow>
          value_ok E (key_of E b) \<and> (\<forall>j kj. origin E (key_of E b) j kj \<longrightarrow> named kj \<or> py_name E j kj \<in> K))"

lemma wholeD:
  assumes "whole E K"
  shows "orderly E" and "set ctypes_names \<subseteq> K" and "origin E k i (KExternal m) \<Longrightarrow> py_name E i (KExternal m) \<in> K"
    and "origin E k i KArray \<Longrightarrow> DW_AT_type (e_dw E i) = Some b \<Longrightarrow> value_ok E (key_of E b)"
    and "origin E k i KFunction \<Longrightarrow> DW_AT_type (e_dw E i) = Some b \<Longrightarrow> value_ok E (key_of E b)"
    and "origin E k i KFunction \<Longrightarrow> p \<in> set (params E i) \<Longrightarrow> \<exists>t. DW_AT_type (e_dw E p) = Some t \<and> value_ok E (key_of E t)"
    and "origin E k i KEnum \<Longrightarrow> entry_of E k f \<Longrightarrow> DW_AT_type (e_dw E f) = Some b \<Longrightarrow> value_ok E (key_of E b)"
    and "origin E k i KEnum \<Longrightarrow> entry_of E k f \<Longrightarrow> DW_AT_type (e_dw E f) = Some b \<Longrightarrow> origin E (key_of E b) j kj \<Longrightarrow>
      named kj \<or> py_name E j kj \<in> K"
    and "e_psz E = 4 \<or> e_psz E = 8"
  using assms unfolding whole_def by blast+

end
