(* ===== verification/BoundNames.thy ===== *)
theory BoundNames
  imports Evaluable Total Loading
begin

text \<open>
  The generated module only uses names that are bound before they are used.  A state is \<open>good\<close> if
  that is so for what has been written, and what is declared or defined is scoped with the names
  bound so far; \<open>steps\<close> is the judgement for computations that keep states good and \<open>still\<close> for those
  that bind no further name.  Here are its rules, those of the elementary operations and those for
  looking at types.
\<close>

section \<open>Names of statements\<close>

definition binds :: "stmt \<Rightarrow> string list" where
  "binds x = (case x of SClass py _ _ _ \<Rightarrow> [py] | STypedef name _ _ \<Rightarrow> [name]
     | SEnum py _ nameless ls \<Rightarrow> py # (if nameless then value_names ls else []) | _ \<Rightarrow> [])"

definition uses_only :: "string set \<Rightarrow> stmt \<Rightarrow> bool" where
  "uses_only A x = (case x of
     SBlank \<Rightarrow> True
   | SClass _ base mixins _ \<Rightarrow> base \<in> A \<and> set mixins \<subseteq> A
   | STypedef _ expr _ \<Rightarrow> evaluable A expr
   | SEnum _ base _ _ \<Rightarrow> base \<in> A
   | SFieldsPre py rs \<Rightarrow> py \<in> A \<and> (\<forall>r \<in> set rs. evaluable A (row_type r))
   | SNativeSize py _ \<Rightarrow> py \<in> A | SHaveDefinition py \<Rightarrow> py \<in> A | SAllowAll py \<Rightarrow> py \<in> A
   | SAllowNames py _ \<Rightarrow> py \<in> A | SPack py _ \<Rightarrow> py \<in> A | SAnonymous py _ \<Rightarrow> py \<in> A
   | SFields py \<Rightarrow> py \<in> A | SOffsets py _ \<Rightarrow> py \<in> A | SBrokenUnion py \<Rightarrow> py \<in> A)"

fun bound_before :: "string set \<Rightarrow> (key \<times> stmt) list \<Rightarrow> bool" where
  "bound_before A [] = True"
| "bound_before A ((k, x) # xs) = (uses_only A x \<and> bound_before (A \<union> set (binds x)) xs)"

definition avail :: "string set \<Rightarrow> (key \<times> stmt) list \<Rightarrow> string set" where
  "avail A xs = A \<union> (\<Union>(k, x) \<in> set xs. set (binds x))"

lemma avail_simps [simp]: "avail A [] = A" "avail A ((k, x) # xs) = avail (A \<union> set (binds x)) xs"
  "avail A (xs @ [(k, x)]) = avail A xs \<union> set (binds x)"
  by (auto simp: avail_def)

lemma bound_before_snoc: "bound_before A (xs @ [(k, x)]) \<longleftrightarrow> bound_before A xs \<and> uses_only (avail A xs) x"
  by (induction xs arbitrary: A) auto

section \<open>Good states\<close>

text \<open>The user's descriptions name base classes, mixins and types that the header provides.\<close>

inductive spec_ok :: "string set \<Rightarrow> pytype \<Rightarrow> bool" for K where
  spec_okI: "(\<forall>b. py_base spec = Some b \<longrightarrow> b \<in> K) \<Longrightarrow> (\<forall>ms. py_mixins spec = Some ms \<longrightarrow> set ms \<subseteq> K) \<Longrightarrow>
   (\<forall>nm h. map_of (fieldHints spec) nm = Some h \<longrightarrow> (\<forall>c. truthy (typeOverride h) = Some c \<longrightarrow> evaluable K c)
     \<and> (\<forall>t. hint_typename h = Some t \<longrightarrow> spec_ok K t)) \<Longrightarrow> spec_ok K spec"

definition specs_ok :: "string set \<Rightarrow> todo" where
  "specs_ok K ks hs = (\<forall>p \<in> set hs. spec_ok K (snd p))"

definition own_names :: "string set \<Rightarrow> tobj \<Rightarrow> bool" where
  "own_names K ob \<longleftrightarrow> (is_member_kind (ob_kind ob) \<longrightarrow> ob_base ob \<in> K) \<and> set (ob_mixins ob) \<subseteq> K
     \<and> (\<forall>m \<in> set (ob_members ob). \<forall>c. ctypeOverride m = Some c \<longrightarrow> evaluable K c)"

definition obj_fine :: "env \<Rightarrow> string set \<Rightarrow> string set \<Rightarrow> key \<Rightarrow> tobj \<Rightarrow> bool" where
  "obj_fine E K A k ob \<longleftrightarrow> own_names K ob
     \<and> (ob_declared ob \<or> ob_defined ob \<longrightarrow> ob_kind ob \<noteq> KFunctionDef \<longrightarrow> scoped E A k)"

definition good :: "env \<Rightarrow> string set \<Rightarrow> string set \<Rightarrow> rstate \<Rightarrow> bool" where
  "good E K A s \<longleftrightarrow> objs_ok E (specs_ok K) s \<and> bound_before K (out s) \<and> avail K (out s) = A
     \<and> (\<forall>k ob. heap s k = Some ob \<longrightarrow> obj_fine E K A k ob)"

text \<open>A computation that starts with the names \<open>A\<close> and, if it returns \<open>x\<close>, ends with names \<open>B\<close> such
  that \<open>Q x B\<close>.\<close>

definition steps :: "env \<Rightarrow> string set \<Rightarrow> string set \<Rightarrow> 'a rcomp \<Rightarrow> ('a \<Rightarrow> string set \<Rightarrow> bool) \<Rightarrow> bool" where
  "steps E K A m Q \<longleftrightarrow> (\<forall>s x s'. good E K A s \<longrightarrow> m s = Inr (x, s') \<longrightarrow> (\<exists>B. A \<subseteq> B \<and> good E K B s' \<and> Q x B))"

lemma stepsI: "(\<And>s x s'. good E K A s \<Longrightarrow> m s = Inr (x, s') \<Longrightarrow> \<exists>B. A \<subseteq> B \<and> good E K B s' \<and> Q x B) \<Longrightarrow> steps E K A m Q"
  by (simp add: steps_def)

lemma stepsD: "steps E K A m Q \<Longrightarrow> good E K A s \<Longrightarrow> m s = Inr (x, s') \<Longrightarrow> \<exists>B. A \<subseteq> B \<and> good E K B s' \<and> Q x B"
  unfolding steps_def by blast

lemma good_names: "good E K A s \<Longrightarrow> K \<subseteq> A"
  by (auto simp: good_def avail_def)

lemma obj_fine_mono: "obj_fine E K A k ob \<Longrightarrow> A \<subseteq> B \<Longrightarrow> obj_fine E K B k ob"
  unfolding obj_fine_def using scoped_mono by blast

section \<open>Rules\<close>

lemma steps_bind: "steps E K A m Q \<Longrightarrow> (\<And>x B. A \<subseteq> B \<Longrightarrow> Q x B \<Longrightarrow> steps E K B (f x) P) \<Longrightarrow> steps E K A (sbind m f) P"
proof (rule stepsI)
  fix s y s' assume m: "steps E K A m Q" and f: "\<And>x B. A \<subseteq> B \<Longrightarrow> Q x B \<Longrightarrow> steps E K B (f x) P"
    and s: "good E K A s" and r: "sbind m f s = Inr (y, s')"
  from r obtain x s1 where 1: "m s = Inr (x, s1)" "f x s1 = Inr (y, s')" by (auto simp: sbind_eq_Inr)
  from stepsD [OF m s 1(1)] obtain B where B: "A \<subseteq> B" "good E K B s1" "Q x B" by blast
  from stepsD [OF f [OF B(1,3)] B(2) 1(2)] obtain C where "B \<subseteq> C" "good E K C s'" "P y C" by blast
  with B(1) show "\<exists>B. A \<subseteq> B \<and> good E K B s' \<and> P y B" by blast
qed

lemma steps_then: "steps E K A m Q \<Longrightarrow> (\<And>x B. A \<subseteq> B \<Longrightarrow> Q x B \<Longrightarrow> steps E K B k P) \<Longrightarrow> steps E K A (andthen m k) P"
  unfolding andthen_def by (rule steps_bind)

text \<open>Computations that write nothing.\<close>

abbreviation (input) still :: "env \<Rightarrow> string set \<Rightarrow> string set \<Rightarrow> 'a rcomp \<Rightarrow> ('a \<Rightarrow> bool) \<Rightarrow> bool" where
  "still E K A m Q \<equiv> steps E K A m (\<lambda>x B. B = A \<and> Q x)"

lemma still_bind: "still E K A m Q \<Longrightarrow> (\<And>x. Q x \<Longrightarrow> steps E K A (f x) P) \<Longrightarrow> steps E K A (sbind m f) P"
  by (erule steps_bind) auto

lemma still_then: "still E K A m Q \<Longrightarrow> steps E K A k P \<Longrightarrow> steps E K A (andthen m k) P"
  by (erule steps_then) auto

lemma still_prod: "still E K A m (\<lambda>(x, y). Q x y) \<Longrightarrow> (\<And>x y. Q x y \<Longrightarrow> steps E K A (f x y) P) \<Longrightarrow>
    steps E K A (sbind m (\<lambda>(x, y). f x y)) P"
  by (erule still_bind) auto

lemma steps_weaken: "steps E K A m Q \<Longrightarrow> (\<And>x B. A \<subseteq> B \<Longrightarrow> Q x B \<Longrightarrow> P x B) \<Longrightarrow> steps E K A m P"
  by (rule stepsI) (drule (2) stepsD, blast)

lemma steps_ret: "Q x A \<Longrightarrow> steps E K A (ret x) Q"
  by (rule stepsI) (auto intro: exI [of _ A])

lemma steps_raise: "steps E K A (raise e) Q"
  by (simp add: steps_def)

lemma steps_if: "(b \<Longrightarrow> steps E K A m Q) \<Longrightarrow> (\<not> b \<Longrightarrow> steps E K A k Q) \<Longrightarrow> steps E K A (if b then m else k) Q"
  by simp

lemma steps_lift: "(\<And>x. r = Inr x \<Longrightarrow> Q x A) \<Longrightarrow> steps E K A (lift r) Q"
  by (rule stepsI) (auto simp: lift_eq_Inr)

lemma steps_option: "(y = None \<Longrightarrow> steps E K A m Q) \<Longrightarrow> (\<And>x. y = Some x \<Longrightarrow> steps E K A (f x) Q) \<Longrightarrow>
    steps E K A (case y of None \<Rightarrow> m | Some x \<Rightarrow> f x) Q"
  by (simp split: option.split)

lemma steps_names: "(K \<subseteq> A \<Longrightarrow> steps E K A m Q) \<Longrightarrow> steps E K A m Q"
  by (rule stepsI) (metis good_names stepsD)

lemma steps_forM:
  assumes "\<And>x B. x \<in> set xs \<Longrightarrow> A \<subseteq> B \<Longrightarrow> steps E K B (f x) (\<lambda>_. Q x)"
    and "\<And>x B C. Q x B \<Longrightarrow> B \<subseteq> C \<Longrightarrow> Q x C"
  shows "steps E K A (forM xs f) (\<lambda>_ B. \<forall>x \<in> set xs. Q x B)"
  using assms(1)
proof (induction xs arbitrary: A)
  case Nil
  show ?case unfolding forM.simps by (rule steps_ret) simp
next
  case (Cons x xs)
  show ?case
    unfolding forM.simps
  proof (rule steps_bind)
    show "steps E K A (f x) (\<lambda>_. Q x)" using Cons.prems by simp
    fix B assume B: "A \<subseteq> B" "Q x B"
    have "steps E K B (forM xs f) (\<lambda>_ C. \<forall>x \<in> set xs. Q x C)" by (rule Cons.IH) (use Cons.prems B in auto)
    then show "steps E K B (forM xs f) (\<lambda>_ C. \<forall>y \<in> set (x # xs). Q y C)"
      by (rule steps_weaken) (use B assms(2) in auto)
  qed
qed

lemma steps_each: "(\<And>x B. x \<in> set xs \<Longrightarrow> A \<subseteq> B \<Longrightarrow> steps E K B (f x) (\<lambda>_ _. True)) \<Longrightarrow> steps E K A (forM xs f) (\<lambda>_ _. True)"
  by (rule steps_weaken, rule steps_forM [where Q = "\<lambda>_ _. True"]) simp_all

lemma still_forM: "(\<And>x. x \<in> set xs \<Longrightarrow> still E K A (f x) (\<lambda>_. True)) \<Longrightarrow> still E K A (forM xs f) (\<lambda>_. True)"
proof (induction xs)
  case Nil
  show ?case unfolding forM.simps by (rule steps_ret) simp
next
  case (Cons x xs)
  then show ?case unfolding forM.simps by (intro still_bind [of E K A "f x" "\<lambda>_. True"]) simp_all
qed

lemma still_foldM:
  "P acc \<Longrightarrow> (\<And>acc x. P acc \<Longrightarrow> x \<in> set xs \<Longrightarrow> still E K A (f acc x) P) \<Longrightarrow> still E K A (foldM f acc xs) P"
proof (induction xs arbitrary: acc)
  case Nil
  then show ?case unfolding foldM.simps by (intro steps_ret) simp
next
  case (Cons x xs)
  have "still E K A (f acc x) P" by (rule Cons.prems(2) [OF Cons.prems(1)]) simp
  then show ?case
    unfolding foldM.simps
  proof (rule still_bind)
    fix y assume "P y"
    then show "still E K A (foldM f y xs) P" by (rule Cons.IH) (use Cons.prems(2) in simp)
  qed
qed

section \<open>Elementary operations\<close>

lemma limits_specs: "whole E K \<Longrightarrow> limits E (specs_ok K) {} (\<lambda>_. 0)"
  using wholeD(9) by (auto simp: limits_def specs_ok_def)

lemma fresh_names: "set ctypes_names \<subseteq> K \<Longrightarrow> fresh_obj ob \<Longrightarrow> own_names K ob"
proof -
  have "List.member ctypes_names ''Structure''" "List.member ctypes_names ''Union''" by code_simp+
  then show "set ctypes_names \<subseteq> K \<Longrightarrow> fresh_obj ob \<Longrightarrow> own_names K ob"
    by (auto simp: fresh_obj_def own_names_def)
qed

lemma still_quiet:
  assumes w: "whole E K" and q: "keeps quiet m" and g: "goes E (specs_ok K) {} m Q"
  shows "still E K A m Q"
proof (rule stepsI)
  fix s x s' assume s: "good E K A s" and r: "m s = Inr (x, s')"
  have qs: "quiet s s'" using keepsD [OF q r] .
  have "objs_ok E (specs_ok K) s" using s by (simp add: good_def)
  from yields_Inr [OF g this r] have x: "objs_ok E (specs_ok K) s'" "Q x" by blast+
  have "obj_fine E K A k ob" if "heap s' k = Some ob" for k ob
  proof (cases "heap s k")
    case None
    from quietD(4) [OF qs None that] fresh_names [OF wholeD(2) [OF w]] show ?thesis
      by (simp add: obj_fine_def fresh_obj_def)
  next
    case (Some ob0)
    with s have "obj_fine E K A k ob0" by (simp add: good_def)
    moreover from quietD(3) [OF qs Some] that have "but_defdie ob0 ob" by auto
    ultimately show ?thesis by (auto simp: but_defdie_def obj_fine_def own_names_def)
  qed
  with x s quietD(1) [OF qs] have "good E K A s'" by (simp add: good_def)
  with x(2) show "\<exists>B. A \<subseteq> B \<and> good E K B s' \<and> B = A \<and> Q x" by blast
qed

lemma still_getobj: "still E K A (getobj k) (\<lambda>ob. obj_ok E k ob \<and> obj_fine E K A k ob)"
  by (rule stepsI) (auto simp: good_def getobj_Inr dest: objs_okD)

lemma still_updobj:
  assumes "\<And>ob. obj_ok E k ob \<Longrightarrow> obj_fine E K A k ob \<Longrightarrow> obj_ok E k (f ob) \<and> obj_fine E K A k (f ob)"
  shows "still E K A (updobj k f) (\<lambda>_. True)"
proof (rule stepsI)
  fix s x s' assume s: "good E K A s" and "updobj k f s = Inr (x, s')"
  then obtain ob where ob: "heap s k = Some ob" "s' = s\<lparr>heap := (heap s)(k \<mapsto> f ob)\<rparr>" by (auto simp: updobj_Inr)
  from s ob(1) have "obj_ok E k ob" "obj_fine E K A k ob" by (auto simp: good_def dest: objs_okD)
  from assms [OF this] ob(2) s have "good E K A s'" by (auto simp: good_def objs_ok_def)
  then show "\<exists>B. A \<subseteq> B \<and> good E K B s' \<and> B = A \<and> True" by blast
qed

lemma still_modify:
  assumes "\<And>s. heap (f s) = heap s \<and> out (f s) = out s" and "\<And>s. specs_ok K [] (applyHints s) \<Longrightarrow> specs_ok K [] (applyHints (f s))"
  shows "still E K A (modify f) (\<lambda>_. True)"
proof (rule stepsI)
  fix s x s' assume s: "good E K A s" and "modify f s = Inr (x, s')"
  then have "s' = f s" by (simp add: modify_def)
  with s assms(1) [of s] assms(2) [of s] have "good E K A s'" by (simp add: good_def objs_ok_def specs_ok_def)
  then show "\<exists>B. A \<subseteq> B \<and> good E K B s' \<and> B = A \<and> True" by blast
qed

lemma still_gets: "(\<And>s. good E K A s \<Longrightarrow> Q (f s)) \<Longrightarrow> still E K A (gets f) Q"
  by (rule stepsI) auto

lemma still_add: "still E K A (add_defined nm) (\<lambda>_. True)" "still E K A (add_defineTypes k) (\<lambda>_. True)"
  unfolding add_defined_def add_defineTypes_def by (rule still_modify; simp)+

lemma still_error: "still E K A (errorfunc t) (\<lambda>_. True)"
  unfolding errorfunc_def by (rule still_modify; simp)

lemma steps_write: "uses_only A x \<Longrightarrow> steps E K A (write_stmt k x) (\<lambda>_ B. B = A \<union> set (binds x))"
proof (rule stepsI)
  fix s u s' assume x: "uses_only A x" and s: "good E K A s" and "write_stmt k x s = Inr (u, s')"
  then have s': "s' = s\<lparr>out := out s @ [(k, x)]\<rparr>" by (simp add: write_stmt_def modify_def)
  have "obj_fine E K (A \<union> set (binds x)) k ob" if "heap s k = Some ob" for k ob
    by (rule obj_fine_mono [of E K A]) (use s that in \<open>auto simp: good_def\<close>)
  with s s' x have "good E K (A \<union> set (binds x)) s'"
    by (simp add: good_def bound_before_snoc objs_ok_def)
  then show "\<exists>B. A \<subseteq> B \<and> good E K B s' \<and> B = A \<union> set (binds x)" by blast
qed

text \<open>A statement that binds no name.\<close>

lemma still_write: "uses_only A x \<Longrightarrow> binds x = [] \<Longrightarrow> still E K A (write_stmt k x) (\<lambda>_. True)"
  by (rule steps_weaken [OF steps_write]) auto

section \<open>Looking at types\<close>

lemma still_find:
  assumes w: "whole E K"
  shows "still E K A (dieToType E n d) (\<lambda>t. t = ref_of E d)"
    and "still E K A (definition_of E k) (entry_of E k)"
    and "still E K A (baseType E n k) (base_ref E k)"
    and "still E K A (theBase E n k) (\<lambda>t. base_ref E k (Some t))"
    and "still E K A (isVoidp E k) (\<lambda>v. \<exists>f. entry_of E k f \<and> isVoid (e_dw E) (DW_AT_type (e_dw E f)) = Inr v)"
    and "still E K A (isEmptyBase E n m) (\<lambda>_. True)"
    and "still E K A (alignment E n t) (\<lambda>_. True)"
    and "still E K A (type_name E t b) (\<lambda>_. True)"
proof -
  note l = limits_specs [OF w]
  note q = still_quiet [OF w]
  show "still E K A (dieToType E n d) (\<lambda>t. t = ref_of E d)"
    by (rule q [OF quiet.keeps_find(1) goes_dieToType [OF l enough_none]])
  show "still E K A (definition_of E k) (entry_of E k)"
    by (rule q [OF quiet.keeps_definition_of goes_definition_of [OF l]])
  show "still E K A (baseType E n k) (base_ref E k)"
    by (rule q [OF quiet.keeps_baseType goes_baseType [OF l enough_none]])
  show "still E K A (theBase E n k) (\<lambda>t. base_ref E k (Some t))"
    by (rule q [OF quiet.keeps_theBase goes_theBase [OF l enough_none]])
  show "still E K A (isVoidp E k) (\<lambda>v. \<exists>f. entry_of E k f \<and> isVoid (e_dw E) (DW_AT_type (e_dw E f)) = Inr v)"
    by (rule q [OF quiet.keeps_isVoidp goes_isVoidp_of [OF l]])
  show "still E K A (isEmptyBase E n m) (\<lambda>_. True)"
    by (rule q [OF quiet.keeps_isEmptyBase yields_any [OF goes_isEmptyBase [OF l enough_none]]])
  have "enough_ref {} (\<lambda>_. 0) Aligning t n" by (cases t) simp_all
  then show "still E K A (alignment E n t) (\<lambda>_. True)"
    by (intro q [OF quiet.keeps_alignment] yields_any [OF goes_alignment [OF l]])
  show "still E K A (type_name E t b) (\<lambda>_. True)"
    by (rule q [OF quiet.keeps_type_name(1) yields_any [OF goes_type_name(1) [OF l]]])
qed

lemma still_ctype:
  assumes w: "whole E K"
  shows "still E K A (ctype E n t) (\<lambda>x. scoped_ref E A t \<longrightarrow> evaluable A x)"
proof (rule steps_names)
  assume "K \<subseteq> A"
  then have A: "set ctypes_names \<subseteq> A" using wholeD(2) [OF w] by blast
  show "still E K A (ctype E n t) (\<lambda>x. scoped_ref E A t \<longrightarrow> evaluable A x)"
    by (rule still_quiet [OF w quiet.keeps_ctype ctype_evaluable [OF wholeD(1) [OF w] A limits_specs [OF w]]])
qed

end
