(* ===== verification/BoundStructs.thy ===== *)
theory BoundStructs
  imports BoundNames
begin

text \<open>
  The rows of a structure, and what \<open>writeFields\<close> writes of it, only use names that are bound when
  the types of its members are scoped.
\<close>

section \<open>Rows\<close>

abbreviation (input) rows_ok :: "string set \<Rightarrow> row list \<Rightarrow> bool" where
  "rows_ok A rs \<equiv> \<forall>r \<in> set rs. evaluable A (row_type r)"

lemma bit_rows:
  assumes "bit_field py typstr off bits sz (ebo, ee, pads, rs) = Inr (ebo', ee', pads', rs')"
    and "evaluable A typstr" and "rows_ok A rs"
  shows "rows_ok A rs'"
proof -
  obtain b where b: "bit_loop py typstr off bits sz (ebo, ee, pads, rs) = Inr b"
    using assms(1) by (auto simp: bit_field_def bnd_eq_Inr)
  have "rows_ok A (snd (snd (snd b)))"
  proof (rule run_while_inv [OF b [unfolded bit_loop_def], where P = "\<lambda>b. rows_ok A (snd (snd (snd b)))"])
    fix s :: bitstate assume "rows_ok A (snd (snd (snd s)))"
    then show "rows_ok A (snd (snd (snd (bit_turn py typstr bits sz s))))"
      using assms(2) by (cases s) (auto simp: Let_def)
  qed (use assms(3) in simp)
  with assms b show ?thesis by (cases b) (auto simp: bit_field_def Let_def split: if_splits)
qed

lemma place_rows:
  assumes r: "place_field n psz dw ow m typstr st = Inr (m', st')" and t: "evaluable A typstr" and st: "rows_ok A (rows st)"
  shows "rows_ok A (rows st') \<and> ctypeOverride m' = ctypeOverride m \<and> m_die m' = m_die m"
proof -
  obtain off where off: "die_bit_offset n psz dw (m_die m) = Inr off"
    using r by (auto simp: place_field_def Let_def bnd_eq_Inr)
  show ?thesis
  proof (cases "off \<noteq> None \<and> ctypeOverride m = None")
    case True
    then obtain z where z: "off = Some z" "ctypeOverride m = None" by blast
    with r off obtain bits sz ebo ee pads rs where
      b: "bit_field (str_of (member_pyName dw m)) typstr z bits sz (expected_bit_offset st, expected_end st, pre_pads m, rows st)
        = Inr (ebo, ee, pads, rs)"
      and m': "m' = m\<lparr>pre_pads := pads\<rparr>" "rows st' = rs"
      by (auto simp: place_field_def Let_def bnd_eq_Inr)
    from bit_rows [OF b t st] m' show ?thesis by simp
  next
    case False
    with r off have "m' = m" "\<exists>nm. rows st' = rows st @ [Row nm typstr None]"
      by (auto simp: place_field_def Let_def bnd_eq_Inr split: option.splits if_splits)
    with t st show ?thesis by auto
  qed
qed

lemma field_rows:
  assumes A: "set ctypes_names \<subseteq> A" and r: "field_step n psz dw ow m ti nxt st = Inr (m', st', ws)"
    and t: "t_defined ti \<Longrightarrow> evaluable A (case ctypeOverride m of Some c \<Rightarrow> c | None \<Rightarrow> t_ctype ti)"
    and st: "rows_ok A (rows st)"
  shows "rows_ok A (rows st')" and "ctypeOverride m' = ctypeOverride m" and "m_die m' = m_die m"
proof -
  obtain a typstr st1 st2 where 1: "field_type dw ow m ti nxt = Inr (a, typstr, ws)" "raise_alignment a st = Inr st1"
    "place_field n psz dw ow m typstr st1 = Inr (m', st2)" "st' = check_packed dw m' a st2"
    using r by (auto simp: field_step_def bnd_eq_Inr)
  have ch: "evaluable A (times_text ''c_char'' z)" for z
    by (rule pad_evaluable(1) [OF A]) code_simp
  have tx: "evaluable A typstr"
    using 1(1) t ch by (auto simp: field_type_def Let_def bnd_eq_Inr times_text_def split: if_splits)
  have st1: "rows_ok A (rows st1)" using 1(2) st by (auto simp: raise_alignment_def split: if_splits)
  have "rows st' = rows st2"
    using 1(4) by (auto simp: check_packed_def split: option.split)
  moreover note place_rows [OF 1(3) tx st1]
  ultimately show "rows_ok A (rows st')" "ctypeOverride m' = ctypeOverride m" "m_die m' = m_die m" by simp_all
qed

lemma trailing_rows:
  assumes A: "set ctypes_names \<subseteq> A" and "trailing_pad ow c d st = Inr st'" and "rows_ok A (rows st)"
  shows "rows_ok A (rows (finish_packed ow st'))"
proof -
  have ch: "evaluable A (paren_text (times_text ''c_char'' z))" for z
    by (rule pad_evaluable(2) [OF A]) code_simp
  have "rows_ok A (rows st')"
    using assms(2,3) ch by (auto simp: trailing_pad_def Let_def bnd_eq_Inr times_text_def paren_text_def split: if_splits)
  then show ?thesis by (auto simp: finish_packed_def Let_def split: option.split)
qed

section \<open>Structures and unions\<close>

lemma still_conj: "still E K A m Q \<Longrightarrow> still E K A m P \<Longrightarrow> still E K A m (\<lambda>x. Q x \<and> P x)"
  by (rule stepsI) (auto dest!: stepsD)

lemma py_of: "obj_pyName E ob True = py_name E (ob_die ob) (ob_kind ob)"
  unfolding py_name_def by (rule obj_pyName_cong) (simp_all add: new_obj_def)

lemma own_py: "whole E K \<Longrightarrow> obj_ok E k ob \<Longrightarrow> named (ob_kind ob) \<Longrightarrow> scoped E A k \<Longrightarrow> obj_pyName E ob True \<in> A"
  unfolding py_of by (rule scopedD(1) [OF wholeD(1) ok_origin])

lemma member_named: "is_member_kind kd \<Longrightarrow> named kd"
  by (auto simp: is_member_kind_def named_def quals_def funcs_def)

lemma still_tyinfo:
  assumes w: "whole E K" and c: "\<And>c. ctypeOverride m = Some c \<Longrightarrow> evaluable K c"
  shows "still E K A (tyinfo_of E n m) (\<lambda>ti. t_defined ti \<longrightarrow>
    evaluable A (case ctypeOverride m of Some c \<Rightarrow> c | None \<Rightarrow> t_ctype ti))"
proof (rule steps_names)
  assume KA: "K \<subseteq> A"
  have d: "still E K A (is_defined t) (\<lambda>d. d \<longrightarrow> scoped_ref E A t)" if t: "t = ref_of E (DW_AT_type (e_dw E (m_die m)))" for t
  proof (cases "DW_AT_type (e_dw E (m_die m))")
    case None
    with t show ?thesis by (simp add: is_defined_def steps_ret)
  next
    case (Some b)
    show ?thesis
      unfolding is_defined_def t Some ref_of_simps tref.case
    proof (rule still_bind [OF still_getobj], rule steps_ret, intro conjI refl impI)
      fix ob assume ob: "obj_ok E (key_of E b) ob \<and> obj_fine E K A (key_of E b) ob" "ob_defined ob"
      then have "ob_kind ob \<noteq> KFunctionDef" using orderly_refs(2) [OF wholeD(1) [OF w] Some ok_origin] by blast
      with ob show "scoped_ref E A (Obj (key_of E b))" by (simp add: obj_fine_def)
    qed
  qed
  show ?thesis
    unfolding tyinfo_of_def
  proof (rule still_bind [OF still_find(1) [OF w]], rule still_bind [OF d], assumption, intro steps_if)
    fix t d assume u: "d \<longrightarrow> scoped_ref E A t"
    show "still E K A (sbind (type_name E t True) (\<lambda>nm. ret \<lparr>t_defined = False, t_align = 0, t_ctype = [], t_name = nm\<rparr>))
        (\<lambda>ti. t_defined ti \<longrightarrow> evaluable A (case ctypeOverride m of Some c \<Rightarrow> c | None \<Rightarrow> t_ctype ti))"
      by (rule still_bind [OF still_find(8) [OF w]], rule steps_ret) simp
    assume d
    with u have ref: "scoped_ref E A t" by blast
    have "still E K A (case ctypeOverride m of Some c \<Rightarrow> ret c | None \<Rightarrow> ctype E n t)
        (\<lambda>x. evaluable A (case ctypeOverride m of Some c \<Rightarrow> c | None \<Rightarrow> x))"
    proof (cases "ctypeOverride m")
      case None
      show ?thesis unfolding None option.case by (rule steps_weaken [OF still_ctype [OF w]]) (use ref in auto)
    next
      case (Some c)
      with assms(2) KA show ?thesis by (auto intro!: steps_ret evaluable_mono [OF _ KA])
    qed
    then show "still E K A (sbind (alignment E n t) (\<lambda>a.
       sbind (case ctypeOverride m of None \<Rightarrow> ctype E n t | Some c \<Rightarrow> ret c) (\<lambda>c.
       ret \<lparr>t_defined = True, t_align = a, t_ctype = c, t_name = []\<rparr>)))
        (\<lambda>ti. t_defined ti \<longrightarrow> evaluable A (case ctypeOverride m of Some c \<Rightarrow> c | None \<Rightarrow> t_ctype ti))"
      by (intro still_bind [OF still_find(7) [OF w]] still_bind steps_ret)
        (assumption, cases "ctypeOverride m", simp_all)
  qed
qed

abbreviation (input) overrides_ok :: "string set \<Rightarrow> member list \<Rightarrow> bool" where
  "overrides_ok K ms \<equiv> \<forall>m \<in> set ms. \<forall>c. ctypeOverride m = Some c \<longrightarrow> evaluable K c"

lemma still_member_loop:
  assumes w: "whole E K"
  shows "overrides_ok K ms \<Longrightarrow> rows_ok A (rows st) \<Longrightarrow>
    still E K A (member_loop E n ow ms st) (\<lambda>(ms', st'). overrides_ok K ms' \<and> rows_ok A (rows st'))"
proof (induction ms arbitrary: st)
  case Nil
  then show ?case unfolding member_loop.simps by (intro steps_ret) simp
next
  case (Cons m ms)
  have rest: "still E K A (sbind (member_loop E n ow ms st) (\<lambda>(ms, st). ret (m' # ms, st)))
      (\<lambda>(ms', st'). overrides_ok K ms' \<and> rows_ok A (rows st'))"
    if "rows_ok A (rows st)" "ctypeOverride m' = ctypeOverride m" for m' st
    by (rule still_bind [OF Cons.IH]) (use Cons.prems that in \<open>auto intro!: steps_ret\<close>)
  have over: "\<And>c. ctypeOverride m = Some c \<Longrightarrow> evaluable K c" using Cons.prems(1) by simp
  show ?case
    unfolding member_loop.simps
  proof (rule still_bind [OF still_find(6) [OF w]], intro steps_if)
    show "still E K A (sbind (member_loop E n ow ms st) (\<lambda>(ms, st). ret (m # ms, st)))
      (\<lambda>(ms', st'). overrides_ok K ms' \<and> rows_ok A (rows st'))" by (rule rest) (use Cons.prems in simp_all)
    show "still E K A (sbind (tyinfo_of E n m) (\<lambda>ti.
       sbind (lift (field_step n (e_psz E) (e_dw E) ow m ti (next_loc (e_dw E) (map (\<lambda>m. (m, ())) ms)) st)) (\<lambda>(m, st, ws).
       andthen (forM ws errorfunc)
       (sbind (member_loop E n ow ms st) (\<lambda>(ms, st). ret (m # ms, st))))))
      (\<lambda>(ms', st'). overrides_ok K ms' \<and> rows_ok A (rows st'))"
    proof (rule still_bind [OF still_tyinfo [OF w over]], assumption)
      fix ti :: tyinfo assume ti: "t_defined ti \<longrightarrow> evaluable A (case ctypeOverride m of Some c \<Rightarrow> c | None \<Rightarrow> t_ctype ti)"
      have step: "still E K A (lift (field_step n (e_psz E) (e_dw E) ow m ti nxt st))
          (\<lambda>(m', st', ws). rows_ok A (rows st') \<and> ctypeOverride m' = ctypeOverride m)" for nxt
      proof (rule steps_names, rule steps_lift)
        fix x assume KA: "K \<subseteq> A" and x: "field_step n (e_psz E) (e_dw E) ow m ti nxt st = Inr x"
        from KA wholeD(2) [OF w] have A: "set ctypes_names \<subseteq> A" by blast
        obtain m' st' ws where x': "x = (m', st', ws)" by (cases x)
        from field_rows(1,2) [OF A x [unfolded x'] _ Cons.prems(2)] ti x'
        show "A = A \<and> (case x of (m', st', ws) \<Rightarrow> rows_ok A (rows st') \<and> ctypeOverride m' = ctypeOverride m)" by simp
      qed
      show "still E K A (sbind (lift (field_step n (e_psz E) (e_dw E) ow m ti (next_loc (e_dw E) (map (\<lambda>m. (m, ())) ms)) st)) (\<lambda>(m, st, ws).
         andthen (forM ws errorfunc)
         (sbind (member_loop E n ow ms st) (\<lambda>(ms, st). ret (m # ms, st)))))
        (\<lambda>(ms', st'). overrides_ok K ms' \<and> rows_ok A (rows st'))"
        by (rule still_bind [OF step]) (auto intro!: still_then [OF still_forM [OF still_error]] rest)
    qed
  qed
qed

lemma good_update:
  assumes "obj_ok E k ob \<and> obj_fine E K A k ob" and "salign st \<in> set alignments" and "overrides_ok K ms"
    and "\<forall>m \<in> set ms. member_of E k (m_die m)"
  shows "obj_ok E k (ob\<lparr>ob_members := ms, ob_alignment := salign st, ob_packed := packed st\<rparr>)
    \<and> obj_fine E K A k (ob\<lparr>ob_members := ms, ob_alignment := salign st, ob_packed := packed st\<rparr>)"
  using assms by (auto simp: obj_ok_def obj_fine_def own_names_def)

lemma still_write_fields:
  assumes w: "whole E K" and o: "origin E k i kd" "is_member_kind kd" and u: "scoped E A k"
  shows "still E K A (write_fields E n k) (\<lambda>_. True)"
  unfolding write_fields_def Let_def
proof (rule steps_names, rule still_bind [OF still_getobj], intro steps_if)
  show "still E K A (updobj k (ob_alignment_update (\<lambda>_. 1))) (\<lambda>_. True)"
    by (rule still_updobj) (auto simp: obj_ok_def obj_fine_def own_names_def alignments_def)
next
  fix ob assume KA: "K \<subseteq> A" and ob: "obj_ok E k ob \<and> obj_fine E K A k ob"
  note l = limits_specs [OF w]
  from ob have k: "ob_kind ob = kd" using orderlyD(1) [OF wholeD(1) [OF w] o(1)] ok_origin by blast
  have py: "obj_pyName E ob True \<in> A"
    by (rule own_py [OF w _ _ u]) (use ob k member_named [OF o(2)] in auto)
  from KA wholeD(2) [OF w] have A: "set ctypes_names \<subseteq> A" by blast
  have loop: "still E K A (member_loop E n ow (ob_members ob) (layout0 (ob_packed ob)))
      (\<lambda>x. (case x of (ms', st') \<Rightarrow> salign st' \<in> set alignments \<and> (\<forall>m\<in>set ms'. member_of E k (m_die m)))
        \<and> (case x of (ms', st') \<Rightarrow> overrides_ok K ms' \<and> rows_ok A (rows st')))" for ow
  proof (rule still_conj)
    show "still E K A (member_loop E n ow (ob_members ob) (layout0 (ob_packed ob)))
      (\<lambda>(ms', st'). salign st' \<in> set alignments \<and> (\<forall>m\<in>set ms'. member_of E k (m_die m)))"
      by (rule still_quiet [OF w quiet.keeps_member_loop goes_member_loop [OF l enough_none]])
        (use ob in \<open>auto simp: layout0_def alignments_def ok_member\<close>)
    show "still E K A (member_loop E n ow (ob_members ob) (layout0 (ob_packed ob)))
      (\<lambda>(ms', st'). overrides_ok K ms' \<and> rows_ok A (rows st'))"
      by (rule still_member_loop [OF w]) (use ob in \<open>auto simp: obj_fine_def own_names_def layout0_def\<close>)
  qed
  have pad: "still E K A (lift (trailing_pad ow c d st)) (\<lambda>st'. salign (finish_packed ow st') \<in> set alignments
      \<and> rows_ok A (rows (finish_packed ow st')))"
    if "salign st \<in> set alignments" "rows_ok A (rows st)" for ow c d st
  proof (rule steps_lift)
    fix st' assume p: "trailing_pad ow c d st = Inr st'"
    have "salign st' \<in> set alignments" using trailing_pad_in [OF l that(1)] p by (metis res_in_simps(2))
    from finish_packed_align [OF this] trailing_rows [OF A p that(2)]
    show "A = A \<and> salign (finish_packed ow st') \<in> set alignments \<and> rows_ok A (rows (finish_packed ow st'))" by blast
  qed
  show "still E K A (sbind (definition_of E k) (\<lambda>f.
       sbind (member_loop E n (owner_of E ob f) (ob_members ob) (layout0 (ob_packed ob))) (\<lambda>(ms, st).
       sbind (lift (trailing_pad (owner_of E ob f) (length ms) (ob_superCount ob) st)) (\<lambda>st.
       andthen (updobj k (\<lambda>oba. oba\<lparr>ob_members := ms, ob_alignment := salign (finish_packed (owner_of E ob f) st),
           ob_packed := packed (finish_packed (owner_of E ob f) st)\<rparr>))
       (andthen (write_stmt k (SFieldsPre (obj_pyName E ob True) (rows (finish_packed (owner_of E ob f) st))))
       (andthen (if packed (finish_packed (owner_of E ob f) st)
                 then write_stmt k (SPack (obj_pyName E ob True) (packComment (finish_packed (owner_of E ob f) st))) else ret ())
       (andthen (if filter m_anon ms \<noteq> [] then write_stmt k (SAnonymous (obj_pyName E ob True) (anon_names (e_dw E) ms))
                 else ret ())
       (write_stmt k (SFields (obj_pyName E ob True)))))))))) (\<lambda>_. True)"
  proof (rule still_bind [OF still_find(2) [OF w]], rule still_bind [OF loop])
    fix f and x :: "member list \<times> layout"
    assume x: "(case x of (ms', st') \<Rightarrow> salign st' \<in> set alignments \<and> (\<forall>m\<in>set ms'. member_of E k (m_die m)))
        \<and> (case x of (ms', st') \<Rightarrow> overrides_ok K ms' \<and> rows_ok A (rows st'))"
    obtain ms st where ms: "x = (ms, st)" by force
    with x have st: "salign st \<in> set alignments" "rows_ok A (rows st)"
      and mem: "\<forall>m\<in>set ms. member_of E k (m_die m)" "overrides_ok K ms" by auto
    have plain: "still E K A (write_stmt k y) (\<lambda>_. True)" if "uses_only A y" "binds y = []" for y
      using that by (rule still_write)
    show "still E K A (case x of (ms, st) \<Rightarrow>
       sbind (lift (trailing_pad (owner_of E ob f) (length ms) (ob_superCount ob) st)) (\<lambda>st.
       andthen (updobj k (\<lambda>oba. oba\<lparr>ob_members := ms, ob_alignment := salign (finish_packed (owner_of E ob f) st),
           ob_packed := packed (finish_packed (owner_of E ob f) st)\<rparr>))
       (andthen (write_stmt k (SFieldsPre (obj_pyName E ob True) (rows (finish_packed (owner_of E ob f) st))))
       (andthen (if packed (finish_packed (owner_of E ob f) st)
                 then write_stmt k (SPack (obj_pyName E ob True) (packComment (finish_packed (owner_of E ob f) st))) else ret ())
       (andthen (if filter m_anon ms \<noteq> [] then write_stmt k (SAnonymous (obj_pyName E ob True) (anon_names (e_dw E) ms))
                 else ret ())
       (write_stmt k (SFields (obj_pyName E ob True)))))))) (\<lambda>_. True)"
      unfolding ms prod.case
    proof (rule still_bind [OF pad [OF st]], rule still_then [OF still_updobj], rule good_update)
      fix st'
      assume st': "salign (finish_packed (owner_of E ob f) st') \<in> set alignments
        \<and> rows_ok A (rows (finish_packed (owner_of E ob f) st'))"
      then show "salign (finish_packed (owner_of E ob f) st') \<in> set alignments" by blast
      show "still E K A (andthen (write_stmt k (SFieldsPre (obj_pyName E ob True) (rows (finish_packed (owner_of E ob f) st'))))
         (andthen (if packed (finish_packed (owner_of E ob f) st')
                   then write_stmt k (SPack (obj_pyName E ob True) (packComment (finish_packed (owner_of E ob f) st'))) else ret ())
         (andthen (if filter m_anon ms \<noteq> [] then write_stmt k (SAnonymous (obj_pyName E ob True) (anon_names (e_dw E) ms))
                   else ret ())
         (write_stmt k (SFields (obj_pyName E ob True)))))) (\<lambda>_. True)"
        by (intro still_then [where Q = "\<lambda>_. True"] steps_if plain steps_ret conjI refl TrueI)
          (use st' py in \<open>simp_all add: uses_only_def binds_def\<close>)
    qed (use mem in auto)
  qed
qed

lemma still_attribute:
  assumes "whole E K" and "obj_ok E k ob" and "is_member_kind (ob_kind ob)" and "scoped E A k"
    and "own_name x = Some (obj_pyName E ob True)" and "\<not> is_class x" and "\<not> is_fields x"
  shows "still E K A (write_stmt k x) (\<lambda>_. True)"
proof (rule still_write)
  have "obj_pyName E ob True \<in> A" by (rule own_py [OF assms(1,2) member_named [OF assms(3)] assms(4)])
  with assms(5-7) show "uses_only A x" "binds x = []"
    by (cases x; simp add: own_name_def uses_only_def binds_def is_class_def is_fields_def)+
qed

lemma member_kind_of:
  "whole E K \<Longrightarrow> origin E k i kd \<Longrightarrow> obj_ok E k ob \<Longrightarrow> ob_kind ob = kd"
  using orderlyD(1) [OF wholeD(1)] ok_origin by blast

lemma still_write_rest:
  assumes w: "whole E K" and o: "origin E k i kd" "is_member_kind kd" and u: "scoped E A k"
  shows "still E K A (write_rest E n k) (\<lambda>b. b)" and "still E K A (write_size E k) (\<lambda>_. True)"
proof -
  have attr: "still E K A (write_stmt k x) (\<lambda>_. True)"
    if "obj_ok E k ob \<and> obj_fine E K A k ob" "own_name x = Some (obj_pyName E ob True)" "\<not> is_class x" "\<not> is_fields x"
    for x ob
    by (rule still_attribute [OF w _ _ u that(2-4)]) (use that(1) member_kind_of [OF w o(1)] o(2) in auto)
  have blank: "still E K A (write_stmt k SBlank) (\<lambda>_. True)"
    by (rule still_write) (simp_all add: uses_only_def binds_def)
  have un: "still E K A (write_unaligned E k ob) (\<lambda>_. True)" if "obj_ok E k ob \<and> obj_fine E K A k ob" for ob
    unfolding write_unaligned_def Let_def
    by (intro steps_if attr [OF that] steps_ret conjI refl TrueI) (simp_all add: own_name_def)
  show "still E K A (write_rest E n k) (\<lambda>b. b)"
    unfolding write_rest_def
    by (rule still_bind [OF still_getobj])
      (intro still_then [OF attr] still_then [OF un] still_then [OF still_write_fields [OF w o u]] still_then [OF blank]
        steps_ret conjI refl TrueI; simp add: own_name_def)
  show "still E K A (write_size E k) (\<lambda>_. True)"
    unfolding write_size_def
  proof (rule still_bind [OF still_getobj], rule still_bind [OF still_find(2) [OF w]], rule still_bind)
    show "still E K A (lift (need TypeError (DW_AT_byte_size (e_dw E f)))) (\<lambda>_. True)" for f
      by (rule steps_lift) simp
  qed (intro still_then [OF blank] attr; simp add: own_name_def)
qed

lemma find_member_plain: "overrides_ok K (fst acc) \<Longrightarrow> overrides_ok K (fst (find_member E nm acc field))"
  by (cases acc) (auto simp: find_member_def Let_def mk_member_def)

lemma find_members_plain: "overrides_ok K (fst acc) \<Longrightarrow> overrides_ok K (fst (foldl (find_member E nm) acc xs))"
proof (induction xs arbitrary: acc)
  case (Cons x xs)
  from Cons.IH [OF find_member_plain [OF Cons.prems]] show ?case by (simp only: foldl.simps)
qed (simp only: foldl.simps)

lemma still_findMembers:
  assumes w: "whole E K"
  shows "still E K A (findMembers E k) (\<lambda>_. True)"
proof -
  note l = limits_specs [OF w]
  show ?thesis
    unfolding findMembers_def
  proof (rule still_bind [OF still_getobj], intro steps_if, (intro steps_ret; simp), rule still_bind [OF still_find(2) [OF w]])
    fix ob f assume ob: "obj_ok E k ob \<and> obj_fine E K A k ob" and f: "entry_of E k f"
    let ?r = "foldl (find_member E (obj_name E ob True)) ([], 0, 0, []) (children (e_dw E f))"
    obtain ms c a es where r: "?r = (ms, c, a, es)" by (cases ?r) auto
    from find_members_plain [of "([], 0, 0, [])" K E "obj_name E ob True" "children (e_dw E f)"] r have ms: "overrides_ok K ms" by simp
    from r have "m_die m \<in> set (member_dies E f)" if "m \<in> set ms" for m
      using find_members_dies [OF r] that by (auto simp: member_dies_def)
    with f have "\<forall>m \<in> set ms. member_of E k (m_die m)" unfolding member_of_def by blast
    then show "still E K A (case ?r of (ms, superCount, _, es) \<Rightarrow>
        andthen (updobj k (\<lambda>ob. ob\<lparr>ob_members := ms, ob_superCount := superCount\<rparr>)) (forM es errorfunc)) (\<lambda>_. True)"
      unfolding r prod.case
      by (intro still_then [OF still_updobj still_forM [OF still_error]]) (use ms in \<open>auto simp: obj_ok_def obj_fine_def own_names_def\<close>)
  qed
qed

end
