(* ===== verification/BoundDeclare.thy ===== *)
theory BoundDeclare
  imports BoundStructs
begin

text \<open>
  The calls that \<open>run\<close> makes bind the names of their types: here, those that declare a type.
\<close>

section \<open>Calls\<close>

text \<open>The definition of a function aside, the type under the key can be named.\<close>

definition nameable :: "env \<Rightarrow> string set \<Rightarrow> tref option \<Rightarrow> bool" where
  "nameable E A t \<longleftrightarrow> (\<forall>k. t = Some (Obj k) \<longrightarrow> scoped E A k \<or> (\<exists>i. origin E k i KFunctionDef))"

text \<open>Defining the type makes it so.\<close>

definition settles :: "env \<Rightarrow> bool \<Rightarrow> tref option \<Rightarrow> bool" where
  "settles E b t \<longleftrightarrow> (\<forall>k. t = Some (Obj k) \<longrightarrow> value_ok E k \<or> b \<and> not_void E k)"

definition calls_bind :: "env \<Rightarrow> string set \<Rightarrow> caller \<Rightarrow> bool" where
  "calls_bind E K call \<longleftrightarrow> (\<forall>t A. steps E K A (call (DeclareType t)) (\<lambda>_ B. nameable E B t)
     \<and> steps E K A (call (DefineType t)) (\<lambda>b B. settles E b t \<longrightarrow> nameable E B t))
     \<and> (\<forall>c. keeps stable (call c))"

lemma steps_declare: "calls_bind E K call \<Longrightarrow> steps E K A (call (DeclareType t)) (\<lambda>_ B. nameable E B t)"
  and steps_define: "calls_bind E K call \<Longrightarrow> steps E K A (call (DefineType t)) (\<lambda>b B. settles E b t \<longrightarrow> nameable E B t)"
  by (simp_all add: calls_bind_def)

lemma nameable_mono: "nameable E A t \<Longrightarrow> A \<subseteq> B \<Longrightarrow> nameable E B t"
  unfolding nameable_def using scoped_mono by blast

lemma nameable_base:
  assumes w: "whole E K" and b: "base_ref E k (Some t)" and n: "nameable E A (Some t)"
  shows "scoped_ref E A t"
proof -
  from b obtain f d where f: "DW_AT_type (e_dw E f) = Some d" "t = Obj (key_of E d)" unfolding base_ref_Some by blast
  with n orderly_refs(2) [OF wholeD(1) [OF w] f(1)] show ?thesis by (auto simp: nameable_def)
qed

text \<open>A definition that has been found stays.\<close>

lemma definition_again:
  assumes "definition_of E k s = Inr (f, s1)" and "stable s1 s2" and "definition_of E k s2 = Inr (g, s3)"
  shows "g = f"
proof -
  from assms(1) obtain ob where "heap s k = Some ob" by (auto simp: definition_of_def sbind_eq_Inr getobj_Inr)
  from stableD [OF assms(2) definition_of_obj [OF assms(1) this]] obtain ob2 where
    "heap s2 k = Some ob2" "ob_defdie ob2 = Some f" by (auto simp: later_obj_def)
  with assms(3) show ?thesis
    by (auto simp: definition_of_def resolve_definition_def andthen_def sbind_eq_Inr getobj_Inr)
qed

lemma base_definition:
  assumes "baseType E n k s = Inr (b, s1)"
  obtains f s0 where "definition_of E k s = Inr (f, s0)" "stable s0 s1" "b = map_option (\<lambda>d. Obj (key_of E d)) (DW_AT_type (e_dw E f))"
proof -
  from assms obtain f s0 where f: "definition_of E k s = Inr (f, s0)"
    "(case DW_AT_type (e_dw E f) of None \<Rightarrow> ret None | Some b \<Rightarrow> sbind (dieToType E n (Some b)) (\<lambda>t. ret (Some t))) s0 = Inr (b, s1)"
    by (auto simp: baseType_def sbind_eq_Inr)
  then have "stable s0 s1 \<and> b = map_option (\<lambda>d. Obj (key_of E d)) (DW_AT_type (e_dw E f))"
    using dieToType_key keepsD [OF disc_dieToType]
    by (cases "DW_AT_type (e_dw E f)") (auto simp: sbind_eq_Inr stable_refl intro: discovers_stable)
  with f(1) that show thesis by blast
qed

lemma base_again:
  assumes "baseType E n k s = Inr (b, s1)" and "stable s1 s2" and "theBase E n k s2 = Inr (t, s3)"
  shows "b = Some t"
proof -
  from base_definition [OF assms(1)] obtain f s0 where
    f: "definition_of E k s = Inr (f, s0)" "stable s0 s1" "b = map_option (\<lambda>d. Obj (key_of E d)) (DW_AT_type (e_dw E f))" .
  from assms(3) obtain b' where "baseType E n k s2 = Inr (b', s3)" "b' = Some t"
    by (auto simp: theBase_def sbind_eq_Inr lift_eq_Inr need_eq_Inr)
  with base_definition obtain g s4 where
    "definition_of E k s2 = Inr (g, s4)" "Some t = map_option (\<lambda>d. Obj (key_of E d)) (DW_AT_type (e_dw E g))" by metis
  with definition_again [OF f(1) stable_trans [OF f(2) assms(2)]] f(3) show ?thesis by metis
qed

section \<open>Declaring\<close>

lemma steps_declare_members:
  assumes w: "whole E K" and o: "origin E k i kd" "is_member_kind kd"
  shows "steps E K A (declare_member_type E k) (\<lambda>_ B. scoped E B k)"
  unfolding declare_member_type_def
proof (rule steps_names, rule still_bind [OF still_getobj])
  fix ob assume KA: "K \<subseteq> A" and ob: "obj_ok E k ob \<and> obj_fine E K A k ob"
  then have kd: "ob_kind ob = kd" using member_kind_of [OF w o(1)] by blast
  with ob o(2) KA have "uses_only A (SClass (obj_pyName E ob True) (ob_base ob) (ob_mixins ob) (dieComment E ob))"
    by (auto simp: obj_fine_def own_names_def uses_only_def)
  then show "steps E K A (write_stmt k (SClass (obj_pyName E ob True) (ob_base ob) (ob_mixins ob) (dieComment E ob)))
      (\<lambda>_ B. scoped E B k)"
  proof (rule steps_weaken [OF steps_write])
    fix B assume "B = A \<union> set (binds (SClass (obj_pyName E ob True) (ob_base ob) (ob_mixins ob) (dieComment E ob)))"
    then have "py_name E (ob_die ob) (ob_kind ob) \<in> B" by (simp add: binds_def py_of)
    then show "scoped E B k" using ob kd member_named [OF o(2)] ok_origin by (blast intro: u_named)
  qed
qed

lemma steps_declare_typedef:
  assumes w: "whole E K" and o: "origin E k i KTypedef" and c: "calls_bind E K call"
  shows "steps E K A (declare_typedef E n call k) (\<lambda>_ B. scoped E B k)"
proof (rule stepsI)
  fix s u s' assume s: "good E K A s" and "declare_typedef E n call k s = Inr (u, s')"
  then obtain b0 s1 c0 s2 ob b s3 where 1: "baseType E n k s = Inr (b0, s1)" and 2: "call (DeclareType b0) s1 = Inr (c0, s2)"
    and ob: "heap s2 k = Some ob" and 3: "theBase E n k s2 = Inr (b, s3)"
    and r: "sbind (ctype E n b) (\<lambda>ct. if obj_pyName E ob True = ct then ret ()
       else write_stmt k (STypedef (obj_pyName E ob True) ct (dieComment E ob))) s3 = Inr (u, s')"
    by (auto simp: declare_typedef_def andthen_def sbind_eq_Inr getobj_Inr)
  have s1: "good E K A s1" "base_ref E k b0" using stepsD [OF still_find(3) [OF w] s 1] by auto
  from stepsD [OF steps_declare [OF c] s1(1) 2] obtain B where B: "A \<subseteq> B" "good E K B s2" "nameable E B b0" by blast
  have "keeps stable (call (DeclareType b0))" using c by (simp add: calls_bind_def)
  from keepsD [OF this 2] have b: "b0 = Some b" using base_again [OF 1 _ 3] by blast
  have s3: "good E K B s3" using stepsD [OF still_find(4) [OF w] B(2) 3] by auto
  have ref: "scoped_ref E B b" using nameable_base [OF w] s1(2) B(3) unfolding b by blast
  have ob: "obj_ok E k ob" using B(2) ob by (auto simp: good_def dest: objs_okD)
  then have kd: "ob_kind ob = KTypedef" using member_kind_of [OF w o] by blast
  have named: "named KTypedef" by (simp add: named_def quals_def funcs_def)
  have bound: "scoped E C k" if "obj_pyName E ob True \<in> C" for C
    using that ok_origin [OF ob] kd named unfolding py_of by (auto intro: u_named)
  have py: "obj_pyName E ob True = asPythonId_str (obj_name E ob True)" by (simp add: obj_pyName_def Let_def kd)
  have "steps E K B (sbind (ctype E n b) (\<lambda>ct. if obj_pyName E ob True = ct then ret ()
       else write_stmt k (STypedef (obj_pyName E ob True) ct (dieComment E ob)))) (\<lambda>_ C. scoped E C k)"
  proof (rule still_bind [OF still_ctype [OF w]], intro steps_if)
    fix ct assume ct: "scoped_ref E B b \<longrightarrow> evaluable B ct"
    show "steps E K B (ret ()) (\<lambda>_ C. scoped E C k)" if "obj_pyName E ob True = ct"
      using ct ref that evaluable_py bound unfolding py by (intro steps_ret) blast
    show "steps E K B (write_stmt k (STypedef (obj_pyName E ob True) ct (dieComment E ob))) (\<lambda>_ C. scoped E C k)"
      by (rule steps_weaken [OF steps_write]) (use ct ref in \<open>auto simp: uses_only_def binds_def intro: bound\<close>)
  qed
  from stepsD [OF this s3 r] B(1) show "\<exists>B. A \<subseteq> B \<and> good E K B s' \<and> scoped E B k" by blast
qed

lemma plain_base:
  assumes w: "whole E K" and o: "origin E k i kd" "anonymous kd" and b: "base_ref E k t"
  shows "t = map_option (\<lambda>b. Obj (key_of E b)) (DW_AT_type (e_dw E i))"
  using b orderlyD(3) [OF wholeD(1) [OF w] o] by (auto simp: base_ref_def)

lemma nameable_type: "whole E K \<Longrightarrow> DW_AT_type (e_dw E d) = Some b \<Longrightarrow> nameable E A (Some (Obj (key_of E b))) \<Longrightarrow> scoped E A (key_of E b)"
  using orderly_refs(2) [OF wholeD(1)] unfolding nameable_def by blast

text \<open>A type that is written with the expression of its base.\<close>

lemma scoped_by_base:
  assumes w: "whole E K" and o: "origin E k i kd" and b: "base_ref E k t" "nameable E A t"
  shows "List.member (KPointer # KArray # quals) kd \<Longrightarrow> scoped E A k"
proof -
  assume kd: "List.member (KPointer # KArray # quals) kd"
  then have "anonymous kd" using plain_kinds by auto
  from plain_base [OF w o this b(1)] b(2) have "scoped E A (key_of E d)" if "DW_AT_type (e_dw E i) = Some d" for d
    using nameable_type [OF w that] that by simp
  with o kd show ?thesis by (auto intro: u_base u_pointer)
qed

lemma nameable_own: "whole E K \<Longrightarrow> origin E k i kd \<Longrightarrow> kd \<noteq> KFunctionDef \<Longrightarrow> nameable E A (Some (Obj k)) \<Longrightarrow> scoped E A k"
  using orderlyD(1) [OF wholeD(1)] unfolding nameable_def by blast

lemma value_sure: "whole E K \<Longrightarrow> origin E k i kd \<Longrightarrow> kd = KEnum \<or> kd = KFunction \<Longrightarrow> value_ok E k"
  by (rule vo_plain, assumption) (auto simp: quals_def is_member_kind_def is_external_def intro!: not_void_kind [OF wholeD(1)])

text \<open>Types that need no name, or have it from an import.\<close>

lemma scoped_always: "whole E K \<Longrightarrow> K \<subseteq> A \<Longrightarrow> origin E k i kd \<Longrightarrow> kd = KPrim \<or> is_external kd \<Longrightarrow> scoped E A k"
proof -
  assume w: "whole E K" "K \<subseteq> A" and o: "origin E k i kd" and kd: "kd = KPrim \<or> is_external kd"
  then show ?thesis
  proof (cases "kd = KPrim")
    case False
    with kd obtain m where m: "kd = KExternal m" by (auto simp: is_external_def split: tkind.splits)
    then have "py_name E i kd \<in> A" "named kd" using wholeD(3) [OF w(1)] o w(2) by (auto simp: named_def quals_def funcs_def)
    with o show ?thesis by (intro u_named)
  qed (auto intro: u_prim)
qed

lemma steps_declare_obj:
  assumes w: "whole E K" and o: "origin E k i kd" and c: "calls_bind E K call"
  shows "steps E K A (declare_obj E n call k kd) (\<lambda>_ B. kd \<noteq> KFunctionDef \<longrightarrow> scoped E B k)"
  unfolding declare_obj_def
proof (intro steps_if)
  assume "is_member_kind kd"
  from steps_declare_members [OF w o this]
  show "steps E K A (declare_member_type E k) (\<lambda>_ B. kd \<noteq> KFunctionDef \<longrightarrow> scoped E B k)" by (rule steps_weaken) blast
next
  assume "kd = KTypedef"
  with steps_declare_typedef [OF w _ c] o
  show "steps E K A (declare_typedef E n call k) (\<lambda>_ B. kd \<noteq> KFunctionDef \<longrightarrow> scoped E B k)" by (blast intro: steps_weaken)
next
  assume "kd = KPointer \<or> kd = KConst \<or> kd = KVolatile \<or> kd = KRestrict"
  then have kd: "List.member (KPointer # KArray # quals) kd" by (auto simp: quals_def)
  show "steps E K A (sbind (baseType E n k) (\<lambda>b. andthen (call (DeclareType b)) (ret ())))
      (\<lambda>_ B. kd \<noteq> KFunctionDef \<longrightarrow> scoped E B k)"
  proof (rule still_bind [OF still_find(3) [OF w]], rule steps_then [OF steps_declare [OF c]], rule steps_ret, rule impI)
    fix b B assume "base_ref E k b" "nameable E B b"
    then show "scoped E B k" by (rule scoped_by_base [OF w o _ _ kd])
  qed
next
  assume no: "\<not> is_member_kind kd" "kd \<noteq> KTypedef" "\<not> (kd = KPointer \<or> kd = KConst \<or> kd = KVolatile \<or> kd = KRestrict)"
  show "steps E K A (andthen (call (DefineType (Some (Obj k)))) (ret ())) (\<lambda>_ B. kd \<noteq> KFunctionDef \<longrightarrow> scoped E B k)"
  proof (rule steps_names, rule steps_then [OF steps_define [OF c]], rule steps_ret, rule impI)
    fix b B assume KA: "K \<subseteq> A" "A \<subseteq> B" and n: "settles E b (Some (Obj k)) \<longrightarrow> nameable E B (Some (Obj k))" and f: "kd \<noteq> KFunctionDef"
    consider "kd = KPrim \<or> is_external kd" | "kd = KEnum \<or> kd = KFunction" | "kd = KArray"
      using no f by (cases kd) (auto simp: is_member_kind_def is_external_def)
    then show "scoped E B k"
    proof cases
      case 1
      with scoped_always [OF w _ o] KA show ?thesis by blast
    next
      case 2
      then have "settles E b (Some (Obj k))" using value_sure [OF w o] by (simp add: settles_def)
      with n nameable_own [OF w o f] show ?thesis by blast
    next
      case 3
      show ?thesis
      proof (cases "DW_AT_type (e_dw E i)")
        case None
        with o 3 show ?thesis by (auto intro: u_base)
      next
        case (Some d)
        then have "value_ok E (key_of E d)" using wholeD(4) [OF w] o 3 by blast
        with o 3 Some have "settles E b (Some (Obj k))" by (auto simp: settles_def intro: vo_base)
        with n nameable_own [OF w o f] show ?thesis by blast
      qed
    qed
  qed
qed

lemma nameableI: "origin E k i kd \<Longrightarrow> kd \<noteq> KFunctionDef \<longrightarrow> scoped E A k \<Longrightarrow> nameable E A (Some (Obj k))"
  by (cases "kd = KFunctionDef") (auto simp: nameable_def)

lemma obj_nameable: "obj_ok E k ob \<and> obj_fine E K A k ob \<Longrightarrow> ob_declared ob \<or> ob_defined ob \<Longrightarrow> nameable E A (Some (Obj k))"
  by (rule nameableI [OF ok_origin]) (auto simp: obj_fine_def)

lemma fine_mark:
  assumes w: "whole E K" and o: "origin E k i kd" and ob: "obj_ok E k ob" "obj_fine E K A k ob"
    and s: "kd \<noteq> KFunctionDef \<longrightarrow> b \<longrightarrow> scoped E A k"
  shows "b \<Longrightarrow> obj_ok E k (ob\<lparr>ob_declared := b\<rparr>) \<and> obj_fine E K A k (ob\<lparr>ob_declared := b\<rparr>)"
    and "obj_ok E k (ob\<lparr>ob_defined := b\<rparr>) \<and> obj_fine E K A k (ob\<lparr>ob_defined := b\<rparr>)"
  using ob s member_kind_of [OF w o ob(1)] by (auto simp: obj_ok_def obj_fine_def own_names_def)

lemma steps_declareType:
  assumes w: "whole E K" and c: "calls_bind E K call"
  shows "steps E K A (declareType E n call t) (\<lambda>_ B. nameable E B t)"
proof (cases "\<exists>k. t = Some (Obj k)")
  case True
  then obtain k where t: "t = Some (Obj k)" by blast
  show ?thesis
    unfolding declareType_def t option.case tref.case
  proof (rule still_bind [OF still_getobj], intro steps_if)
    fix ob assume ob: "obj_ok E k ob \<and> obj_fine E K A k ob"
    show "steps E K A (ret ()) (\<lambda>_ B. nameable E B (Some (Obj k)))" if "ob_declared ob"
      by (rule steps_ret) (use obj_nameable [OF ob] that in blast)
    have o: "origin E k (ob_die ob) (ob_kind ob)" using ob ok_origin by blast
    show "steps E K A (andthen (declare_obj E n call k (ob_kind ob)) (updobj k (\<lambda>ob. ob\<lparr>ob_declared := True\<rparr>)))
        (\<lambda>_ B. nameable E B (Some (Obj k)))"
    proof (rule steps_then [OF steps_declare_obj [OF w o c]])
      fix B assume "A \<subseteq> B" and n: "ob_kind ob \<noteq> KFunctionDef \<longrightarrow> scoped E B k"
      have "still E K B (updobj k (\<lambda>ob. ob\<lparr>ob_declared := True\<rparr>)) (\<lambda>_. True)"
        by (rule still_updobj, rule fine_mark(1) [OF w o]) (use n in simp_all)
      then show "steps E K B (updobj k (\<lambda>ob. ob\<lparr>ob_declared := True\<rparr>)) (\<lambda>_ B. nameable E B (Some (Obj k)))"
        by (rule steps_weaken) (use nameableI [OF o n] in simp)
    qed
  qed
next
  case False
  then have "declareType E n call t = ret ()" "nameable E B t" for B
    by (auto simp: declareType_def nameable_def split: option.split tref.split)
  then show ?thesis by (simp only:) (rule steps_ret, simp)
qed

end
