(* ===== verification/BoundDefine.thy ===== *)
theory BoundDefine
  imports BoundDeclare
begin

text \<open>
  Defining a type only uses names that are bound, and makes a complete type scoped; so every call of
  \<open>run\<close> does.
\<close>

section \<open>Defining\<close>

lemma value_members:
  assumes "whole E K" and "value_ok E k" and "origin E k i kd" and "is_member_kind kd" and "entry_of E k f"
  shows "\<not> DW_AT_declaration (e_dw E f)"
  using assms(2)
proof cases
  case (vo_plain j kj)
  then have "kj = kd" using orderlyD(1) [OF wholeD(1) [OF assms(1)] assms(3)] by blast
  with vo_plain assms(4) show ?thesis by blast
next
  case (vo_members j kj)
  then show ?thesis using assms(5) by blast
next
  case (vo_base j kj b)
  then have "kj = kd" using orderlyD(1) [OF wholeD(1) [OF assms(1)] assms(3)] by blast
  with vo_base assms(4) show ?thesis by (auto simp: is_member_kind_def quals_def)
qed

lemma steps_define_members:
  assumes w: "whole E K" and c: "calls_bind E K call"
  shows "steps E K A (define_members E n call k) (\<lambda>_ _. True)"
  unfolding define_members_def
proof (rule still_bind [OF still_getobj], rule steps_each)
  fix ob m B
  show "steps E K B (sbind (dieToType E n (DW_AT_type (e_dw E (m_die m)))) (\<lambda>t.
      andthen (call (DefineType (Some t))) (ret ()))) (\<lambda>_ _. True)"
    by (rule still_bind [OF still_find(1) [OF w]], rule steps_then [OF steps_define [OF c]], rule steps_ret) simp
qed

lemma steps_member_type:
  assumes w: "whole E K" and o: "origin E k i kd" "is_member_kind kd" and c: "calls_bind E K call"
  shows "steps E K A (define_member_type E n call k) (\<lambda>b B. b \<or> value_ok E k \<longrightarrow> scoped E B k)"
  unfolding define_member_type_def
proof (rule still_bind [OF still_find(2) [OF w]], intro steps_if)
  fix f assume f: "entry_of E k f"
  show "steps E K A (ret False) (\<lambda>b B. b \<or> value_ok E k \<longrightarrow> scoped E B k)" if "DW_AT_declaration (e_dw E f)"
    by (rule steps_ret) (use value_members [OF w _ o f] that in blast)
  have kd: "kd \<noteq> KFunctionDef" using o(2) by (auto simp: is_member_kind_def)
  show "steps E K A (andthen (findMembers E k) (andthen (call (DeclareType (Some (Obj k))))
       (andthen (define_members E n call k) (andthen (write_size E k) (write_rest E n k)))))
      (\<lambda>b B. b \<or> value_ok E k \<longrightarrow> scoped E B k)"
  proof (rule still_then [OF still_findMembers [OF w]], rule steps_then [OF steps_declare [OF c]])
    fix B assume "nameable E B (Some (Obj k))"
    then have B: "scoped E B k" by (rule nameable_own [OF w o(1) kd])
    show "steps E K B (andthen (define_members E n call k) (andthen (write_size E k) (write_rest E n k)))
        (\<lambda>b B. b \<or> value_ok E k \<longrightarrow> scoped E B k)"
    proof (rule steps_then [OF steps_define_members [OF w c]])
      fix C assume "B \<subseteq> C"
      with B have C: "scoped E C k" by (rule scoped_mono)
      show "steps E K C (andthen (write_size E k) (write_rest E n k)) (\<lambda>b B. b \<or> value_ok E k \<longrightarrow> scoped E B k)"
        by (rule still_then [OF still_write_rest(2) [OF w o C]], rule steps_weaken [OF still_write_rest(1) [OF w o C]])
          (use C in simp)
    qed
  qed
qed

lemma steps_define_struct:
  assumes w: "whole E K" and o: "origin E k i kd" "is_member_kind kd" and c: "calls_bind E K call"
  shows "steps E K A (define_struct E n call k) (\<lambda>b B. b \<or> value_ok E k \<longrightarrow> scoped E B k)"
    and "steps E K A (define_union E n call k) (\<lambda>b B. b \<or> value_ok E k \<longrightarrow> scoped E B k)"
proof -
  have attr: "still E K B (write_stmt k x) (\<lambda>_. True)"
    if "scoped E B k" "obj_ok E k ob \<and> obj_fine E K B k ob" "own_name x = Some (obj_pyName E ob True)" "\<not> is_class x" "\<not> is_fields x"
    for x ob B
    by (rule still_attribute [OF w _ _ that(1) that(3-5)]) (use that(2) member_kind_of [OF w o(1)] o(2) in auto)
  have last: "steps E K B (if \<not> b then ret False else sbind (getobj k) (\<lambda>ob. andthen (last ob) (ret True)))
      (\<lambda>b B. b \<or> value_ok E k \<longrightarrow> scoped E B k)"
    if b: "b \<or> value_ok E k \<longrightarrow> scoped E B k"
      and m: "\<And>ob. scoped E B k \<Longrightarrow> obj_ok E k ob \<and> obj_fine E K B k ob \<Longrightarrow> still E K B (last ob) (\<lambda>_. True)"
    for b B and last :: "tobj \<Rightarrow> unit rcomp"
  proof (intro steps_if)
    show "\<not> b \<Longrightarrow> steps E K B (ret False) (\<lambda>b B. b \<or> value_ok E k \<longrightarrow> scoped E B k)"
      using b by (intro steps_ret) blast
    show "steps E K B (sbind (getobj k) (\<lambda>ob. andthen (last ob) (ret True)))
      (\<lambda>b B. b \<or> value_ok E k \<longrightarrow> scoped E B k)" if "\<not> \<not> b"
      using b that by (intro still_bind [OF still_getobj] still_then [OF m] steps_ret) blast+
  qed
  show "steps E K A (define_struct E n call k) (\<lambda>b B. b \<or> value_ok E k \<longrightarrow> scoped E B k)"
    unfolding define_struct_def
    by (rule steps_bind [OF steps_member_type [OF w o c]], rule last, assumption, rule attr) (simp_all add: own_name_def)
  show "steps E K A (define_union E n call k) (\<lambda>b B. b \<or> value_ok E k \<longrightarrow> scoped E B k)"
    unfolding define_union_def
    by (rule steps_bind [OF steps_member_type [OF w o c]], rule last, assumption, intro steps_if attr steps_ret)
      (simp_all add: own_name_def)
qed

text \<open>The name of the integer type of an enumeration is bound once its base type is defined.\<close>

lemma int_type_bound:
  assumes w: "whole E K" and o: "origin E k i KEnum" and c: "calls_bind E K call"
    and s: "good E K A s" and 1: "baseType E n k s = Inr (b0, s1)"
    and 2: "(if b0 \<noteq> None then call (DefineType b0) else ret True) s1 = Inr (c0, s2)"
    and 3: "intType E n k s2 = Inr (ty, s3)"
  shows "\<exists>B. A \<subseteq> B \<and> good E K B s3 \<and> ty \<in> B"
proof -
  have s1: "good E K A s1" using stepsD [OF still_find(3) [OF w] s 1] by auto
  from 2 have "\<exists>B. A \<subseteq> B \<and> good E K B s2 \<and> (settles E c0 b0 \<longrightarrow> nameable E B b0)"
  proof (cases "b0 = None")
    case True
    with 2 s1 show ?thesis by (auto simp: nameable_def)
  next
    case False
    with 2 stepsD [OF steps_define [OF c] s1] show ?thesis by auto
  qed
  then obtain B where B: "A \<subseteq> B" "good E K B s2" "settles E c0 b0 \<longrightarrow> nameable E B b0" by blast
  from base_definition [OF 1] obtain f s0 where
    f: "definition_of E k s = Inr (f, s0)" "stable s0 s1" "b0 = map_option (\<lambda>d. Obj (key_of E d)) (DW_AT_type (e_dw E f))" .
  have "stable s1 s2"
    using 2 c keepsD by (cases "b0 = None") (fastforce simp: calls_bind_def stable_refl)+
  with f(2) have s02: "stable s0 s2" by (rule stable_trans)
  from 3 obtain g s4 where g: "definition_of E k s2 = Inr (g, s4)"
    "(case DW_AT_type (e_dw E g) of None \<Rightarrow> ret ''c_uint'' | Some b \<Rightarrow> sbind (dieToType E n (Some b)) (\<lambda>t. type_pyName E t True)) s4
      = Inr (ty, s3)"
    by (auto simp: intType_def sbind_eq_Inr)
  have gf: "g = f" by (rule definition_again [OF f(1) s02 g(1)])
  have s4: "good E K B s4" "entry_of E k g" using stepsD [OF still_find(2) [OF w] B(2) g(1)] by auto
  show ?thesis
  proof (cases "DW_AT_type (e_dw E g)")
    case None
    have "List.member ctypes_names ''c_uint''" by code_simp
    then have "''c_uint'' \<in> B" using wholeD(2) [OF w] good_names [OF B(2)] by auto
    with None g(2) s4(1) B(1) show ?thesis by auto
  next
    case (Some b)
    with g(2) obtain t s5 where t: "dieToType E n (Some b) s4 = Inr (t, s5)" "type_pyName E t True s5 = Inr (ty, s3)"
      by (auto simp: sbind_eq_Inr)
    from stepsD [OF still_find(1) [OF w] s4(1) t(1)] have s5: "good E K B s5" "t = Obj (key_of E b)" by auto
    with t(2) obtain ob where ob: "heap s5 (key_of E b) = Some ob" "ty = obj_pyName E ob True" "s3 = s5"
      by (auto simp: type_pyName_def sbind_eq_Inr getobj_Inr)
    then have ok: "origin E (key_of E b) (ob_die ob) (ob_kind ob)" using s5(1) by (auto simp: good_def dest: objs_okD ok_origin)
    have v: "value_ok E (key_of E b)" using wholeD(7) [OF w o s4(2) Some] .
    with f(3) Some gf B(3) have n: "nameable E B (Some (Obj (key_of E b)))" by (simp add: settles_def)
    have "ty \<in> B"
    proof (cases "named (ob_kind ob)")
      case True
      from scopedD(1) [OF wholeD(1) [OF w] ok nameable_type [OF w Some n] True] show ?thesis by (simp add: ob(2) py_of)
    next
      case False
      with wholeD(8) [OF w o s4(2) Some ok] good_names [OF B(2)] show ?thesis by (auto simp: ob(2) py_of)
    qed
    with s5(1) B(1) ob(3) show ?thesis by blast
  qed
qed

lemma steps_define_enum:
  assumes w: "whole E K" and o: "origin E k i KEnum" and c: "calls_bind E K call"
  shows "steps E K A (define_enum E n call k) (\<lambda>_ B. scoped E B k)"
proof (rule stepsI)
  fix s u s' assume s: "good E K A s" and "define_enum E n call k s = Inr (u, s')"
  then obtain b0 s1 c0 s2 ty s3 where 1: "baseType E n k s = Inr (b0, s1)"
    and 2: "(if b0 \<noteq> None then call (DefineType b0) else ret True) s1 = Inr (c0, s2)" and 3: "intType E n k s2 = Inr (ty, s3)"
    and r: "sbind (getobj k) (\<lambda>ob. sbind (definition_of E k) (\<lambda>f.
       sbind (lift (enum_lines (e_dw E) (dieComment E ob) (children (e_dw E f)))) (\<lambda>ls.
       andthen (write_stmt k (SEnum (obj_pyName E ob True) ty (ob_nameless ob) ls))
       (andthen (if ob_nameless ob then forM (value_names ls) add_defined else ret ())
       (ret True))))) s3 = Inr (u, s')"
    by (auto simp: define_enum_def andthen_def sbind_eq_Inr)
  from int_type_bound [OF w o c s 1 2 3] obtain B where B: "A \<subseteq> B" "good E K B s3" "ty \<in> B" by blast
  have names: "steps E K C (forM ns add_defined) (\<lambda>_ _. True)" for C ns
    by (rule steps_each, rule steps_weaken [OF still_add(1)]) simp
  have "steps E K B (sbind (getobj k) (\<lambda>ob. sbind (definition_of E k) (\<lambda>f.
       sbind (lift (enum_lines (e_dw E) (dieComment E ob) (children (e_dw E f)))) (\<lambda>ls.
       andthen (write_stmt k (SEnum (obj_pyName E ob True) ty (ob_nameless ob) ls))
       (andthen (if ob_nameless ob then forM (value_names ls) add_defined else ret ())
       (ret True)))))) (\<lambda>_ B. scoped E B k)"
  proof (rule still_bind [OF still_getobj], rule still_bind [OF still_find(2) [OF w]], rule still_bind [where Q = "\<lambda>_. True"])
    fix ob f ls assume ob: "obj_ok E k ob \<and> obj_fine E K B k ob"
    show "still E K B (lift (enum_lines (e_dw E) (dieComment E ob) (children (e_dw E f)))) (\<lambda>_. True)" by (rule steps_lift) simp
    let ?x = "SEnum (obj_pyName E ob True) ty (ob_nameless ob) ls"
    from B(3) have "uses_only B ?x" by (simp add: uses_only_def)
    then show "steps E K B (andthen (write_stmt k ?x)
       (andthen (if ob_nameless ob then forM (value_names ls) add_defined else ret ()) (ret True))) (\<lambda>_ B. scoped E B k)"
    proof (rule steps_then [OF steps_write])
      fix C assume "C = B \<union> set (binds ?x)"
      then have "py_name E (ob_die ob) (ob_kind ob) \<in> C" by (simp add: binds_def py_of)
      moreover have "named (ob_kind ob)"
        using ob member_kind_of [OF w o] by (auto simp: named_def quals_def funcs_def)
      moreover have "origin E k (ob_die ob) (ob_kind ob)" using ob ok_origin by blast
      ultimately have C: "scoped E C k" by (intro u_named)
      show "steps E K C (andthen (if ob_nameless ob then forM (value_names ls) add_defined else ret ()) (ret True))
          (\<lambda>_ B. scoped E B k)"
      proof (rule steps_then [where Q = "\<lambda>_ _. True"])
        show "steps E K C (if ob_nameless ob then forM (value_names ls) add_defined else ret ()) (\<lambda>_ _. True)"
          by (intro steps_if names steps_ret TrueI)
        show "steps E K D (ret True) (\<lambda>_ B. scoped E B k)" if "C \<subseteq> D" for D
          by (rule steps_ret) (rule scoped_mono [OF C that])
      qed
    qed
  qed
  from stepsD [OF this B(2) r] B(1) show "\<exists>B. A \<subseteq> B \<and> good E K B s' \<and> scoped E B k" by blast
qed

lemma steps_define_pointer:
  assumes w: "whole E K" and o: "origin E k i KPointer" and c: "calls_bind E K call"
  shows "steps E K A (define_pointer E n call k) (\<lambda>_ B. scoped E B k)"
proof -
  have one: "entry_of E k f \<Longrightarrow> f = i" for f using orderlyD(3) [OF wholeD(1) [OF w] o plain_kinds(2)] .
  have deep: "still E K B (case b of Some (Obj kb) \<Rightarrow> sbind (definition_of E kb) (\<lambda>f.
      andthen (if DW_AT_declaration (e_dw E f) then ret () else add_defineTypes kb) (ret True)) | _ \<Rightarrow> ret True)
    (\<lambda>_. True)" for B b
    by (auto split: option.split tref.split simp del: ret_run
        intro!: still_bind [OF still_find(2) [OF w]] still_then still_add(2) steps_ret)
  show ?thesis
    unfolding define_pointer_def
  proof (rule still_bind [OF still_find(5) [OF w]], intro steps_if)
    fix v assume v: "\<exists>f. entry_of E k f \<and> isVoid (e_dw E) (DW_AT_type (e_dw E f)) = Inr v"
    show "steps E K A (ret True) (\<lambda>_ B. scoped E B k)" if "v"
      by (rule steps_ret) (use v one that o in \<open>auto intro: u_pointer\<close>)
    show "steps E K A (sbind (baseType E n k) (\<lambda>b.
       andthen (call (DeclareType b))
       (if e_deepInspect E then
          sbind (baseType E n k) (\<lambda>b. case b of Some (Obj kb) \<Rightarrow> sbind (definition_of E kb) (\<lambda>f.
              andthen (if DW_AT_declaration (e_dw E f) then ret () else add_defineTypes kb) (ret True))
          | _ \<Rightarrow> ret True)
        else ret True))) (\<lambda>_ B. scoped E B k)"
    proof (rule still_bind [OF still_find(3) [OF w]], rule steps_then [OF steps_declare [OF c]])
      fix b B assume "base_ref E k b" "nameable E B b"
      then have B: "scoped E B k" by (rule scoped_by_base [OF w o]) simp
      have "still E K B (if e_deepInspect E then
          sbind (baseType E n k) (\<lambda>b. case b of Some (Obj kb) \<Rightarrow> sbind (definition_of E kb) (\<lambda>f.
              andthen (if DW_AT_declaration (e_dw E f) then ret () else add_defineTypes kb) (ret True))
          | _ \<Rightarrow> ret True)
        else ret True) (\<lambda>_. True)"
        by (intro steps_if still_bind [OF still_find(3) [OF w] deep] steps_ret) simp
      then show "steps E K B (if e_deepInspect E then
          sbind (baseType E n k) (\<lambda>b. case b of Some (Obj kb) \<Rightarrow> sbind (definition_of E kb) (\<lambda>f.
              andthen (if DW_AT_declaration (e_dw E f) then ret () else add_defineTypes kb) (ret True))
          | _ \<Rightarrow> ret True)
        else ret True) (\<lambda>_ B. scoped E B k)"
        by (rule steps_weaken) (use B in simp)
    qed
  qed
qed

lemma steps_define_typedef:
  assumes w: "whole E K" and o: "origin E k i KTypedef" and c: "calls_bind E K call"
  shows "steps E K A (define_typedef E n call k) (\<lambda>_ B. scoped E B k)"
  unfolding define_typedef_def
proof (rule still_bind [OF still_find(3) [OF w]], rule steps_then [OF steps_declare [OF c]], rule steps_then [OF steps_declare [OF c]])
  fix B assume "nameable E B (Some (Obj k))"
  then have B: "scoped E B k" by (rule nameable_own [OF w o, rotated]) simp
  show "steps E K B (sbind (baseType E n k) (\<lambda>b. call (DefineType b))) (\<lambda>_ B. scoped E B k)"
    by (rule still_bind [OF still_find(3) [OF w]], rule steps_weaken [OF steps_define [OF c]]) (rule scoped_mono [OF B])
qed

lemma steps_define_function:
  assumes w: "whole E K" and o: "origin E k i kd" "List.member funcs kd" and c: "calls_bind E K call"
  shows "steps E K A (define_function E n call k) (\<lambda>_ B. kd \<noteq> KFunctionDef \<longrightarrow> scoped E B k)"
  unfolding define_function_def
proof (rule still_bind [OF still_find(3) [OF w]], rule steps_then)
  fix rtype assume rt: "base_ref E k rtype"
  show "steps E K A (if rtype \<noteq> None then call (DefineType rtype) else ret True) (\<lambda>b B. settles E b rtype \<longrightarrow> nameable E B rtype)"
    by (intro steps_if steps_define [OF c] steps_ret) (simp add: nameable_def)
  fix r B assume "settles E r rtype \<longrightarrow> nameable E B rtype"
  moreover have "settles E r rtype" if "kd \<noteq> KFunctionDef"
  proof -
    have kd: "kd = KFunction" using that o(2) by (simp add: funcs_def)
    from plain_base [OF w o(1) _ rt] wholeD(5) [OF w] o(1) plain_kinds(3) kd show ?thesis by (auto simp: settles_def)
  qed
  ultimately have ret: "kd \<noteq> KFunctionDef \<Longrightarrow> nameable E B rtype" by blast
  show "steps E K B (sbind (getobj k) (\<lambda>ob. andthen (forM (params E (ob_die ob)) (\<lambda>child.
         sbind (dieToType E n (DW_AT_type (e_dw E child))) (\<lambda>t.
         andthen (call (DefineType (Some t))) (ret ())))) (ret True))) (\<lambda>_ B. kd \<noteq> KFunctionDef \<longrightarrow> scoped E B k)"
  proof (rule still_bind [OF still_getobj])
    fix ob assume "obj_ok E k ob \<and> obj_fine E K B k ob"
    then have ob: "origin E k (ob_die ob) kd" using ok_origin member_kind_of [OF w o(1)] by metis
    let ?Q = "\<lambda>p C. kd \<noteq> KFunctionDef \<longrightarrow> (\<exists>t. DW_AT_type (e_dw E p) = Some t \<and> scoped E C (key_of E t))"
    have "steps E K B (forM (params E (ob_die ob)) (\<lambda>child.
         sbind (dieToType E n (DW_AT_type (e_dw E child))) (\<lambda>t.
         andthen (call (DefineType (Some t))) (ret ())))) (\<lambda>_ C. \<forall>p \<in> set (params E (ob_die ob)). ?Q p C)"
    proof (rule steps_forM)
      fix p C assume p: "p \<in> set (params E (ob_die ob))"
      show "steps E K C (sbind (dieToType E n (DW_AT_type (e_dw E p))) (\<lambda>t. andthen (call (DefineType (Some t))) (ret ())))
          (\<lambda>_. ?Q p)"
      proof (rule still_bind [OF still_find(1) [OF w]], rule steps_then [OF steps_define [OF c]], rule steps_ret, rule impI)
        fix t b C' assume t: "t = ref_of E (DW_AT_type (e_dw E p))" and n: "settles E b (Some t) \<longrightarrow> nameable E C' (Some t)"
          and kd: "kd \<noteq> KFunctionDef"
        then have "kd = KFunction" using o(2) by (simp add: funcs_def)
        with wholeD(6) [OF w] ob p obtain u where u: "DW_AT_type (e_dw E p) = Some u" "value_ok E (key_of E u)" by blast
        with n t have "nameable E C' (Some (Obj (key_of E u)))" by (simp add: settles_def)
        with nameable_type [OF w u(1)] u(1) show "\<exists>t. DW_AT_type (e_dw E p) = Some t \<and> scoped E C' (key_of E t)" by blast
      qed
    qed (use scoped_mono in blast)
    then show "steps E K B (andthen (forM (params E (ob_die ob)) (\<lambda>child.
         sbind (dieToType E n (DW_AT_type (e_dw E child))) (\<lambda>t.
         andthen (call (DefineType (Some t))) (ret ())))) (ret True)) (\<lambda>_ B. kd \<noteq> KFunctionDef \<longrightarrow> scoped E B k)"
    proof (rule steps_then, intro steps_ret impI)
      fix C assume C: "B \<subseteq> C" "\<forall>p \<in> set (params E (ob_die ob)). ?Q p C" and kd: "kd \<noteq> KFunctionDef"
      then have f: "kd = KFunction" using o(2) by (simp add: funcs_def)
      have "scoped E C (key_of E d)" if d: "DW_AT_type (e_dw E (ob_die ob)) = Some d" for d
      proof -
        have "rtype = Some (Obj (key_of E d))" using plain_base [OF w ob _ rt] d plain_kinds(3) f by simp
        with nameable_mono [OF ret [OF kd] C(1)] nameable_type [OF w d] show ?thesis by simp
      qed
      with C(2) kd ob f show "scoped E C k" by (intro u_function) auto
    qed
  qed
qed

lemma steps_define_base:
  assumes w: "whole E K" and o: "origin E k i kd" "List.member (KArray # quals) kd" and c: "calls_bind E K call"
    and v: "List.member quals kd \<longrightarrow> not_void E k"
  shows "steps E K A (sbind (baseType E n k) (\<lambda>b. call (DefineType b))) (\<lambda>b B. b \<or> value_ok E k \<longrightarrow> scoped E B k)"
proof (rule still_bind [OF still_find(3) [OF w]], rule steps_weaken [OF steps_define [OF c]], rule impI)
  fix t b B assume t: "base_ref E k t" and n: "settles E b t \<longrightarrow> nameable E B t" and b: "b \<or> value_ok E k"
  have pl: "anonymous kd" using o(2) plain_kinds by auto
  have "settles E b t"
  proof (cases "DW_AT_type (e_dw E i)")
    case None
    with plain_base [OF w o(1) pl t] show ?thesis by (simp add: settles_def)
  next
    case (Some d)
    have "value_ok E (key_of E d) \<or> b \<and> not_void E (key_of E d)"
    proof (cases "kd = KArray")
      case True
      with wholeD(4) [OF w] o(1) Some show ?thesis by blast
    next
      case False
      with o(2) v have q: "List.member quals kd" "not_void E k" by auto
      from base_not_void_key [OF wholeD(1) [OF w] o(1) q(1) Some q(2)] have "not_void E (key_of E d)" .
      moreover have "value_ok E (key_of E d)" if "value_ok E k"
        using that
      proof cases
        case (vo_base j kj b')
        then have "kj = kd" using orderlyD(1) [OF wholeD(1) [OF w] o(1)] by blast
        with vo_base orderlyD(4) [OF wholeD(1) [OF w] o(1) pl] Some show ?thesis by auto
      next
        case (vo_plain j kj)
        then have "kj = kd" using orderlyD(1) [OF wholeD(1) [OF w] o(1)] by blast
        with vo_plain o(2) show ?thesis by auto
      next
        case (vo_members j kj)
        then have "kj = kd" using orderlyD(1) [OF wholeD(1) [OF w] o(1)] by blast
        with vo_members q show ?thesis by (auto simp: quals_def is_member_kind_def)
      qed
      ultimately show ?thesis using b by blast
    qed
    with plain_base [OF w o(1) pl t] Some show ?thesis by (simp add: settles_def)
  qed
  with n have "nameable E B t" by blast
  then show "scoped E B k" by (rule scoped_by_base [OF w o(1) t]) (use o(2) in auto)
qed

lemma steps_define_obj:
  assumes w: "whole E K" and o: "origin E k i kd" and c: "calls_bind E K call" and v: "List.member quals kd \<longrightarrow> not_void E k"
  shows "steps E K A (define_obj E n call k kd) (\<lambda>b B. kd \<noteq> KFunctionDef \<longrightarrow> b \<or> value_ok E k \<longrightarrow> scoped E B k)"
proof -
  let ?Q = "\<lambda>b B. kd \<noteq> KFunctionDef \<longrightarrow> b \<or> value_ok E k \<longrightarrow> scoped E B k"
  have ret: "steps E K A (ret True) ?Q" if "kd = KPrim \<or> is_external kd"
    by (rule steps_names, rule steps_ret) (use scoped_always [OF w _ o that] in blast)
  have always: "steps E K A m ?Q" if "steps E K A m (\<lambda>_ B. scoped E B k)" for m
    using that by (rule steps_weaken) blast
  have maybe: "steps E K A m ?Q" if "steps E K A m (\<lambda>b B. b \<or> value_ok E k \<longrightarrow> scoped E B k)" for m
    using that by (rule steps_weaken) blast
  have fn: "steps E K A (define_function E n call k) ?Q" if "List.member funcs kd"
    by (rule steps_weaken [OF steps_define_function [OF w o that c]]) blast
  have base: "steps E K A (sbind (baseType E n k) (\<lambda>b. call (DefineType b))) ?Q" if "List.member (KArray # quals) kd"
    by (rule maybe [OF steps_define_base [OF w o that c v]])
  show ?thesis
  proof (cases kd)
    case KTypedef
    with always [OF steps_define_typedef [OF w _ c]] o show ?thesis by (simp add: define_obj_def)
  next
    case KPointer
    with always [OF steps_define_pointer [OF w _ c]] o show ?thesis by (simp add: define_obj_def)
  next
    case KEnum
    with always [OF steps_define_enum [OF w _ c]] o show ?thesis by (simp add: define_obj_def)
  next
    case KStruct
    with maybe [OF steps_define_struct(1) [OF w o _ c]] show ?thesis by (simp add: define_obj_def is_member_kind_def)
  next
    case KUnion
    with maybe [OF steps_define_struct(2) [OF w o _ c]] show ?thesis by (simp add: define_obj_def is_member_kind_def)
  qed (use ret fn base in \<open>auto simp: define_obj_def is_external_def funcs_def quals_def simp del: ret_run\<close>)
qed

lemma steps_defineType:
  assumes w: "whole E K" and c: "calls_bind E K call"
  shows "steps E K A (defineType E n call t) (\<lambda>b B. settles E b t \<longrightarrow> nameable E B t)"
proof (cases "\<exists>k. t = Some (Obj k)")
  case True
  then obtain k where t: "t = Some (Obj k)" by blast
  let ?Q = "\<lambda>b B. settles E b (Some (Obj k)) \<longrightarrow> nameable E B (Some (Obj k))"
  show ?thesis
    unfolding defineType_def t option.case tref.case
  proof (rule still_bind [OF still_getobj], intro steps_if)
    fix ob assume ob: "obj_ok E k ob \<and> obj_fine E K A k ob"
    show "steps E K A (ret True) ?Q" if "ob_defined ob"
      by (rule steps_ret) (use obj_nameable [OF ob] that in blast)
    have o: "origin E k (ob_die ob) (ob_kind ob)" using ob ok_origin by blast
    have void: "still E K A (lift (isVoid (e_dw E) (Some f))) (\<lambda>v. isVoid (e_dw E) (Some f) = Inr v)" for f
      by (rule steps_lift) simp
    show "steps E K A (sbind (definition_of E k) (\<lambda>f. sbind (lift (isVoid (e_dw E) (Some f))) (\<lambda>v.
            if v then
              andthen (errorfunc (obj_name E ob True @ '' is '' @ quoted ''void''
                @ '' - cannot output definition'')) (ret True)
            else
              sbind (define_obj E n call k (ob_kind ob)) (\<lambda>b.
              andthen (updobj k (\<lambda>ob. ob\<lparr>ob_defined := b\<rparr>))
              (sbind (getobj k) (\<lambda>ob.
              andthen (if b then add_defined (obj_pyName E ob True) else ret ())
              (ret b))))))) ?Q"
    proof (rule still_bind [OF still_find(2) [OF w]], rule still_bind [OF void], intro steps_if)
      fix f v assume f: "entry_of E k f" and v: "isVoid (e_dw E) (Some f) = Inr v"
      have "\<not> settles E True (Some (Obj k))" if v
        using value_not_void [OF wholeD(1) [OF w], of k] v f that by (auto simp: settles_def not_void_def)
      then show "steps E K A (andthen (errorfunc (obj_name E ob True @ '' is '' @ quoted ''void''
                @ '' - cannot output definition'')) (ret True)) ?Q" if v
        using that by (intro still_then [OF still_error] steps_ret) blast
      assume "\<not> v"
      have nv: "List.member quals (ob_kind ob) \<longrightarrow> not_void E k"
        using v \<open>\<not> v\<close> f orderlyD(3) [OF wholeD(1) [OF w] o] plain_kinds(4) unfolding not_void_def by metis
      show "steps E K A (sbind (define_obj E n call k (ob_kind ob)) (\<lambda>b.
              andthen (updobj k (\<lambda>ob. ob\<lparr>ob_defined := b\<rparr>))
              (sbind (getobj k) (\<lambda>ob.
              andthen (if b then add_defined (obj_pyName E ob True) else ret ())
              (ret b))))) ?Q"
      proof (rule steps_bind [OF steps_define_obj [OF w o c nv]], rule still_then)
        fix b B assume b: "ob_kind ob \<noteq> KFunctionDef \<longrightarrow> b \<or> value_ok E k \<longrightarrow> scoped E B k"
        show "still E K B (updobj k (\<lambda>ob. ob\<lparr>ob_defined := b\<rparr>)) (\<lambda>_. True)"
          by (rule still_updobj, rule fine_mark(2) [OF w o]) (use b in simp_all)
        have "?Q b B" using b o by (auto simp: settles_def intro!: nameableI)
        then show "steps E K B (sbind (getobj k) (\<lambda>ob.
              andthen (if b then add_defined (obj_pyName E ob True) else ret ()) (ret b))) ?Q"
          by (intro still_bind [OF still_getobj] still_then [where Q = "\<lambda>_. True"] steps_if steps_ret still_add(1)) auto
      qed
    qed
  qed
next
  case False
  then have "defineType E n call t = ret True" "nameable E B t" for B
    by (auto simp: defineType_def nameable_def split: option.split tref.split)
  then show ?thesis by (simp only:) (rule steps_ret, simp)
qed

lemma run_binds:
  assumes w: "whole E K"
  shows "calls_bind E K (\<lambda>c. run E n c)"
proof (induction n)
  case 0
  show ?case unfolding calls_bind_def by (intro conjI allI stab.keeps_run) (simp_all only: run.simps steps_raise)
next
  case (Suc n)
  show ?case
    unfolding calls_bind_def
  proof (intro conjI allI stab.keeps_run)
    fix t A
    show "steps E K A (run E (Suc n) (DeclareType t)) (\<lambda>_ B. nameable E B t)"
      unfolding run.simps step_def callee.case
      by (rule steps_then [OF steps_declareType [OF w Suc]], rule steps_ret)
    show "steps E K A (run E (Suc n) (DefineType t)) (\<lambda>b B. settles E b t \<longrightarrow> nameable E B t)"
      unfolding run.simps step_def callee.case by (rule steps_defineType [OF w Suc])
  qed
qed

end
