(* ===== verification/BoundModule.thy ===== *)
theory BoundModule
  imports BoundDefine
begin

text \<open>
  The whole of the module: the collection of the types keeps the state good, and so does the writer.
\<close>

section \<open>The writer\<close>

lemma steps_run: "whole E K \<Longrightarrow> steps E K A (run E n (DefineType t)) (\<lambda>_ _. True)"
  by (rule steps_weaken [OF steps_define [OF run_binds]]) simp_all

lemma steps_not_found: "steps E K A (not_found what name) (\<lambda>_ _. True)"
  unfolding not_found_def
  by (auto split: list.split intro: steps_raise steps_weaken [OF still_error])

lemma steps_define_variables:
  assumes w: "whole E K"
  shows "steps E K A (define_variables E n) (\<lambda>_ _. True)"
proof -
  have one: "steps E K B (case p of (name, die) \<Rightarrow> case die of None \<Rightarrow> not_found ''variable'' name
      | Some d \<Rightarrow> sbind (dieToType E n (DW_AT_type (e_dw E d))) (\<lambda>t. andthen (run E n (DefineType (Some t))) (ret ())))
      (\<lambda>_ _. True)" for B p
    unfolding split_beta
    by (intro steps_option steps_not_found still_bind [OF still_find(1) [OF w]] steps_then [OF steps_run [OF w]] steps_ret TrueI)
  show ?thesis
    unfolding define_variables_def
    by (rule still_bind [OF still_gets [where Q = "\<lambda>_. True"]], rule TrueI, rule steps_each, rule one)
qed

lemma steps_any_obj:
  assumes w: "whole E K" and o: "origin E k i kd" and c: "calls_bind E K call"
  shows "steps E K A (define_obj E n call k kd) (\<lambda>_ _. True)"
proof (cases "List.member quals kd")
  case True
  have "steps E K A (sbind (baseType E n k) (\<lambda>b. call (DefineType b))) (\<lambda>_ _. True)"
    by (rule still_bind [OF still_find(3) [OF w]], rule steps_weaken [OF steps_define [OF c]]) simp
  with True show ?thesis by (auto simp: define_obj_def quals_def)
next
  case False
  show ?thesis by (rule steps_weaken [OF steps_define_obj [OF w o c]]) (use False in simp_all)
qed

lemma steps_define_functions:
  assumes w: "whole E K"
  shows "steps E K A (define_functions E n) (\<lambda>_ _. True)"
proof -
  have one: "steps E K B (case t of VoidType \<Rightarrow> ret () | Obj k \<Rightarrow>
      sbind (getobj k) (\<lambda>ob. andthen (define_obj E n (\<lambda>c. run E n c) k (ob_kind ob)) (ret ()))) (\<lambda>_ _. True)" for B t
  proof (cases t)
    case (Obj k)
    have "steps E K B (andthen (define_obj E n (\<lambda>c. run E n c) k (ob_kind ob)) (ret ())) (\<lambda>_ _. True)"
      if "obj_ok E k ob" for ob
      by (intro steps_then [OF steps_any_obj [OF w ok_origin [OF that] run_binds [OF w]]] steps_ret TrueI)
    then show ?thesis unfolding Obj tref.case by (intro still_bind [OF still_getobj]) blast
  qed (simp add: steps_ret del: ret_run)
  have each: "steps E K B (case p of (name, die) \<Rightarrow> case die of None \<Rightarrow> not_found ''function'' name
      | Some d \<Rightarrow> sbind (dieToType E n (Some d)) (\<lambda>t. case t of VoidType \<Rightarrow> ret () | Obj k \<Rightarrow>
          sbind (getobj k) (\<lambda>ob. andthen (define_obj E n (\<lambda>c. run E n c) k (ob_kind ob)) (ret ())))) (\<lambda>_ _. True)" for B p
    unfolding split_beta
    by (intro steps_option steps_not_found still_bind [OF still_find(1) [OF w]] one)
  show ?thesis
    unfolding define_functions_def
    by (rule still_bind [OF still_gets [where Q = "\<lambda>_. True"]], rule TrueI, rule steps_each, rule each)
qed

lemma steps_define_types: "whole E K \<Longrightarrow> steps E K A (define_types E n) (\<lambda>_ _. True)"
proof (induction n arbitrary: A)
  case 0
  show ?case unfolding define_types.simps by (rule steps_raise)
next
  case (Suc n)
  have reset: "still E K A (modify (\<lambda>s. s\<lparr>defineTypes := []\<rparr>)) (\<lambda>_. True)" by (rule still_modify) simp_all
  have one: "steps E K B (define_one E n k) (\<lambda>_ _. True)" for B k
    unfolding define_one_def by (intro steps_then [OF steps_run [OF Suc.prems]] steps_ret TrueI)
  show ?case
    unfolding define_types.simps
    by (intro still_bind [OF still_gets [where Q = "\<lambda>_. True"]] still_then [OF reset] steps_if steps_ret
        steps_then [OF steps_each [OF one]] Suc.IH [OF Suc.prems] TrueI)
qed

text \<open>The statements of a module only use names that are bound where they stand.\<close>

lemma write_bound:
  assumes w: "whole E K" and s: "good E K A s" and r: "write_module E H n s = Inr (md, s')"
  shows "bound_before K (md_body md)"
proof -
  note q = quiet.keeps_rules quiet.keeps_ctype quiet.keeps_more
  from r obtain s1 s2 s3 where 1: "define_variables E n s = Inr ((), s1)" "define_functions E n s1 = Inr ((), s2)"
    "define_types E n s2 = Inr ((), s3)" and rest: "sbind (hint_aliases E n) (\<lambda>aliases.
       sbind (gets (tag_aliases E)) (\<lambda>tags. sbind (write_globals E n) (\<lambda>globals.
       sbind (write_functions E H n) (\<lambda>(ups, protos). sbind (gets out) (\<lambda>body.
       ret \<lparr>md_imports = import_names E H, md_body = body, md_hint_aliases = aliases, md_tag_aliases = tags,
          md_globals = globals, md_updates = ups, md_protos = sort protos\<rparr>))))) s3 = Inr (md, s')"
    by (auto simp: write_module_def andthen_def sbind_eq_Inr)
  from stepsD [OF steps_define_variables [OF w] s 1(1)] obtain B where "good E K B s1" by blast
  from stepsD [OF steps_define_functions [OF w] this 1(2)] obtain C where "good E K C s2" by blast
  from stepsD [OF steps_define_types [OF w] this 1(3)] obtain D where D: "good E K D s3" by blast
  have "keeps quiet (hint_aliases E n)" unfolding hint_aliases_def by (intro q)
  moreover have "keeps quiet (write_globals E n)" unfolding write_globals_def by (intro q)
  moreover have "keeps quiet (writeLibUpdates E H n k)" for k
    unfolding writeLibUpdates_def lib_update_def by (intro q)
  then have "keeps quiet (write_functions E H n)" unfolding write_functions_def by (intro q)
  ultimately have "keeps quiet (sbind (hint_aliases E n) (\<lambda>aliases.
       sbind (gets (tag_aliases E)) (\<lambda>tags. sbind (write_globals E n) (\<lambda>globals.
       sbind (write_functions E H n) (\<lambda>(ups, protos). sbind (gets out) (\<lambda>body.
       ret \<lparr>md_imports = import_names E H, md_body = body, md_hint_aliases = aliases, md_tag_aliases = tags,
          md_globals = globals, md_updates = ups, md_protos = sort protos\<rparr>))))))" by (intro q)
  from quietD(1) [OF keepsD [OF this rest]] have "out s' = out s3" .
  moreover have "md_body md = out s'" using rest by (auto simp: sbind_eq_Inr)
  ultimately show ?thesis using D by (simp add: good_def)
qed

section \<open>The collection of types\<close>

definition request_ok :: "env \<Rightarrow> string set \<Rightarrow> request \<Rightarrow> bool" where
  "request_ok E K q \<longleftrightarrow> (\<forall>p \<in> set (hintsByTypename (q_types q)). spec_ok K (snd p))
     \<and> (\<forall>d h. typesFilter E q d = TakeHinted h \<longrightarrow> spec_ok K h)"

lemma still_applyHint: "spec_ok K h \<Longrightarrow> still E K A (applyHintToType h t) (\<lambda>_. True)"
  unfolding applyHintToType_def
proof (rule still_modify, simp)
  fix s assume h: "spec_ok K h" and s: "specs_ok K [] (applyHints s)"
  have "set (dict_set t h (applyHints s)) \<subseteq> insert (t, h) (set (applyHints s))" by (rule dict_set_subset)
  with h s show "specs_ok K [] (applyHints (s\<lparr>allHintedTypes := dict_set t h (allHintedTypes s),
      applyHints := dict_set t h (applyHints s)\<rparr>))" by (auto simp: specs_ok_def)
qed

lemma still_add_type:
  assumes w: "whole E K" and q: "request_ok E K q"
  shows "still E K A (add_type E q n d) (\<lambda>_. True)"
proof -
  have v: "still E K A (case typesFilter E q d of TakeHinted h \<Rightarrow> applyHintToType h t | _ \<Rightarrow> ret ()) (\<lambda>_. True)" for t
  proof (cases "typesFilter E q d")
    case (TakeHinted h)
    show ?thesis unfolding TakeHinted verdict.case
      by (rule still_applyHint) (use TakeHinted q in \<open>auto simp: request_ok_def\<close>)
  qed (simp_all only: verdict.case, (rule steps_ret, simp)+)
  have t: "still E K A (case t of Obj k \<Rightarrow> add_defineTypes k | VoidType \<Rightarrow> ret ()) (\<lambda>_. True)" for t
    by (cases t) (simp_all only: tref.case still_add, rule steps_ret, simp)
  show ?thesis
    unfolding add_type_def
    by (intro steps_if still_bind [OF still_find(1) [OF w]] still_then [OF v] t) (rule steps_ret, simp)
qed

lemma still_examine:
  assumes w: "whole E K" and q: "request_ok E K q"
  shows "still E K A (examineDIE E q n d) (\<lambda>_. True)"
proof -
  have prod: "still E K A (add_producer p) (\<lambda>_. True)" for p
    unfolding add_producer_def by (rule still_modify) simp_all
  show ?thesis
    unfolding examineDIE_def Let_def
    by (intro steps_if still_then [where Q = "\<lambda>_. True"] steps_option prod still_add_type [OF w q] steps_ret still_modify conjI refl TrueI)
      auto
qed

lemma still_enumerate:
  assumes w: "whole E K" and q: "request_ok E K q"
  shows "still E K A (enumerateDIEs E q n d) (\<lambda>_. True)"
proof (induction n arbitrary: d)
  case 0
  show ?case unfolding enumerateDIEs.simps by (rule steps_raise)
next
  case (Suc n)
  show ?case
    unfolding enumerateDIEs.simps
    by (intro still_bind [OF still_examine [OF w q]] steps_if still_forM Suc.IH) (rule steps_ret, simp)
qed

lemma spec_okD:
  assumes "spec_ok K spec"
  shows "py_base spec = Some b \<Longrightarrow> b \<in> K" and "py_mixins spec = Some ms \<Longrightarrow> set ms \<subseteq> K"
    and "map_of (fieldHints spec) nm = Some h \<Longrightarrow> truthy (typeOverride h) = Some c \<Longrightarrow> evaluable K c"
    and "map_of (fieldHints spec) nm = Some h \<Longrightarrow> hint_typename h = Some t \<Longrightarrow> spec_ok K t"
  using assms by (auto elim: spec_ok.cases)

lemma still_hint_member:
  assumes w: "whole E K" and s: "spec_ok K spec" and m: "\<And>c. ctypeOverride m = Some c \<Longrightarrow> evaluable K c"
  shows "still E K A (hint_member E n (fieldHints spec) m)
    (\<lambda>m'. m_die m' = m_die m \<and> (\<forall>c. ctypeOverride m' = Some c \<longrightarrow> evaluable K c))"
  unfolding hint_member_def
proof (intro steps_option)
  show "still E K A (ret m) (\<lambda>m'. m_die m' = m_die m \<and> (\<forall>c. ctypeOverride m' = Some c \<longrightarrow> evaluable K c))"
    by (rule steps_ret) (use m in simp)
  fix h assume "(case member_name (e_dw E) m of None \<Rightarrow> None | Some nm \<Rightarrow> map_of (fieldHints spec) nm) = Some h"
  then obtain nm where h: "map_of (fieldHints spec) nm = Some h" by (auto split: option.splits)
  have t: "still E K A (case hint_typename h of None \<Rightarrow> ret ()
      | Some t \<Rightarrow> sbind (dieToType E n (DW_AT_type (e_dw E (m_die m)))) (applyHintToType t)) (\<lambda>_. True)"
  proof (intro steps_option)
    show "still E K A (ret ()) (\<lambda>_. True)" by (rule steps_ret) simp
    fix t assume "hint_typename h = Some t"
    with spec_okD(4) [OF s h] show "still E K A (sbind (dieToType E n (DW_AT_type (e_dw E (m_die m)))) (applyHintToType t)) (\<lambda>_. True)"
      by (intro still_bind [OF still_find(1) [OF w]] still_applyHint)
  qed
  show "still E K A (andthen (case hint_typename h of None \<Rightarrow> ret ()
      | Some t \<Rightarrow> sbind (dieToType E n (DW_AT_type (e_dw E (m_die m)))) (applyHintToType t))
      (let m = (case truthy (hint_name h) of Some nm \<Rightarrow> m\<lparr>m_name := Some nm\<rparr> | None \<Rightarrow> m);
           m = (case truthy (typeOverride h) of Some c \<Rightarrow> setCType c m | None \<Rightarrow> m)
       in ret (m\<lparr>allowUnalignedPtr := allowUnaligned h\<rparr>)))
    (\<lambda>m'. m_die m' = m_die m \<and> (\<forall>c. ctypeOverride m' = Some c \<longrightarrow> evaluable K c))"
    unfolding Let_def
    by (rule still_then [OF t], rule steps_ret)
      (use m spec_okD(3) [OF s h] in \<open>auto simp: setCType_def split: option.split\<close>)
qed

lemma still_hint_members:
  assumes w: "whole E K" and s: "spec_ok K spec"
  shows "still E K A (hint_members E n k spec) (\<lambda>_. True)"
  unfolding hint_members_def
proof (rule still_then [OF still_findMembers [OF w]], rule still_then [OF still_updobj], intro conjI)
  let ?f = "\<lambda>ob. ob\<lparr>ob_packed := pack spec,
        ob_base := (case py_base spec of Some b \<Rightarrow> b | None \<Rightarrow> ob_base ob),
        ob_mixins := (case py_mixins spec of Some ms \<Rightarrow> ms | None \<Rightarrow> ob_mixins ob),
        ob_unalignedPtrs := unalignedPtrs spec\<rparr>"
  fix ob assume ob: "obj_ok E k ob" "obj_fine E K A k ob"
  show "obj_ok E k (?f ob)" using ob(1) by (simp add: obj_ok_def)
  show "obj_fine E K A k (?f ob)"
    using ob(2) spec_okD(1,2) [OF s] by (auto simp: obj_fine_def own_names_def split: option.split)
next
  let ?P = "\<lambda>ms. (\<forall>m \<in> set ms. member_of E k (m_die m)) \<and> overrides_ok K ms"
  show "still E K A (sbind (getobj k) (\<lambda>ob.
     sbind (foldM (\<lambda>ms m. sbind (hint_member E n (fieldHints spec) m) (\<lambda>m. ret (ms @ [m]))) [] (ob_members ob)) (\<lambda>ms.
     updobj k (\<lambda>ob. ob\<lparr>ob_members := ms\<rparr>)))) (\<lambda>_. True)"
  proof (rule still_bind [OF still_getobj], rule still_bind [OF still_foldM [where P = ?P]])
    fix ob ms m assume ob: "obj_ok E k ob \<and> obj_fine E K A k ob" and ms: "?P ms" and m: "m \<in> set (ob_members ob)"
    then have "member_of E k (m_die m)" "\<And>c. ctypeOverride m = Some c \<Longrightarrow> evaluable K c"
      by (auto simp: obj_ok_def obj_fine_def own_names_def)
    with ms show "still E K A (sbind (hint_member E n (fieldHints spec) m) (\<lambda>m. ret (ms @ [m]))) ?P"
      by (intro still_bind [OF still_hint_member [OF w s]] steps_ret) auto
  next
    fix ms assume "?P ms"
    then show "still E K A (updobj k (\<lambda>ob. ob\<lparr>ob_members := ms\<rparr>)) (\<lambda>_. True)"
      by (intro still_updobj) (auto simp: obj_ok_def obj_fine_def own_names_def)
  qed simp
qed

lemma still_apply_hints:
  assumes w: "whole E K" and s: "spec_ok K spec"
  shows "still E K A (apply_hints E n t spec) (\<lambda>_. True)"
proof (induction n arbitrary: t)
  case 0
  show ?case unfolding apply_hints.simps by (rule steps_raise)
next
  case (Suc n)
  show ?case
  proof (cases t)
    case VoidType
    then show ?thesis by (simp only: apply_hints.simps) (rule steps_ret, simp)
  next
    case (Obj k)
    have nameless: "still E K A (updobj k (\<lambda>ob. ob\<lparr>ob_nameless := b\<rparr>)) (\<lambda>_. True)" for b
      by (rule still_updobj) (auto simp: obj_ok_def obj_fine_def own_names_def)
    show ?thesis
      unfolding Obj apply_hints.simps
      by (intro still_bind [OF still_getobj] steps_if still_hint_members [OF w s] steps_option nameless
          still_bind [OF still_find(3) [OF w]] Suc.IH steps_ret conjI refl TrueI)
  qed
qed

lemma still_all_hints:
  assumes w: "whole E K"
  shows "still E K A (apply_all_hints E n) (\<lambda>_. True)"
proof (induction n)
  case 0
  show ?case unfolding apply_all_hints.simps by (rule steps_raise)
next
  case (Suc n)
  have get: "still E K A (gets applyHints) (\<lambda>hs. \<forall>p \<in> set hs. spec_ok K (snd p))"
    by (rule still_gets) (simp add: good_def objs_ok_def specs_ok_def)
  have clear: "still E K A (modify (\<lambda>s. s\<lparr>applyHints := []\<rparr>)) (\<lambda>_. True)"
    by (rule still_modify) (simp_all add: specs_ok_def)
  show ?case
    unfolding apply_all_hints.simps
  proof (rule still_bind [OF get], intro steps_if, (rule steps_ret, simp), rule still_then [OF clear], rule still_then)
    fix hs :: "(tref \<times> pytype) list" assume hs: "\<forall>p \<in> set hs. spec_ok K (snd p)"
    have "still E K A (case p of (typ, hint) \<Rightarrow> apply_hints E n typ hint) (\<lambda>_. True)" if "p \<in> set hs" for p
      unfolding split_beta by (rule still_apply_hints [OF w]) (use hs that in blast)
    then show "still E K A (forM hs (\<lambda>(typ, hint). apply_hints E n typ hint)) (\<lambda>_. True)" by (rule still_forM)
    show "still E K A (apply_all_hints E n) (\<lambda>_. True)" by (rule Suc.IH)
  qed
qed

lemma good_start: "good E K K (start_state q)"
  by (simp add: good_def start_state_def rstate0_def objs_ok_def specs_ok_def)

lemma init_good:
  assumes w: "whole E K" and q: "request_ok E K q" and r: "init_resolver E q n s = Inr (u, s')"
  shows "good E K K s'"
proof -
  have reg: "still E K K (register_hint p) (\<lambda>_. True)" if "p \<in> set (hintsByTypename (q_types q))" for p
  proof -
    have h: "still E K K (applyHintToType (snd p) t) (\<lambda>_. True)" for t
      by (rule still_applyHint) (use q that in \<open>auto simp: request_ok_def\<close>)
    show ?thesis
      unfolding register_hint_def split_beta
      by (intro still_bind [OF still_gets [where Q = "\<lambda>_. True"]] steps_if still_error still_forM h TrueI steps_ret conjI refl)
  qed
  have "still E K K (andthen (forM (q_roots q) (enumerateDIEs E q n))
     (andthen (forM (hintsByTypename (q_types q)) register_hint) (apply_all_hints E n))) (\<lambda>_. True)"
    by (intro still_then [OF still_forM] still_enumerate [OF w q] reg still_all_hints [OF w])
  from stepsD [OF this good_start] r show ?thesis by (auto simp: init_resolver_def andthen_def)
qed

end
