(* ===== verification/BoundLoading.thy ===== *)
theory BoundLoading
  imports BoundModule
begin

text \<open>
  Executing a module whose statements only use names that are bound before: Python raises no
  \<open>NameError\<close>.
\<close>

section \<open>Names while a module is loaded\<close>

abbreviation name_error :: pyexn where "name_error \<equiv> PyException ''NameError''"

definition ns_dom :: "loadstate \<Rightarrow> string set" where
  "ns_dom st = {nm. ns_names st nm \<noteq> None}"

text \<open>Python raises \<open>NameError\<close> only for a name that is not bound, and \<open>ctypes\<close> raises none when it
  lays out a class or an attribute is set.\<close>

definition names_only :: "python \<Rightarrow> bool" where
  "names_only P \<longleftrightarrow>
     (\<forall>st t. evaluable (ns_dom st) t \<longrightarrow> ct_value P st t \<noteq> Inl name_error \<and> ct_type P st t \<noteq> Inl name_error)
     \<and> (\<forall>base size align pack rs. ct_layout P base size align pack rs \<noteq> Inl name_error)
     \<and> (\<forall>st py. ct_setattr P st py \<noteq> Inl name_error)"

text \<open>A step from names \<open>A\<close> to names \<open>B\<close>, without \<open>NameError\<close>.\<close>

definition runs_to :: "string set \<Rightarrow> loadstate res \<Rightarrow> bool" where
  "runs_to B r \<longleftrightarrow> r \<noteq> Inl name_error \<and> (\<forall>st'. r = Inr st' \<longrightarrow> B \<subseteq> ns_dom st')"

lemma runs_toI: "r \<noteq> Inl name_error \<Longrightarrow> (\<And>st'. r = Inr st' \<Longrightarrow> B \<subseteq> ns_dom st') \<Longrightarrow> runs_to B r"
  by (simp add: runs_to_def)

lemma runs_to_bnd: "r \<noteq> Inl name_error \<Longrightarrow> (\<And>x. r = Inr x \<Longrightarrow> runs_to B (f x)) \<Longrightarrow> runs_to B (bnd r f)"
  by (cases r) (auto simp: runs_to_def)

lemma map_res_name:
  "map_res f xs = Inl name_error \<Longrightarrow> \<exists>x \<in> set xs. f x = Inl name_error"
  by (induction xs) (auto simp: bnd_def split: sum.splits)

lemma set_attr_runs:
  assumes "A \<subseteq> ns_dom st" and "py \<in> A" and "names_only P" and "\<And>c. f c \<noteq> Inl name_error"
  shows "runs_to A (set_attr P py f st)"
proof -
  obtain v where v: "ns_names st py = Some v" using assms(1,2) by (auto simp: ns_dom_def)
  show ?thesis
  proof (cases v)
    case (Testable i)
    with v show ?thesis
      unfolding set_attr_def by (simp, intro runs_to_bnd assms(4) runs_toI) (use assms(1) in \<open>auto simp: ns_dom_def\<close>)
  next
    case Foreign
    with v show ?thesis
      unfolding set_attr_def
      by (simp, intro runs_to_bnd runs_toI) (use assms(1,3) in \<open>auto simp: names_only_def\<close>)
  qed
qed

lemma c_place_no_name_error: "c_place ts ta p r s \<noteq> Inl name_error"
  by (simp add: c_place_def Let_def split: option.split)

lemma bnd_name: "r \<noteq> Inl name_error \<Longrightarrow> (\<And>x. f x \<noteq> Inl name_error) \<Longrightarrow> bnd r f \<noteq> Inl name_error"
  by (cases r) simp_all

lemma c_place_all_no_name_error: "c_place_all ts ta p rs s \<noteq> Inl name_error"
proof (induction rs arbitrary: s)
  case (Cons r rs)
  then show ?case
    unfolding c_place_all.simps split_beta by (intro bnd_name c_place_no_name_error Cons.IH) simp_all
qed simp

lemma c_struct_no_name_error: "c_struct ts ta p rs \<noteq> Inl name_error"
  unfolding c_struct_def by (intro bnd_name c_place_all_no_name_error) auto

lemma set_fields_name: "names_only P \<Longrightarrow> set_fields P st rs c \<noteq> Inl name_error"
  using c_struct_no_name_error
  by (auto simp: set_fields_def layout_of_def Let_def names_only_def bnd_def split: sum.splits if_splits)

lemma bind_name_dom [simp]: "ns_dom (bind_name py v st) = insert py (ns_dom st)"
  by (auto simp: bind_name_def ns_dom_def)

lemma bind_names_dom: "ns_dom (fold (\<lambda>nm. bind_name nm v) nms st) = set nms \<union> ns_dom st"
  by (induction nms arbitrary: st) auto

lemma exec_runs:
  assumes P: "names_only P" and A: "A \<subseteq> ns_dom st" and x: "uses_only A x"
  shows "runs_to (A \<union> set (binds x)) (exec P x st)"
proof -
  have val: "evaluable A t \<Longrightarrow> ct_value P st t \<noteq> Inl name_error" and
    ty: "evaluable A t \<Longrightarrow> ct_type P st t \<noteq> Inl name_error" for t
    using P A evaluable_mono unfolding names_only_def by blast+
  have attr: "py \<in> A \<Longrightarrow> (\<And>c. f c \<noteq> Inl name_error) \<Longrightarrow> runs_to A (set_attr P py f st)" for py f
    by (rule set_attr_runs [OF A _ P])
  show ?thesis
  proof (cases x)
    case (SClass py base mixins comment)
    with x have "\<forall>t \<in> set (base # mixins). evaluable A t" by (auto simp: uses_only_def intro: ev_name)
    with val map_res_name have "map_res (ct_value P st) (base # mixins) \<noteq> Inl name_error" by metis
    with SClass A show ?thesis
      unfolding SClass exec.simps by (intro runs_to_bnd runs_toI) (auto simp: binds_def bind_name_def ns_dom_def)
  next
    case (STypedef name expr comment)
    with x val have "ct_value P st expr \<noteq> Inl name_error" by (auto simp: uses_only_def)
    with A show ?thesis unfolding STypedef exec.simps by (intro runs_to_bnd runs_toI) (auto simp: binds_def)
  next
    case (SEnum py base nameless ls)
    with x val have "ct_value P st base \<noteq> Inl name_error" by (auto simp: uses_only_def intro: ev_name)
    with A show ?thesis
      unfolding SEnum exec.simps by (intro runs_to_bnd runs_toI) (auto simp: binds_def bind_names_dom enum_names_def)
  next
    case (SFieldsPre py rs)
    with x ty have "\<forall>r \<in> set rs. (ct_type P st \<circ> row_type) r \<noteq> Inl name_error" by (auto simp: uses_only_def)
    with map_res_name have "map_res (ct_type P st \<circ> row_type) rs \<noteq> Inl name_error" by metis
    with x show ?thesis
      unfolding SFieldsPre exec.simps by (intro runs_to_bnd) (auto simp: binds_def uses_only_def intro!: attr)
  next
    case SBlank
    with A show ?thesis by (auto simp: binds_def runs_to_def)
  next
    case (SFields py)
    have "need AttributeError (tc_pre c) \<noteq> Inl name_error" for c by (cases "tc_pre c") (simp_all add: need_def)
    then have "bnd (need AttributeError (tc_pre c)) (\<lambda>rs. set_fields P st rs c) \<noteq> Inl name_error" for c
      using set_fields_name [OF P] by (auto simp: bnd_def split: sum.splits)
    with x SFields show ?thesis by (auto simp: binds_def uses_only_def intro!: attr)
  next
    case (SBrokenUnion py)
    with x show ?thesis using set_fields_name [OF P] by (auto simp: binds_def uses_only_def intro!: attr)
  qed (use x in \<open>auto simp: binds_def uses_only_def intro!: attr\<close>)
qed

lemma body_runs:
  assumes P: "names_only P"
  shows "A \<subseteq> ns_dom st \<Longrightarrow> bound_before A xs \<Longrightarrow> runs_to (avail A xs) (run_body P xs st)"
proof (induction xs arbitrary: A st)
  case Nil
  then show ?case by (simp add: run_body_def runs_to_def)
next
  case (Cons p xs)
  obtain k x where p: "p = (k, x)" by (cases p)
  with Cons.prems have x: "uses_only A x" "bound_before (A \<union> set (binds x)) xs" by simp_all
  from exec_runs [OF P Cons.prems(1) x(1)] have r: "runs_to (A \<union> set (binds x)) (exec P x st)" .
  show ?case
  proof (cases "exec P x st")
    case (Inl e)
    with r show ?thesis by (simp add: p run_body_def runs_to_def)
  next
    case (Inr st')
    with r have "A \<union> set (binds x) \<subseteq> ns_dom st'" by (simp add: runs_to_def)
    from Cons.IH [OF this x(2)] Inr show ?thesis by (simp add: p run_body_def)
  qed
qed

lemma start_names: "ns_dom (load_start P) = set (ct_names P)"
  by (auto simp: load_start_def ns_dom_def)

text \<open>C7: the statements of a module only use names that are bound before them.  If the debug data is
  that of a whole program, and the user's descriptions name what the imports provide, then executing
  the types of the module raises no \<open>NameError\<close>: every structure, union, enumeration and typedef is
  declared before an expression mentions it.\<close>

theorem names_bound_before_use:
  assumes whole: "whole E (set (ct_names P))" and user: "request_ok E (set (ct_names P)) q" and P: "names_only P"
    and run: "andthen (init_resolver E q n) (write_module E H n) s = Inr (md, s')"
  shows "run_body P (md_body md) (load_start P) \<noteq> Inl (PyException ''NameError'')"
proof -
  from run obtain u s1 where 1: "init_resolver E q n s = Inr (u, s1)" "write_module E H n s1 = Inr (md, s')"
    by (auto simp: andthen_def sbind_eq_Inr)
  have "good E (set (ct_names P)) (set (ct_names P)) s1" by (rule init_good [OF whole user 1(1)])
  then have "bound_before (set (ct_names P)) (md_body md)" by (rule write_bound [OF whole _ 1(2)])
  then have "runs_to (avail (set (ct_names P)) (md_body md)) (run_body P (md_body md) (load_start P))"
    by (intro body_runs [OF P]) (simp_all add: start_names)
  then show ?thesis by (simp add: runs_to_def)
qed

text \<open>The structure of a linked list with a callback, in a Python that knows the identifiers.\<close>

definition one_name :: "string \<Rightarrow> bool" where
  "one_name t = list_all (\<lambda>c. c \<noteq> CHR '' '' \<and> c \<noteq> CHR ''('') t"

definition list_python :: python where
  "list_python = ex_python\<lparr>ct_names := ctypes_names,
     ct_value := (\<lambda>st t. if one_name t then need name_error (ns_names st t) else Inr Foreign),
     ct_type := (\<lambda>st t. if one_name t \<and> ns_names st t = None then Inl name_error else Inr (8, 8))\<rparr>"

abbreviation (input) list_request :: request where
  "list_request \<equiv> \<lparr>q_types = TypesFilter (\<lambda>_. Take), q_functions = NoNames, q_globals = NoNames, q_namespace = None,
     q_roots = [0]\<rparr>"

lemma list_python_names: "names_only list_python"
proof -
  have "ns_names st t \<noteq> None" if "evaluable (ns_dom st) t" "one_name t" for st t
    using evaluable_identifier [OF that(1)] that(2) by (auto simp: one_name_def list_all_iff ns_dom_def)
  then show ?thesis by (fastforce simp: names_only_def list_python_def ex_python_def)
qed

lemma ex_list_void: "isVoid ex_list (Some d) = Inr False"
proof -
  have "\<not> is_qualified ex_list (Some d)"
    by (simp add: is_qualified_def qualifiers_def ex_list_def mk_die_def)
  then show ?thesis by (simp add: isVoid_def deref_plain)
qed

lemma ex_list_same: "origin listE k i kd \<Longrightarrow> origin listE k j kj \<Longrightarrow> j = i \<and> kj = kd"
  by (drule ex_list_origin, drule ex_list_origin) auto

lemma ex_list_entry: "origin listE k i kd \<Longrightarrow> entry_of listE k f \<Longrightarrow> f = i"
  using ex_list_same by (auto simp: entry_of_def ex_list_simps)

lemma ex_list_orderly: "orderly listE"
  unfolding orderly_def
proof (intro conjI allI impI)
  fix k i kd j kj assume "origin listE k i kd" "origin listE k j kj"
  then show "kj = kd" "py_name listE j kj = py_name listE i kd" using ex_list_same by blast+
next
  fix k i kd f assume "origin listE k i kd" "entry_of listE k f"
  then show "f = i" by (rule ex_list_entry)
next
  fix k i kd j assume "origin listE k i kd" "origin listE k j kd"
  then show "j = i" using ex_list_same by blast
next
  fix d f assume "find_first (e_find listE) d = Some f"
  then show "dtag (e_dw listE f) = dtag (e_dw listE d)" by (simp add: ex_env_def)
next
  fix d b i kd assume "origin listE (key_of listE b) i kd"
  then show "kd \<noteq> KFunctionDef" using ex_list_origin by blast
next
  fix k i assume "origin listE k i KPrim"
  then show "DW_AT_byte_size (e_dw listE i) \<noteq> None" using ex_list_origin by blast
next
  fix d f
  show "isVoid (e_dw listE) (Some f) = isVoid (e_dw listE) (Some d)" by (simp add: ex_list_simps ex_list_void)
qed

lemma ex_list_param: "value_ok listE (key_of listE 3)"
proof (rule vo_plain)
  show "origin listE (key_of listE 3) 3 KPointer"
    unfolding origin_def by (intro exI [of _ 3]) (simp add: ex_list_simps ex_list_known)
  show "not_void listE (key_of listE 3)" by (simp add: not_void_def ex_list_simps ex_list_void)
qed (simp_all add: is_member_kind_def quals_def)

lemma ex_list_whole: "whole listE (set ctypes_names)"
  unfolding whole_def
proof (intro conjI allI impI)
  fix k i p assume "origin listE k i KFunction" "p \<in> set (params listE i)"
  then have "p = 7" using ex_list_origin [of k i KFunction]
    by (auto simp: params_def ex_list_simps ex_list_children)
  then show "\<exists>t. DW_AT_type (e_dw listE p) = Some t \<and> value_ok listE (key_of listE t)"
    using ex_list_param by (simp add: ex_list_simps ex_list_types)
qed (use ex_list_orderly ex_list_origin in \<open>fastforce simp: ex_list_simps ex_list_types\<close>)+

definition list_body :: "(key \<times> stmt) list res" where
  "list_body = (case andthen (init_resolver listE list_request 14) (write_module listE ex_host 14) rstate0 of
     Inl e \<Rightarrow> Inl e | Inr (md, s) \<Rightarrow> Inr (md_body md))"

lemma list_body_run:
  "case list_body of Inl e \<Rightarrow> False | Inr xs \<Rightarrow> length xs = 8
     \<and> (case run_body list_python (rev xs) (load_start list_python) of Inl e \<Rightarrow> e = PyException ''NameError'' | Inr st \<Rightarrow> False)"
  by code_simp

theorem names_bound_before_use_witness:
  "\<exists>md s. andthen (init_resolver listE list_request 14) (write_module listE ex_host 14) rstate0 = Inr (md, s)
    \<and> length (md_body md) = 8
    \<and> run_body list_python (md_body md) (load_start list_python) \<noteq> Inl (PyException ''NameError'')
    \<and> run_body list_python (rev (md_body md)) (load_start list_python) = Inl (PyException ''NameError'')"
proof -
  obtain md s where run: "andthen (init_resolver listE list_request 14) (write_module listE ex_host 14) rstate0 = Inr (md, s)"
    and md: "length (md_body md) = 8"
      "run_body list_python (rev (md_body md)) (load_start list_python) = Inl (PyException ''NameError'')"
    using list_body_run by (auto simp: list_body_def split: sum.splits prod.splits)
  have names: "ct_names list_python = ctypes_names" by (simp add: list_python_def)
  have user: "request_ok listE (set (ct_names list_python)) list_request"
    by (simp add: request_ok_def typesFilter_def hintsByTypename_def)
  from names_bound_before_use [OF _ user list_python_names run] ex_list_whole names run md show ?thesis by auto
qed

end
