(* ===== verification/Mocks.thy ===== *)
theory Mocks
  imports Prelude
begin

text \<open>
  Mocking C functions: \<open>CMock/__init__.py\<close> (\<open>mocked\<close>, \<open>Mock\<close>, the checks around them) with the part of
  \<open>cmock.cpp\<close> it drives, the global offset table of the process and the enable count of a mock.  A
  table entry holds code: the C function, a Python callback, or the thunk of a \<open>PRE\<close> mock that
  calls back and goes on to what the entry held before.
\<close>

section \<open>The global offset table\<close>

datatype code = Real string | Callback nat | Thunk nat nat code

type_synonym got = "nat \<Rightarrow> code"

datatype action = RealCall string | PyCall nat

text \<open>What a call through an entry runs.\<close>

fun runs :: "code \<Rightarrow> action list" where
  "runs (Real f) = [RealCall f]"
| "runs (Callback cb) = [PyCall cb]"
| "runs (Thunk cb a orig) = PyCall cb # runs orig"

section \<open>Mock objects\<close>

text \<open>\<open>GOTMock\<close> and \<open>PreMock\<close>: the entries to replace with what they held when the mock was made.\<close>

record gotmock =
  gm_pre :: bool
  gm_callback :: nat
  gm_replacements :: "(nat \<times> code) list"
  gm_count :: int

definition new_mock :: "bool \<Rightarrow> nat \<Rightarrow> nat list \<Rightarrow> got \<Rightarrow> gotmock" where
  "new_mock pre cb addrs got = \<lparr>gm_pre = pre, gm_callback = cb,
     gm_replacements = map (\<lambda>a. (a, got a)) addrs, gm_count = 0\<rparr>"

definition mock_code :: "gotmock \<Rightarrow> nat \<times> code \<Rightarrow> code" where
  "mock_code m r = (if gm_pre m then Thunk (gm_callback m) (fst r) (snd r) else Callback (gm_callback m))"

definition hook :: "gotmock \<Rightarrow> got \<Rightarrow> got" where
  "hook m got = foldl (\<lambda>g r. g(fst r := mock_code m r)) got (gm_replacements m)"

definition unhook :: "gotmock \<Rightarrow> got \<Rightarrow> got" where
  "unhook m got = foldl (\<lambda>g r. g(fst r := snd r)) got (gm_replacements m)"

definition enable :: "gotmock \<times> got \<Rightarrow> gotmock \<times> got" where
  "enable s = (case s of (m, got) \<Rightarrow>
     let m = m\<lparr>gm_count := gm_count m + 1\<rparr> in (m, if gm_count m = 1 then hook m got else got))"

definition disable :: "gotmock \<times> got \<Rightarrow> gotmock \<times> got" where
  "disable s = (case s of (m, got) \<Rightarrow>
     let m = m\<lparr>gm_count := gm_count m - 1\<rparr> in (m, if gm_count m = 0 then unhook m got else got))"

section \<open>\<open>mocked\<close>\<close>

text \<open>What \<open>mocked\<close> reads of a ctypes function, and the types of its callback.\<close>

datatype restype = NoneType | PointerTo string | Plain string

record cfunc =
  f_name :: string
  f_restype :: restype
  f_argtypes :: "string list option"

abbreviation (input) GOT :: nat where "GOT \<equiv> 1"
abbreviation (input) STOMP :: nat where "STOMP \<equiv> 2"
abbreviation (input) PRE :: nat where "PRE \<equiv> 3"

record mocked =
  mk_name :: string
  mk_method :: nat
  mk_restype :: restype
  mk_argtypes :: "string list"
  mk_handle :: nat
  mk_has_realfunc :: bool

definition check_ctypes_decorations :: "cfunc \<Rightarrow> string list res" where
  "check_ctypes_decorations f = need TypeError (f_argtypes f)"

definition callbackReturnType :: "nat \<Rightarrow> cfunc \<Rightarrow> restype" where
  "callbackReturnType method f =
     (let t = (if method = PRE then NoneType else f_restype f) in
      case t of PointerTo _ \<Rightarrow> Plain ''c_void_p'' | _ \<Rightarrow> t)"

definition mk_mocked :: "cfunc \<Rightarrow> nat option \<Rightarrow> nat \<Rightarrow> mocked res" where
  "mk_mocked f library method =
     bnd (check_ctypes_decorations f) (\<lambda>argtypes.
     let handle = (case library of None \<Rightarrow> 0 | Some h \<Rightarrow> h);
         m = \<lparr>mk_name = f_name f, mk_method = method, mk_restype = callbackReturnType method f,
              mk_argtypes = argtypes, mk_handle = handle, mk_has_realfunc = (method = GOT)\<rparr> in
     if method = GOT \<or> method = STOMP \<or> method = PRE then Inr m else Inl AssertionError)"

text \<open>\<open>exceptionWrapper\<close>: ctypes would ignore an exception, so the process is aborted.\<close>

datatype 'a outcome = Returned 'a | Aborted

definition exceptionWrapper :: "('a \<Rightarrow> 'r res) \<Rightarrow> 'a \<Rightarrow> 'r outcome" where
  "exceptionWrapper method args = (case method args of Inr rc \<Rightarrow> Returned rc | Inl e \<Rightarrow> Aborted)"

text \<open>\<open>mangleFunc\<close> and \<open>mangleData\<close>: \<open>mangle\<close> is \<open>libCTypeMock.mangle\<close> on the library, the pairs of
  plain and mangled names that match, and \<open>lookup\<close> whether the library has a symbol.\<close>

definition one_match :: "(string \<Rightarrow> (string \<times> string) list) \<Rightarrow> string \<Rightarrow> string res" where
  "one_match mangle mangledname =
     (case mangle mangledname of [(_, mangled)] \<Rightarrow> Inr mangled | _ \<Rightarrow> Inl AssertionError)"

definition mangleFunc ::
  "(string \<Rightarrow> (string \<times> string) list) \<Rightarrow> (string \<Rightarrow> cfunc option) \<Rightarrow> string \<Rightarrow> restype option
   \<Rightarrow> string list option \<Rightarrow> cfunc res"
where
  "mangleFunc mangle lookup mangledname restype argtypes =
     bnd (one_match mangle mangledname) (\<lambda>name.
     bnd (need AttributeError (lookup name)) (\<lambda>func.
     let func = (case restype of None \<Rightarrow> func | Some t \<Rightarrow> func\<lparr>f_restype := t\<rparr>);
         func = (case argtypes of None \<Rightarrow> func | Some ts \<Rightarrow> func\<lparr>f_argtypes := Some ts\<rparr>)
     in Inr func))"

definition mangleData ::
  "(string \<Rightarrow> (string \<times> string) list) \<Rightarrow> (string \<Rightarrow> 'd option) \<Rightarrow> string \<Rightarrow> 'd res"
where
  "mangleData mangle in_dll mangledname =
     bnd (one_match mangle mangledname) (\<lambda>name. need (PyException ''ValueError'') (in_dll name))"

text \<open>Finding \<open>libCTypeMock\<close>: in each site directory the first library that loads is taken; a later
  directory overrides an earlier one, and without any the loader's search path decides.\<close>

fun first_loadable :: "(string \<Rightarrow> 'd res) \<Rightarrow> string list \<Rightarrow> 'd option res" where
  "first_loadable CDLL [] = Inr None"
| "first_loadable CDLL (libName # libNames) =
     (case CDLL libName of
        Inr lib \<Rightarrow> Inr (Some lib)
      | Inl e \<Rightarrow> if e = PyException ''OSError'' then first_loadable CDLL libNames else Inl e)"

fun search_sites :: "(string \<Rightarrow> string list) \<Rightarrow> (string \<Rightarrow> 'd res) \<Rightarrow> 'd option \<Rightarrow> string list \<Rightarrow> 'd option res" where
  "search_sites glob CDLL cmockCdll [] = Inr cmockCdll"
| "search_sites glob CDLL cmockCdll (sitedir # sitedirs) =
     bnd (first_loadable CDLL (glob (sitedir @ ''/libCTypeMock*.so''))) (\<lambda>lib.
     search_sites glob CDLL (case lib of None \<Rightarrow> cmockCdll | Some _ \<Rightarrow> lib) sitedirs)"

definition find_cmock :: "(string \<Rightarrow> string list) \<Rightarrow> (string \<Rightarrow> 'd res) \<Rightarrow> string list \<Rightarrow> 'd res" where
  "find_cmock glob CDLL sitepackages =
     bnd (search_sites glob CDLL None sitepackages) (\<lambda>cmockCdll.
     case cmockCdll of None \<Rightarrow> CDLL ''libCTypeMock.so'' | Some lib \<Rightarrow> Inr lib)"

lemma first_loadable_None:
  "list_all (\<lambda>n. CDLL n = Inl (PyException ''OSError'')) names \<Longrightarrow> first_loadable CDLL names = Inr None"
  by (induction names) simp_all

lemma search_sites_append: "search_sites glob CDLL c (ds @ ds')
    = bnd (search_sites glob CDLL c ds) (\<lambda>c. search_sites glob CDLL c ds')"
  by (induction ds arbitrary: c) (simp_all add: bnd_assoc)

lemma find_cmock_last:
  assumes "search_sites glob CDLL None ds = Inr c" and "first_loadable CDLL (glob (d @ ''/libCTypeMock*.so'')) = Inr (Some lib)"
    and "list_all (\<lambda>d. list_all (\<lambda>n. CDLL n = Inl (PyException ''OSError'')) (glob (d @ ''/libCTypeMock*.so''))) ds'"
  shows "find_cmock glob CDLL (ds @ d # ds') = Inr lib"
proof -
  have "search_sites glob CDLL (Some lib) ds' = Inr (Some lib)"
    using assms(3) by (induction ds') (simp_all add: first_loadable_None)
  then show ?thesis using assms(1,2) by (simp add: find_cmock_def search_sites_append)
qed

text \<open>\<open>Mock\<close> patches the offset table on 64 bit and the code of the function on 32 bit.\<close>

definition default_method :: "int \<Rightarrow> nat" where
  "default_method maxsize = (if 2 ^ 32 < maxsize then GOT else STOMP)"

definition Mock_mocked :: "cfunc \<Rightarrow> nat option \<Rightarrow> nat option \<Rightarrow> int \<Rightarrow> mocked res" where
  "Mock_mocked function library method maxsize =
     mk_mocked function library (case method of None \<Rightarrow> default_method maxsize | Some m \<Rightarrow> m)"

section \<open>Blocks under a mock\<close>

text \<open>\<open>with mocked( ... ):\<close> makes a mock, enables it, runs the block and disables it, whether or not
  the block raises.  The interface a block relies on: to disable what was enabled undoes it.\<close>

locale bracket =
  fixes enter leave :: "'m \<times> 'w \<Rightarrow> 'm \<times> 'w" and make :: "'c \<Rightarrow> 'w \<Rightarrow> 'm"
  assumes leave_enter: "leave (enter (make c w, w)) = (make c w, w)"
begin

definition within :: "'c \<Rightarrow> ('w \<Rightarrow> 'r \<times> 'w) \<Rightarrow> 'w \<Rightarrow> 'r \<times> 'w" where
  "within c body w =
     (let (m, w1) = enter (make c w, w); (r, w2) = body w1; (_, w3) = leave (m, w2) in (r, w3))"

lemma within_restores:
  assumes "\<And>w. snd (body w) = w"
  shows "snd (within c body w) = w"
proof -
  obtain m w1 where e: "enter (make c w, w) = (m, w1)" by (cases "enter (make c w, w)")
  obtain r w2 where b: "body w1 = (r, w2)" by (cases "body w1")
  have "w2 = w1" using assms [of w1] b by simp
  with e b leave_enter [of c w] show ?thesis by (simp add: within_def)
qed

lemma within_result:
  assumes "enter (make c w, w) = (m, w1)"
  shows "fst (within c body w) = fst (body w1)"
  using assms by (simp add: within_def split: prod.split)

end

lemma hook_other: "a \<notin> fst ` set (gm_replacements m) \<Longrightarrow> hook m g a = g a"
proof -
  have "a \<notin> fst ` set rs \<Longrightarrow> foldl (\<lambda>g r. g(fst r := mock_code m r)) g rs a = g a" for rs
    by (induction rs arbitrary: g) auto
  then show "a \<notin> fst ` set (gm_replacements m) \<Longrightarrow> hook m g a = g a" by (simp add: hook_def)
qed

lemma hook_new: "hook (new_mock pre cb addrs g) g'
    = (\<lambda>a. if a \<in> set addrs then (if pre then Thunk cb a (g a) else Callback cb) else g' a)"
proof -
  let ?m = "new_mock pre cb addrs g"
  have "foldl (\<lambda>h r. h(fst r := mock_code ?m r)) h (map (\<lambda>a. (a, g a)) as)
      = (\<lambda>a. if a \<in> set as then (if pre then Thunk cb a (g a) else Callback cb) else h a)" for as h
    by (induction as arbitrary: h) (auto simp: fun_eq_iff mock_code_def new_mock_def)
  then show ?thesis by (simp add: hook_def) (simp add: new_mock_def)
qed

lemma unhook_new: "unhook (new_mock pre cb addrs g) g' = (\<lambda>a. if a \<in> set addrs then g a else g' a)"
proof -
  have "foldl (\<lambda>h r. h(fst r := snd r)) h (map (\<lambda>a. (a, g a)) as) = (\<lambda>a. if a \<in> set as then g a else h a)" for as h
    by (induction as arbitrary: h) (auto simp: fun_eq_iff)
  then show ?thesis by (simp add: unhook_def new_mock_def)
qed

lemma mock_code_count [simp]: "mock_code (m\<lparr>gm_count := c\<rparr>) r = mock_code m r"
  by (simp add: mock_code_def)

lemma count_new [simp]: "gm_count (new_mock pre cb addrs g) = 0"
  "(new_mock pre cb addrs g)\<lparr>gm_count := 0\<rparr> = new_mock pre cb addrs g"
  by (simp_all add: new_mock_def)

lemma hook_count [simp]: "hook (m\<lparr>gm_count := c\<rparr>) g = hook m g"
  by (simp add: hook_def)

lemma unhook_count [simp]: "unhook (m\<lparr>gm_count := c\<rparr>) g = unhook m g"
  by (simp add: unhook_def)

lemma enable_new:
  "enable (new_mock pre cb addrs g, g)
   = ((new_mock pre cb addrs g)\<lparr>gm_count := 1\<rparr>, hook (new_mock pre cb addrs g) g)"
  by (simp add: enable_def Let_def)

lemma disable_enabled:
  "disable ((new_mock pre cb addrs g)\<lparr>gm_count := 1\<rparr>, h) = (new_mock pre cb addrs g, unhook (new_mock pre cb addrs g) h)"
  by (simp add: disable_def Let_def)

interpretation mock: bracket enable disable "\<lambda>(pre, cb, addrs) g. new_mock pre cb addrs g"
  by unfold_locales (auto simp: enable_new disable_enabled hook_new unhook_new fun_eq_iff split: prod.split)

text \<open>\<open>with\<close> on the mocks of the model.\<close>

definition with_mock :: "bool \<times> nat \<times> nat list \<Rightarrow> (got \<Rightarrow> 'r \<times> got) \<Rightarrow> got \<Rightarrow> 'r \<times> got" where
  "with_mock c body got =
     (let (m, got1) = enable (new_mock (fst c) (fst (snd c)) (snd (snd c)) got, got);
          (r, got2) = body got1; (_, got3) = disable (m, got2) in (r, got3))"

lemma with_mock_within: "with_mock = mock.within"
  by (intro ext) (simp add: with_mock_def mock.within_def case_prod_beta Let_def)

text \<open>Nested blocks around a final one.\<close>

fun with_mocks :: "(bool \<times> nat \<times> nat list) list \<Rightarrow> (got \<Rightarrow> 'r \<times> got) \<Rightarrow> got \<Rightarrow> 'r \<times> got" where
  "with_mocks [] body = body"
| "with_mocks (c # cs) body = with_mock c (with_mocks cs body)"

lemma with_mocks_restores: "(\<And>w. snd (body w) = w) \<Longrightarrow> snd (with_mocks cs body w) = w"
  by (induction cs arbitrary: w) (simp_all add: with_mock_within mock.within_restores)

text \<open>What a call at an address runs inside: each \<open>PRE\<close> mock adds its callback, any other hides what
  was there.\<close>

fun inside :: "nat \<Rightarrow> (bool \<times> nat \<times> nat list) list \<Rightarrow> code \<Rightarrow> code" where
  "inside a [] code = code"
| "inside a ((pre, cb, addrs) # cs) code =
     inside a cs (if a \<in> set addrs then (if pre then Thunk cb a code else Callback cb) else code)"

definition call_at :: "nat \<Rightarrow> got \<Rightarrow> action list \<times> got" where
  "call_at a got = (runs (got a), got)"

lemma with_mocks_call: "fst (with_mocks cs (call_at a) g) = runs (inside a cs (g a))"
proof (induction cs arbitrary: g)
  case (Cons c cs)
  obtain pre cb addrs where c: "c = (pre, cb, addrs)" by (cases c) auto
  have e: "enable ((\<lambda>(pre, cb, addrs) g. new_mock pre cb addrs g) c g, g)
    = ((new_mock pre cb addrs g)\<lparr>gm_count := 1\<rparr>, hook (new_mock pre cb addrs g) g)"
    by (simp add: c enable_new)
  show ?case
    by (simp add: with_mock_within mock.within_result [OF e] Cons.IH) (simp add: c hook_new)
qed (simp add: call_at_def)

text \<open>\<open>Mock\<close>, the decorator: the mock it makes is enabled at once and stays so.\<close>

definition Mock_call :: "bool \<Rightarrow> nat \<Rightarrow> nat list \<Rightarrow> got \<Rightarrow> gotmock \<times> got" where
  "Mock_call pre cb addrs got = enable (new_mock pre cb addrs got, got)"

section \<open>Properties\<close>

text \<open>C24: nested \<open>with mocked( ... )\<close> blocks, of whatever methods and on whatever functions, leave the
  offset table as it was; inside, a call runs the callbacks of the \<open>PRE\<close> mocks from the innermost
  outwards, down to the innermost other mock or else to the function itself.\<close>

theorem nested_mocks:
  "snd (with_mocks cs (call_at a) got) = got
   \<and> fst (with_mocks cs (call_at a) got) = runs (inside a cs (got a))"
  using with_mocks_restores [of "call_at a" cs got] by (simp add: with_mocks_call call_at_def)

text \<open>An extra \<open>disable\<close> disarms a mock: enabled once more it stays without effect, because the
  count it keeps went below zero.\<close>

lemma extra_disable_disarms:
  "snd (enable (disable (new_mock pre cb addrs got, got))) = got"
  by (simp add: enable_def disable_def Let_def)

text \<open>C40: two mocks made with the decorator on one function and disabled in the order they were
  enabled: after the first, calls reach the C function although the second mock is enabled, and
  after both, calls reach the callback of the first, which is disabled.\<close>

theorem overlapping_mocks_leak:
  "let (m1, g1) = Mock_call False cb1 [a] got; (m2, g2) = Mock_call False cb2 [a] g1;
       (m1', g3) = disable (m1, g2); (m2', g4) = disable (m2, g3)
   in runs (g2 a) = [PyCall cb2] \<and> gm_count m2 = 1 \<and> g3 a = got a
      \<and> gm_count m1' = 0 \<and> gm_count m2' = 0 \<and> runs (g4 a) = [PyCall cb1]"
  by (simp add: Mock_call_def enable_new disable_enabled hook_new unhook_new)

end
