(* ===== verification/MockHelpers.thy ===== *)
theory MockHelpers
  imports Mocks
begin

text \<open>
  \<open>CMock/helpers.py\<close>: counting the calls of a function (\<open>CountedFunc\<close>, \<open>verifyCalls\<close>), a function
  that fails with a given \<open>errno\<close>, and system calls of which some are faked (\<open>FakeSyscall\<close>,
  \<open>FakeFdSyscall\<close>).
\<close>

section \<open>Counting calls\<close>

text \<open>The block under \<open>verifyCalls\<close> calls through entries of the offset table and may raise.\<close>

datatype event = CallThrough nat | BodyRaises pyexn

fun run_body :: "event list \<Rightarrow> got \<Rightarrow> (action list \<times> pyexn option) \<times> got" where
  "run_body [] got = (([], None), got)"
| "run_body (CallThrough a # es) got =
     (case run_body es got of ((tr, r), got) \<Rightarrow> ((runs (got a) @ tr, r), got))"
| "run_body (BodyRaises e # es) got = (([], Some e), got)"

text \<open>\<open>CountedFunc\<close>: how often the callback was run.\<close>

definition counted :: "nat \<Rightarrow> action list \<Rightarrow> nat" where
  "counted cb tr = length (filter (\<lambda>x. x = PyCall cb) tr)"

definition verifyCalls :: "nat list \<Rightarrow> nat \<Rightarrow> nat \<Rightarrow> event list \<Rightarrow> got \<Rightarrow> (unit res \<times> action list) \<times> got" where
  "verifyCalls addrs cb expected es got =
     (case with_mock (True, cb, addrs) (run_body es) got of
        ((tr, Some e), got) \<Rightarrow> ((Inl e, tr), got)
      | ((tr, None), got) \<Rightarrow>
          ((if counted cb tr = expected then Inr () else Inl AssertionError, tr), got))"

section \<open>Faked system calls\<close>

text \<open>\<open>setErrnoAndReturnFn( error, rv )\<close>: sets \<open>errno\<close> and returns \<open>rv\<close> whatever it is given.\<close>

definition setErrnoAndReturnFn :: "int \<Rightarrow> int \<Rightarrow> 'a \<Rightarrow> int \<Rightarrow> int \<times> int" where
  "setErrnoAndReturnFn error rv args errno = (rv, error)"

record fake =
  fk_calls :: int
  fk_start :: int
  fk_count :: int

definition mk_fake :: "int \<Rightarrow> int \<Rightarrow> fake" where
  "mk_fake start cnt = \<lparr>fk_calls = 0, fk_start = start, fk_count = cnt\<rparr>"

type_synonym ('a, 'w, 'r) fn = "'a \<Rightarrow> 'w \<Rightarrow> ('r \<times> 'w) res"

definition fake_call :: "('a, 'w, 'r) fn \<Rightarrow> ('a, 'w, 'r) fn \<Rightarrow> 'a \<Rightarrow> fake \<times> 'w \<Rightarrow> ('r \<times> fake \<times> 'w) res" where
  "fake_call realfunc mockfunc args s = (case s of (fk, w) \<Rightarrow>
     bnd (if fk_calls fk < fk_start fk \<or> fk_start fk + fk_count fk \<le> fk_calls fk
          then realfunc args w else mockfunc args w) (\<lambda>(rv, w).
     Inr (rv, fk\<lparr>fk_calls := fk_calls fk + 1\<rparr>, w)))"

definition fake_fd_call ::
  "('fd \<times> 'a, 'w, 'r) fn \<Rightarrow> ('fd \<times> 'a, 'w, 'r) fn \<Rightarrow> 'fd option \<Rightarrow> 'fd \<times> 'a \<Rightarrow> fake \<times> 'w
   \<Rightarrow> ('r \<times> fake \<times> 'w) res"
where
  "fake_fd_call realfunc mockfunc onFd args s =
     (if onFd = Some (fst args) \<or> onFd = None then fake_call realfunc mockfunc args s
      else (case s of (fk, w) \<Rightarrow> bnd (realfunc args w) (\<lambda>(rv, w). Inr (rv, fk, w))))"

fun run_calls :: "('a \<Rightarrow> 's \<Rightarrow> ('r \<times> 's) res) \<Rightarrow> 'a list \<Rightarrow> 's \<Rightarrow> ('r list \<times> 's) res" where
  "run_calls f [] s = Inr ([], s)"
| "run_calls f (a # as) s =
     bnd (f a s) (\<lambda>(r, s). bnd (run_calls f as s) (\<lambda>(rs, s). Inr (r # rs, s)))"

text \<open>Which of the calls are faked, by their number among those on the descriptor.\<close>

fun plan :: "('a \<Rightarrow> bool) \<Rightarrow> int \<Rightarrow> int \<Rightarrow> int \<Rightarrow> 'a list \<Rightarrow> bool list" where
  "plan on start cnt i [] = []"
| "plan on start cnt i (a # as) =
     (on a \<and> start \<le> i \<and> i < start + cnt) # plan on start cnt (if on a then i + 1 else i) as"

section \<open>Lemmas\<close>

lemma run_body_got: "snd (run_body es got) = got"
  by (induction es got rule: run_body.induct) (auto split: prod.splits)

definition raises :: "event \<Rightarrow> bool" where
  "raises e = (case e of BodyRaises _ \<Rightarrow> True | _ \<Rightarrow> False)"

definition calls_of :: "event \<Rightarrow> nat list" where
  "calls_of e = (case e of CallThrough a \<Rightarrow> [a] | _ \<Rightarrow> [])"

definition called :: "event list \<Rightarrow> nat list" where
  "called es = concat (map calls_of (takeWhile (\<lambda>e. \<not> raises e) es))"

lemma run_body_trace:
  "fst (fst (run_body es got)) = concat (map (\<lambda>a. runs (got a)) (called es))
   \<and> (snd (fst (run_body es got)) = None \<longleftrightarrow> \<not> list_ex raises es)"
  by (induction es got rule: run_body.induct)
    (auto simp: called_def calls_of_def raises_def run_body_got split: prod.splits,
      (metis fst_conv snd_conv run_body_got)+)

text \<open>Under the mock, and without it.\<close>

definition without :: "nat \<Rightarrow> action list \<Rightarrow> action list" where
  "without cb tr = filter (\<lambda>x. x \<noteq> PyCall cb) tr"

lemma counted_simps [simp]: "counted cb [] = 0" "counted cb (xs @ ys) = counted cb xs + counted cb ys"
  by (simp_all add: counted_def)

lemma without_simps [simp]: "without cb [] = []" "without cb (xs @ ys) = without cb xs @ without cb ys"
  by (simp_all add: without_def)

definition under :: "nat list \<Rightarrow> nat \<Rightarrow> got \<Rightarrow> got" where
  "under addrs cb got = (\<lambda>a. if a \<in> set addrs then Thunk cb a (got a) else got a)"

lemma with_pre_mock:
  "with_mock (True, cb, addrs) (run_body es) got = (fst (run_body es (under addrs cb got)), got)"
proof -
  have e: "enable ((\<lambda>(pre, cb, addrs) g. new_mock pre cb addrs g) (True, cb, addrs) got, got)
    = ((new_mock True cb addrs got)\<lparr>gm_count := 1\<rparr>, under addrs cb got)"
    by (simp add: enable_new hook_new under_def fun_eq_iff)
  have "fst (with_mock (True, cb, addrs) (run_body es) got) = fst (run_body es (under addrs cb got))"
    unfolding with_mock_within by (rule mock.within_result [OF e])
  moreover have "snd (with_mock (True, cb, addrs) (run_body es) got) = got"
    unfolding with_mock_within by (rule mock.within_restores) (rule run_body_got)
  ultimately show ?thesis by (metis prod.collapse)
qed

lemma runs_under:
  assumes "counted cb (runs (got a)) = 0"
  shows "counted cb (runs (under addrs cb got a)) = (if a \<in> set addrs then 1 else 0)"
    and "without cb (runs (under addrs cb got a)) = runs (got a)"
proof -
  have "x \<noteq> PyCall cb" if "x \<in> set (runs (got a))" for x
    using assms that by (auto simp: counted_def filter_empty_conv)
  then show "counted cb (runs (under addrs cb got a)) = (if a \<in> set addrs then 1 else 0)"
    "without cb (runs (under addrs cb got a)) = runs (got a)"
    by (auto simp: counted_def without_def under_def filter_empty_conv filter_id_conv)
qed

lemma trace_under:
  assumes "list_all (\<lambda>a. counted cb (runs (got a)) = 0) as"
  shows "counted cb (concat (map (\<lambda>a. runs (under addrs cb got a)) as)) = length (filter (List.member addrs) as)"
    and "without cb (concat (map (\<lambda>a. runs (under addrs cb got a)) as)) = concat (map (\<lambda>a. runs (got a)) as)"
proof -
  show "counted cb (concat (map (\<lambda>a. runs (under addrs cb got a)) as)) = length (filter (List.member addrs) as)"
    using assms by (induction as) (simp_all add: runs_under(1))
  show "without cb (concat (map (\<lambda>a. runs (under addrs cb got a)) as)) = concat (map (\<lambda>a. runs (got a)) as)"
    using assms by (induction as) (simp_all add: runs_under(2))
qed

definition chosen :: "('a \<Rightarrow> bool) \<Rightarrow> fake \<Rightarrow> 'a \<Rightarrow> bool" where
  "chosen on fk a = (on a \<and> fk_start fk \<le> fk_calls fk \<and> fk_calls fk < fk_start fk + fk_count fk)"

definition advance :: "('a \<Rightarrow> bool) \<Rightarrow> 'a \<Rightarrow> fake \<Rightarrow> fake" where
  "advance on a fk = fk\<lparr>fk_calls := (if on a then fk_calls fk + 1 else fk_calls fk)\<rparr>"

lemma fake_fd_step:
  "fake_fd_call real mockfn onFd a (fk, w) =
     bnd ((if chosen (\<lambda>a. onFd = Some (fst a) \<or> onFd = None) fk a then mockfn else real) a w)
       (\<lambda>(rv, w). Inr (rv, advance (\<lambda>a. onFd = Some (fst a) \<or> onFd = None) a fk, w))"
  by (auto simp: fake_fd_call_def fake_call_def chosen_def advance_def)

lemma plan_step: "plan on (fk_start fk) (fk_count fk) (fk_calls fk) (a # as) =
    chosen on fk a # plan on (fk_start (advance on a fk)) (fk_count (advance on a fk)) (fk_calls (advance on a fk)) as"
  by (simp add: chosen_def advance_def)

lemma planned_calls:
  assumes step: "\<And>a fk w. f a (fk, w) = bnd (pick (chosen on fk a, a) w) (\<lambda>(rv, w). Inr (rv, advance on a fk, w))"
  shows "run_calls f as (fk, w)
    = bnd (run_calls pick (zip (plan on (fk_start fk) (fk_count fk) (fk_calls fk) as) as) w)
        (\<lambda>(rs, w). Inr (rs, fk\<lparr>fk_calls := fk_calls fk + int (length (filter on as))\<rparr>, w))"
proof (induction as arbitrary: fk w)
  case (Cons a as)
  have last: "(advance on a fk)\<lparr>fk_calls := fk_calls (advance on a fk) + int (length (filter on as))\<rparr>
      = fk\<lparr>fk_calls := fk_calls fk + int (length (filter on (a # as)))\<rparr>"
    by (simp add: advance_def)
  show ?case
  proof (cases "pick (chosen on fk a, a) w")
    case (Inl e)
    then show ?thesis unfolding plan_step by (simp add: step)
  next
    case (Inr p)
    obtain rv w' where p: "p = (rv, w')" by (cases p)
    let ?rest = "run_calls pick
       (zip (plan on (fk_start (advance on a fk)) (fk_count (advance on a fk)) (fk_calls (advance on a fk)) as) as) w'"
    have lhs: "run_calls f (a # as) (fk, w)
        = bnd (run_calls f as (advance on a fk, w')) (\<lambda>(rs, s). Inr (rv # rs, s))"
      using Inr p by (simp add: step)
    have rhs: "run_calls pick (zip (plan on (fk_start fk) (fk_count fk) (fk_calls fk) (a # as)) (a # as)) w
        = bnd ?rest (\<lambda>(rs, s). Inr (rv # rs, s))"
      using Inr p unfolding plan_step by simp
    show ?thesis
      unfolding lhs rhs Cons.IH last [symmetric] by (cases ?rest) (auto split: prod.split)
  qed
qed simp

section \<open>Properties\<close>

text \<open>C25: \<open>verifyCalls\<close> succeeds exactly if the block does not raise and calls the function, through
  the entries of the mock, as often as expected; the function is still called each time, and the
  offset table is restored even if the block raises.  The callback must not be in the table
  already.\<close>

theorem verifyCalls_decides:
  assumes "list_all (\<lambda>a. counted cb (runs (got a)) = 0) (called es)"
  shows "snd (verifyCalls addrs cb expected es got) = got
    \<and> (fst (fst (verifyCalls addrs cb expected es got)) = Inr () \<longleftrightarrow>
        \<not> list_ex raises es \<and> length (filter (List.member addrs) (called es)) = expected)
    \<and> without cb (snd (fst (verifyCalls addrs cb expected es got))) = snd (fst (verifyCalls [] cb 0 es got))"
proof -
  let ?under = "\<lambda>as. run_body es (under as cb got)"
  obtain tr r where run: "fst (?under addrs) = (tr, r)" by (cases "fst (?under addrs)")
  with run_body_trace [of es "under addrs cb got"]
  have tr: "tr = concat (map (\<lambda>a. runs (under addrs cb got a)) (called es))" "r = None \<longleftrightarrow> \<not> list_ex raises es"
    by simp_all
  have none: "under [] cb got = got" by (simp add: under_def)
  obtain tr0 r0 where run0: "fst (run_body es got) = (tr0, r0)" by (cases "fst (run_body es got)")
  with run_body_trace [of es got] have tr0: "tr0 = concat (map (\<lambda>a. runs (got a)) (called es))" by simp
  have n: "counted cb tr = length (filter (List.member addrs) (called es))" and w: "without cb tr = tr0"
    unfolding tr(1) tr0 by (rule trace_under [OF assms])+
  have "fst (verifyCalls addrs cb expected es got) = ((case r of Some e \<Rightarrow> Inl e
      | None \<Rightarrow> if counted cb tr = expected then Inr () else Inl AssertionError), tr)
      \<and> snd (verifyCalls addrs cb expected es got) = got"
    by (cases r) (simp_all add: verifyCalls_def with_pre_mock run)
  moreover have "snd (fst (verifyCalls [] cb 0 es got)) = tr0"
    by (cases r0) (simp_all add: verifyCalls_def with_pre_mock none run0)
  ultimately show ?thesis using n w tr(2) by (cases r) auto
qed

text \<open>\<open>g\<close> is called twice and \<open>f\<close> once; entry 1 is \<open>f\<close>, entries 2 and 3 are \<open>g\<close>.\<close>

definition ex_got :: got where
  "ex_got = (\<lambda>a. if a = 1 then Real ''f'' else Real ''g'')"

theorem verifyCalls_decides_witness:
  "fst (fst (verifyCalls [2, 3] 7 2 [CallThrough 2, CallThrough 1, CallThrough 3] ex_got)) = Inr ()"
proof -
  have "list_all (\<lambda>a. counted 7 (runs (ex_got a)) = 0) (called [CallThrough 2, CallThrough 1, CallThrough 3])"
    "\<not> list_ex raises [CallThrough 2, CallThrough 1, CallThrough 3]"
    "length (filter (List.member [2, 3]) (called [CallThrough 2, CallThrough 1, CallThrough 3])) = 2"
    by (simp_all add: called_def calls_of_def raises_def ex_got_def counted_def)
  then show ?thesis using verifyCalls_decides by blast
qed


end
