(* ===== verification/Decorate.thy ===== *)
theory Decorate
  imports MockHelpers WriteProps
begin

text \<open>
  From prototypes to mocks.  A generated module gives the functions of a library their types when
  \<open>decorateFunctions\<close> runs, \<open>getLibc\<close> of \<open>CMock/helpers.py\<close> adds those of common system calls by hand
  (\<open>_decorateSyscalls\<close>), and \<open>mocked\<close> refuses a function that has none.
\<close>

section \<open>A loaded library\<close>

text \<open>The functions of a \<open>ctypes\<close> library by name; what \<open>mocked\<close> reads of one is a \<open>cfunc\<close>.\<close>

type_synonym dll = "string \<Rightarrow> cfunc option"

definition with_proto :: "restype \<Rightarrow> string list \<Rightarrow> cfunc \<Rightarrow> cfunc" where
  "with_proto res args f = f\<lparr>f_restype := res, f_argtypes := Some args\<rparr>"

definition proto :: "restype \<times> string \<times> string list \<Rightarrow> dll \<Rightarrow> dll res" where
  "proto p libc = (case p of (res, field, args) \<Rightarrow>
     bnd (need AttributeError (libc field)) (\<lambda>f. Inr (libc(field \<mapsto> with_proto res args f))))"

definition syscalls :: "(restype \<times> string \<times> string list) list" where
  "syscalls =
     (let c_int = ''c_int''; c_void_p = ''c_void_p''; c_uint = ''c_uint''; c_long = ''c_long'';
          c_ulong = ''c_ulong''; c_char_p = ''c_char_p''; POINTER = (\<lambda>t. ''POINTER( '' @ t @ '' )'') in
      [(restype.Plain c_int, ''getsockopt'', [c_int, c_int, c_int, c_void_p, POINTER c_uint]),
       (restype.Plain c_int, ''connect'', [c_int, c_void_p, c_uint]),
       (restype.Plain c_int, ''socket'', [c_int, c_int, c_int]),
       (restype.Plain c_int, ''getsockname'', [c_int, c_void_p, POINTER c_uint]),
       (restype.Plain c_int, ''bind'', [c_int, c_void_p, c_uint]),
       (restype.Plain c_int, ''setsockopt'', [c_int, c_int, c_int, c_void_p, c_uint]),
       (restype.Plain c_long, ''recv'', [c_int, c_void_p, c_int, c_int]),
       (restype.Plain c_int, ''sendmsg'', [c_int, c_void_p, c_int]),
       (restype.Plain c_int, ''accept'', [c_int, c_void_p, POINTER c_uint]),
       (restype.Plain c_int, ''ioctl'', [c_int, c_int, POINTER c_long]),
       (restype.Plain c_long, ''send'', [c_int, c_void_p, c_ulong, c_int]),
       (restype.Plain c_long, ''write'', [c_int, c_void_p, c_ulong]),
       (restype.Plain c_int, ''getppid'', []),
       (restype.Plain c_int, ''listen'', [c_int, c_int]),
       (restype.Plain c_int, ''open'', [c_char_p, c_int, c_int]),
       (restype.Plain c_int, ''open64'', [c_char_p, c_int, c_int])])"

definition decorateSyscalls :: "dll \<Rightarrow> dll res" where
  "decorateSyscalls libc = in_turn proto syscalls libc"

section \<open>Running \<open>decorateFunctions\<close>\<close>

text \<open>What the statements of one prototype do to the library: nothing without the symbol, else
  \<open>restype\<close> and \<open>argtypes\<close> become the values of their expressions in the module, \<open>rt\<close> and \<open>at\<close>.\<close>

definition run_update ::
  "(string \<Rightarrow> restype res) \<Rightarrow> (string \<Rightarrow> string res) \<Rightarrow> string \<times> string \<times> string list \<Rightarrow> dll \<Rightarrow> dll res"
where
  "run_update rt at u lib = (case u of (linkername, restype, args) \<Rightarrow>
     case lib linkername of
       None \<Rightarrow> Inr lib
     | Some f \<Rightarrow> bnd (rt restype) (\<lambda>t. bnd (map_res at args) (\<lambda>ts.
         Inr (lib(linkername \<mapsto> with_proto t ts f)))))"

definition decorateFunctions ::
  "(string \<Rightarrow> restype res) \<Rightarrow> (string \<Rightarrow> string res) \<Rightarrow> (string \<times> string \<times> string list) list \<Rightarrow> dll \<Rightarrow> dll res"
where
  "decorateFunctions rt at updates lib = in_turn (run_update rt at) updates lib"

definition getLibc :: "(string \<Rightarrow> restype res) \<Rightarrow> (string \<Rightarrow> string res) \<Rightarrow> pymodule \<Rightarrow> dll \<Rightarrow> dll res" where
  "getLibc rt at md dll = bnd (decorateFunctions rt at (md_updates md) dll) decorateSyscalls"

section \<open>Lemmas\<close>

text \<open>The effect of prototypes that were run: each function has the type of the last one for its name.\<close>

definition typed :: "(string \<Rightarrow> (restype \<times> string list) option) \<Rightarrow> dll \<Rightarrow> dll" where
  "typed d lib = (\<lambda>f. map_option (\<lambda>g. case d f of None \<Rightarrow> g | Some (res, args) \<Rightarrow> with_proto res args g) (lib f))"

definition given :: "('a \<Rightarrow> (string \<times> restype \<times> string list) option) \<Rightarrow> 'a list \<Rightarrow> string \<Rightarrow> (restype \<times> string list) option" where
  "given p xs = map_of (rev (List.map_filter p xs))"

definition evaluated ::
  "(string \<Rightarrow> restype res) \<Rightarrow> (string \<Rightarrow> string res) \<Rightarrow> string \<times> string \<times> string list \<Rightarrow> (string \<times> restype \<times> string list) option"
where
  "evaluated rt at u = (case u of (linkername, restype, args) \<Rightarrow>
     case (rt restype, map_res at args) of (Inr t, Inr ts) \<Rightarrow> Some (linkername, t, ts) | _ \<Rightarrow> None)"

definition by_hand :: "restype \<times> string \<times> string list \<Rightarrow> (string \<times> restype \<times> string list) option" where
  "by_hand p = (case p of (res, field, args) \<Rightarrow> Some (field, res, args))"

lemma typed_typed: "typed d' (typed d lib) = typed (d ++ d') lib"
  by (auto simp: typed_def with_proto_def map_add_def fun_eq_iff option.map_comp comp_def split: option.splits
      intro!: map_option_cong)

lemma typed_defined [simp]: "typed d lib f = None \<longleftrightarrow> lib f = None"
  by (simp add: typed_def)

lemma given_Cons: "given p (x # xs) = given p [x] ++ given p xs"
  by (simp add: given_def map_filter_simps split: option.split)

lemma given_in: "given p xs f \<noteq> None \<longleftrightarrow> f \<in> fst ` set (List.map_filter p xs)"
  by (simp add: given_def map_of_eq_None_iff dom_map_of_conv_image_fst)

lemma in_turn_typed:
  assumes "\<And>x l l'. f x l = Inr l' \<Longrightarrow> l' = typed (given p [x]) l"
  shows "in_turn f xs l = Inr l' \<Longrightarrow> l' = typed (given p xs) l"
proof (induction xs arbitrary: l)
  case Nil
  then show ?case by (simp add: given_def typed_def map_filter_simps option.map_ident)
next
  case (Cons x xs)
  then obtain l1 where "f x l = Inr l1" "in_turn f xs l1 = Inr l'" by (auto simp: bnd_eq_Inr)
  with Cons.IH [of l1] assms [of x l l1] show ?case by (simp add: typed_typed given_Cons [of p x xs])
qed

lemma single_typed: "given p [x] = (case p x of None \<Rightarrow> Map.empty | Some (n, v) \<Rightarrow> [n \<mapsto> v])"
  by (auto simp: given_def map_filter_simps split: option.splits)

lemma typed_one:
  "l f = Some g \<Longrightarrow> typed [f \<mapsto> (res, args)] l = l(f \<mapsto> with_proto res args g)"
  "l f = None \<Longrightarrow> typed [f \<mapsto> v] l = l"
  "typed Map.empty l = l"
  by (auto simp: typed_def fun_eq_iff option.map_ident split: prod.splits)

lemma proto_typed: "proto x l = Inr l' \<Longrightarrow> l' = typed (given by_hand [x]) l"
  by (auto simp: proto_def bnd_eq_Inr need_eq_Inr single_typed by_hand_def typed_one split: prod.splits)

lemma run_update_typed: "run_update rt at u l = Inr l' \<Longrightarrow> l' = typed (given (evaluated rt at) [u]) l"
  by (auto simp: run_update_def bnd_eq_Inr single_typed evaluated_def typed_one split: prod.splits option.splits sum.splits)

lemma updates_typed: "decorateFunctions rt at us l = Inr l' \<Longrightarrow> l' = typed (given (evaluated rt at) us) l"
  unfolding decorateFunctions_def by (rule in_turn_typed) (rule run_update_typed)

lemma syscalls_typed: "decorateSyscalls l = Inr l' \<Longrightarrow> l' = typed (given by_hand syscalls) l"
  unfolding decorateSyscalls_def by (rule in_turn_typed) (rule proto_typed)

text \<open>When the calls return.\<close>

lemma in_turn_returns:
  assumes "\<And>x l l'. f x l = Inr l' \<Longrightarrow> dom l' = dom l" and "\<And>x l. x \<in> set xs \<Longrightarrow> dom l = D \<Longrightarrow> \<exists>l'. f x l = Inr l'"
  shows "dom l = D \<Longrightarrow> \<exists>l'. in_turn f xs l = Inr l'"
  using assms(2)
proof (induction xs arbitrary: l)
  case (Cons x xs)
  from Cons.prems(2) [of x l] Cons.prems(1) obtain l1 where l1: "f x l = Inr l1" by auto
  have "dom l1 = D" using assms(1) [OF l1] Cons.prems(1) by simp
  moreover have "\<exists>l'. f y k = Inr l'" if "y \<in> set xs" "dom k = D" for y k
    using Cons.prems(2) that by simp
  ultimately have "\<exists>l'. in_turn f xs l1 = Inr l'" by (rule Cons.IH)
  with l1 show ?case by simp
qed simp

lemma typed_dom [simp]: "dom (typed d l) = dom l"
  by (auto simp: typed_def)

lemma syscalls_return: "(\<exists>l'. decorateSyscalls l = Inr l') \<longleftrightarrow> fst ` snd ` set syscalls \<subseteq> dom l"
  and syscalls_raise: "decorateSyscalls l = Inl e \<Longrightarrow> e = AttributeError"
proof -
  have step: "proto x l = (if fst (snd x) \<in> dom l then Inr (typed (given by_hand [x]) l) else Inl AttributeError)" for x l
    by (cases x; cases "l (fst (snd x))") (auto simp: proto_def single_typed by_hand_def typed_one)
  have raises: "in_turn proto xs l = Inl e \<Longrightarrow> e = AttributeError" for xs l
    by (induction xs arbitrary: l) (auto simp: step bnd_split split: if_splits)
  have "(\<exists>l'. in_turn proto xs l = Inr l') \<longleftrightarrow> fst ` snd ` set xs \<subseteq> dom l" for xs l
    by (induction xs arbitrary: l) (auto simp: step)
  then show "(\<exists>l'. decorateSyscalls l = Inr l') \<longleftrightarrow> fst ` snd ` set syscalls \<subseteq> dom l"
    by (simp add: decorateSyscalls_def)
  show "decorateSyscalls l = Inl e \<Longrightarrow> e = AttributeError"
    unfolding decorateSyscalls_def by (rule raises)
qed

lemma updates_return:
  assumes "list_all (\<lambda>u. fst u \<in> dom l \<longrightarrow> evaluated rt at u \<noteq> None) us"
  shows "\<exists>l'. decorateFunctions rt at us l = Inr l'"
proof -
  have "dom l' = dom l" if "run_update rt at u l = Inr l'" for u l l'
    using run_update_typed [OF that] by simp
  moreover have "\<exists>l''. run_update rt at u l' = Inr l''" if "u \<in> set us" "dom l' = dom l" for u l'
  proof -
    obtain ln r args where u: "u = (ln, r, args)" by (cases u)
    show ?thesis
    proof (cases "l' ln")
      case (Some f)
      then have "ln \<in> dom l" using that(2) by blast
      then have "evaluated rt at u \<noteq> None" using assms that(1) u unfolding list_all_iff by fastforce
      with u Some show ?thesis by (auto simp: run_update_def evaluated_def split: sum.splits)
    qed (simp add: run_update_def u)
  qed
  ultimately show ?thesis
    unfolding decorateFunctions_def by (intro in_turn_returns [where D = "dom l"]) auto
qed


lemma updates_evaluated:
  "decorateFunctions rt at us l = Inr l' \<Longrightarrow> u \<in> set us \<Longrightarrow> fst u \<in> dom l \<Longrightarrow> evaluated rt at u \<noteq> None"
  unfolding decorateFunctions_def
proof (induction us arbitrary: l)
  case (Cons v us)
  then obtain l1 where l1: "run_update rt at v l = Inr l1" "in_turn (run_update rt at) us l1 = Inr l'"
    by (auto simp: bnd_eq_Inr)
  have dom: "dom l1 = dom l" using run_update_typed [OF l1(1)] by simp
  show ?case
  proof (cases "u = v")
    case True
    then show ?thesis using l1(1) Cons.prems(3)
      by (auto simp: run_update_def evaluated_def bnd_eq_Inr split: prod.splits option.splits)
  next
    case False
    then show ?thesis using Cons.IH [OF l1(2)] Cons.prems dom by simp
  qed
qed simp

lemma evaluated_Some: "evaluated rt at u = Some (ln, t, ts) \<Longrightarrow> ln = fst u \<and> length ts = length (snd (snd u))"
  by (auto simp: evaluated_def map_res_length split: prod.splits sum.splits)

section \<open>Properties\<close>

text \<open>The prototype a function of the C library ends up with: that of the table, or else the last one the
  generated module has for it.\<close>

definition declared ::
  "(string \<Rightarrow> restype res) \<Rightarrow> (string \<Rightarrow> string res) \<Rightarrow> pymodule \<Rightarrow> string \<Rightarrow> (restype \<times> string list) option"
where
  "declared rt at md f = (case given by_hand syscalls f of Some p \<Rightarrow> Some p
     | None \<Rightarrow> given (evaluated rt at) (md_updates md) f)"

lemma getLibc_typed: "getLibc rt at md lib = Inr lib' \<Longrightarrow> lib' = typed (declared rt at md) lib"
proof -
  assume "getLibc rt at md lib = Inr lib'"
  then have "lib' = typed (given (evaluated rt at) (md_updates md) ++ given by_hand syscalls) lib"
    by (auto simp: getLibc_def bnd_eq_Inr typed_typed dest!: updates_typed syscalls_typed)
  then show ?thesis by (simp add: declared_def [abs_def] map_add_def)
qed




section \<open>Examples\<close>

definition ex_libc :: dll where
  "ex_libc = (\<lambda>f. Some \<lparr>f_name = f, f_restype = restype.Plain ''c_int'', f_argtypes = None\<rparr>)"

definition ex_module :: pymodule where
  "ex_module = \<lparr>md_imports = [], md_body = [], md_hint_aliases = [], md_tag_aliases = [], md_globals = [],
     md_updates = [(''write'', ''None'', []), (''strlen'', ''c_ulong'', [''c_char_p''])], md_protos = []\<rparr>"



end
